(* ===== verification/Control_Prelude.thy ===== *)
theory Control_Prelude
  imports Main "HOL-Library.Word" "HOL-Library.Multiset"
    "HOL-Library.Char_ord" "HOL-Library.List_Lexorder"
begin

text \<open>
  Shared ground of the development: the Go values every component uses (byte slices,
  times, errors, results of calls that may fail or panic) and the generic lemmas on
  lists, maps and words the component proofs rest on.
\<close>

section \<open>Collections of facts\<close>

named_theorems wf_intros \<open>each operation of a component keeps its invariant\<close>
named_theorems frame_simps \<open>fields an operation does not write\<close>
named_theorems codec_simps \<open>decoding what an encoder printed\<close>

section \<open>Bytes and strings\<close>

text \<open>
  A Go string is a sequence of bytes, and so is a byte slice. Strings are \<open>char list\<close>
  (an Isabelle \<open>char\<close> is one byte), slices are lists of 8-bit words; the Go conversions
  \<open>[]byte(s)\<close> and \<open>string(b)\<close> copy the bytes.
\<close>

type_synonym byte = "8 word"
type_synonym bytes = "byte list"

definition bytes_of_string :: "string \<Rightarrow> bytes" where
  "bytes_of_string s = map (\<lambda>c. word_of_nat (of_char c)) s"

definition string_of_bytes :: "bytes \<Rightarrow> string" where
  "string_of_bytes b = map (\<lambda>w. char_of (unat w)) b"

lemma unat_byte_lt [simp]: "unat (w :: byte) < 256"
  using unsigned_less [of w, where ?'a = nat] by simp

lemma string_of_bytes_of_string [codec_simps, simp]:
  "string_of_bytes (bytes_of_string s) = s"
proof -
  have "char_of (unat (word_of_nat (of_char c) :: byte)) = c" for c :: char
    by (simp add: unat_of_nat take_bit_eq_mod)
  then show ?thesis
    by (simp add: string_of_bytes_def bytes_of_string_def map_idI)
qed

lemma bytes_of_string_of_bytes [codec_simps, simp]:
  "bytes_of_string (string_of_bytes b) = b"
proof -
  have "word_of_nat (of_char (char_of (unat w) :: char)) = w" for w :: byte
    by (simp add: take_bit_eq_mod)
  then show ?thesis
    by (simp add: string_of_bytes_def bytes_of_string_def map_idI)
qed

lemma length_bytes_of_string [simp]: "length (bytes_of_string s) = length s"
  by (simp add: bytes_of_string_def)

lemma bytes_of_string_inject [simp]:
  "bytes_of_string s = bytes_of_string t \<longleftrightarrow> s = t"
  by (metis string_of_bytes_of_string)

definition ascii :: "string \<Rightarrow> bool" where
  "ascii s \<longleftrightarrow> list_all (\<lambda>ch. (of_char ch :: nat) < 128) s"

section \<open>Times\<close>

text \<open>
  A \<open>time.Time\<close> is its distance from the Unix epoch in nanoseconds, a
  \<open>time.Duration\<close> a number of nanoseconds.
\<close>

type_synonym time = int
type_synonym duration = int

definition Second :: duration where
  "Second = 1000000000"

definition Minute :: duration where
  "Minute = 60 * Second"

definition Hour :: duration where
  "Hour = 60 * Minute"

section \<open>Errors and results\<close>

text \<open>
  \<open>ErrorString\<close> is \<open>errors.New\<close> (the sentinels of the packages are such values, with
  pairwise different texts), \<open>WrapError\<close> is \<open>fmt.Errorf\<close> with \<open>%w\<close> after a prefix,
  \<open>ExternalError\<close> an error made by code outside the repository. \<open>errors.Is\<close> looks
  through the wrappers.
\<close>

datatype goerror =
    ErrorString string
  | WrapError string goerror
  | ExternalError string

fun error_text :: "goerror \<Rightarrow> string" where
  "error_text (ErrorString s) = s"
| "error_text (WrapError p e) = p @ '': '' @ error_text e"
| "error_text (ExternalError s) = s"

fun errors_Is :: "goerror \<Rightarrow> goerror \<Rightarrow> bool" where
  "errors_Is (WrapError p e) t = (WrapError p e = t \<or> errors_Is e t)"
| "errors_Is e t = (e = t)"

text \<open>
  A call returns a value, returns an error, or panics (and unwinds to the HTTP
  recovery middleware).
\<close>

datatype 'a outcome = Ok 'a | Fail goerror | Panic

fun bind_outcome :: "'a outcome \<Rightarrow> ('a \<Rightarrow> 'b outcome) \<Rightarrow> 'b outcome" where
  "bind_outcome (Ok a) f = f a"
| "bind_outcome (Fail e) f = Fail e"
| "bind_outcome Panic f = Panic"

fun is_Ok :: "'a outcome \<Rightarrow> bool" where
  "is_Ok (Ok _) = True"
| "is_Ok _ = False"

lemma bind_outcome_eq_Ok:
  "bind_outcome m f = Ok b \<longleftrightarrow> (\<exists>a. m = Ok a \<and> f a = Ok b)"
  by (cases m) auto

section \<open>Randomness\<close>

text \<open>
  \<open>crypto/rand\<close> is a source outside the program: \<open>draw i n\<close> is what the \<open>i\<close>-th read
  of \<open>n\<close> bytes gives, \<open>None\<close> when it reports an error. \<open>rand_ok\<close> says that a read
  that succeeds fills the buffer it was given.
\<close>

record rng =
  draw :: "nat \<Rightarrow> nat \<Rightarrow> bytes option"
  reads :: nat

definition rand_Read :: "nat \<Rightarrow> rng \<Rightarrow> bytes option \<times> rng" where
  "rand_Read n r = (draw r (reads r) n, r\<lparr>reads := Suc (reads r)\<rparr>)"

definition rand_ok :: "rng \<Rightarrow> bool" where
  "rand_ok r \<longleftrightarrow> (\<forall>i n bs. draw r i n = Some bs \<longrightarrow> length bs = n)"

definition rand_error :: goerror where
  "rand_error = ExternalError ''crypto/rand''"

lemma rand_Read_length:
  "rand_ok r \<Longrightarrow> rand_Read n r = (Some bs, r') \<Longrightarrow> length bs = n"
  by (auto simp: rand_ok_def rand_Read_def)

lemma rand_Read_keeps_ok [wf_intros]:
  "rand_ok r \<Longrightarrow> rand_Read n r = (x, r') \<Longrightarrow> rand_ok r'"
  by (auto simp: rand_ok_def rand_Read_def)

end
