(* ===== verification/Session_Machine.thy ===== *)
theory Session_Machine
  imports Control_Prelude
begin

text \<open>
  The control-plane session lifecycle (\<open>internal/sessions/state.go\<close>): states and events
  are strings, the transition table is a map of maps, and \<open>Next\<close> looks an edge up. The
  diagram in the source's comment is the abstract specification: an edge relation over
  four phases, which \<open>Next\<close> is shown to implement; \<open>drive\<close> applies a sequence of events
  the way a caller that ignores the error value would.
\<close>

section \<open>States, events and the transition table\<close>

type_synonym State = string
type_synonym Event = string

definition StateOff :: State where "StateOff = ''OFF''"
definition StateStarting :: State where "StateStarting = ''STARTING''"
definition StateWatching :: State where "StateWatching = ''WATCHING''"
definition StateStopping :: State where "StateStopping = ''STOPPING''"

definition EventStart :: Event where "EventStart = ''START''"
definition EventStreamStarted :: Event where "EventStreamStarted = ''STREAM_STARTED''"
definition EventStop :: Event where "EventStop = ''STOP''"
definition EventFatalError :: Event where "EventFatalError = ''FATAL_ERROR''"
definition EventWorkerIdle :: Event where "EventWorkerIdle = ''WORKER_IDLE''"

lemmas state_defs = StateOff_def StateStarting_def StateWatching_def StateStopping_def
lemmas event_defs = EventStart_def EventStreamStarted_def EventStop_def EventFatalError_def
  EventWorkerIdle_def

record InvalidTransitionError =
  From :: State
  On :: Event

definition InvalidTransitionError_Error :: "InvalidTransitionError \<Rightarrow> string" where
  "InvalidTransitionError_Error e = ''invalid transition: '' @ On e @ '' in state '' @ From e"

definition transitions :: "State \<rightharpoonup> (Event \<rightharpoonup> State)" where
  "transitions = [
     StateOff \<mapsto> [EventStart \<mapsto> StateStarting],
     StateStarting \<mapsto> [EventStreamStarted \<mapsto> StateWatching, EventStop \<mapsto> StateStopping,
       EventFatalError \<mapsto> StateStopping],
     StateWatching \<mapsto> [EventStop \<mapsto> StateStopping, EventFatalError \<mapsto> StateStopping],
     StateStopping \<mapsto> [EventWorkerIdle \<mapsto> StateOff]]"

definition Next :: "State \<Rightarrow> Event \<Rightarrow> State \<times> InvalidTransitionError option" where
  "Next cur ev =
     (case (case transitions cur of None \<Rightarrow> None | Some edges \<Rightarrow> edges ev) of
        Some nxt \<Rightarrow> (nxt, None)
      | None \<Rightarrow> (cur, Some \<lparr>From = cur, On = ev\<rparr>))"

fun drive :: "State \<Rightarrow> Event list \<Rightarrow> State" where
  "drive s [] = s"
| "drive s (e # es) = drive (fst (Next s e)) es"

section \<open>The abstract lifecycle\<close>

datatype phase = Off | Starting | Watching | Stopping
datatype cause = Start | StreamStarted | Stop | FatalError | WorkerIdle

instantiation phase :: enum
begin

definition "enum_phase = [Off, Starting, Watching, Stopping]"

definition "enum_all_phase P \<longleftrightarrow> P Off \<and> P Starting \<and> P Watching \<and> P Stopping"

definition "enum_ex_phase P \<longleftrightarrow> P Off \<or> P Starting \<or> P Watching \<or> P Stopping"

instance
proof
  show all: "(UNIV :: phase set) = set enum_class.enum"
    using phase.exhaust by (auto simp: enum_phase_def)
  show "distinct (enum_class.enum :: phase list)"
    by (simp add: enum_phase_def)
  show "enum_class.enum_all P = Ball UNIV P" for P :: "phase \<Rightarrow> bool"
    unfolding all by (simp add: enum_all_phase_def enum_phase_def)
  show "enum_class.enum_ex P = Bex UNIV P" for P :: "phase \<Rightarrow> bool"
    unfolding all by (simp add: enum_ex_phase_def enum_phase_def)
qed

end

inductive edge :: "phase \<Rightarrow> cause \<Rightarrow> phase \<Rightarrow> bool" where
  start: "edge Off Start Starting"
| stream_started: "edge Starting StreamStarted Watching"
| stop_starting: "c = Stop \<or> c = FatalError \<Longrightarrow> edge Starting c Stopping"
| stop_watching: "c = Stop \<or> c = FatalError \<Longrightarrow> edge Watching c Stopping"
| idle: "edge Stopping WorkerIdle Off"

inductive_simps edge_simps:
  "edge Off c q" "edge Starting c q" "edge Watching c q" "edge Stopping c q"

inductive_cases edge_to_OffE: "edge p c Off"
inductive_cases edge_to_WatchingE: "edge p c Watching"

fun phase_name :: "phase \<Rightarrow> State" where
  "phase_name Off = StateOff"
| "phase_name Starting = StateStarting"
| "phase_name Watching = StateWatching"
| "phase_name Stopping = StateStopping"

fun cause_name :: "cause \<Rightarrow> Event" where
  "cause_name Start = EventStart"
| "cause_name StreamStarted = EventStreamStarted"
| "cause_name Stop = EventStop"
| "cause_name FatalError = EventFatalError"
| "cause_name WorkerIdle = EventWorkerIdle"

lemma phase_name_inject [simp]: "phase_name p = phase_name q \<longleftrightarrow> p = q"
  by (cases p; cases q) (simp_all add: state_defs)

lemma cause_name_inject [simp]: "cause_name c = cause_name d \<longleftrightarrow> c = d"
  by (cases c; cases d) (simp_all add: event_defs)

lemma states_distinct [simp]:
  "StateOff \<noteq> StateStarting" "StateOff \<noteq> StateWatching" "StateOff \<noteq> StateStopping"
  "StateStarting \<noteq> StateWatching" "StateStarting \<noteq> StateStopping"
  "StateWatching \<noteq> StateStopping"
  by (simp_all add: state_defs)

lemmas states_distinct' [simp] = states_distinct [symmetric]

lemma events_distinct [simp]:
  "EventStart \<noteq> EventStreamStarted" "EventStart \<noteq> EventStop" "EventStart \<noteq> EventFatalError"
  "EventStart \<noteq> EventWorkerIdle" "EventStreamStarted \<noteq> EventStop"
  "EventStreamStarted \<noteq> EventFatalError" "EventStreamStarted \<noteq> EventWorkerIdle"
  "EventStop \<noteq> EventFatalError" "EventStop \<noteq> EventWorkerIdle"
  "EventFatalError \<noteq> EventWorkerIdle"
  by (simp_all add: event_defs)

lemmas events_distinct' [simp] = events_distinct [symmetric]

lemma names_in_range [simp]:
  "StateOff \<in> range phase_name" "StateStarting \<in> range phase_name"
  "StateWatching \<in> range phase_name" "StateStopping \<in> range phase_name"
  by (metis phase_name.simps rangeI)+

section \<open>The table, edge by edge\<close>

lemma Next_Off: "Next StateOff e =
    (if e = EventStart then (StateStarting, None) else (StateOff, Some \<lparr>From = StateOff, On = e\<rparr>))"
  by (simp add: Next_def transitions_def)

lemma Next_Starting: "Next StateStarting e =
    (if e = EventStreamStarted then (StateWatching, None)
     else if e = EventStop \<or> e = EventFatalError then (StateStopping, None)
     else (StateStarting, Some \<lparr>From = StateStarting, On = e\<rparr>))"
  by (simp add: Next_def transitions_def)

lemma Next_Watching: "Next StateWatching e =
    (if e = EventStop \<or> e = EventFatalError then (StateStopping, None)
     else (StateWatching, Some \<lparr>From = StateWatching, On = e\<rparr>))"
  by (simp add: Next_def transitions_def)

lemma Next_Stopping: "Next StateStopping e =
    (if e = EventWorkerIdle then (StateOff, None)
     else (StateStopping, Some \<lparr>From = StateStopping, On = e\<rparr>))"
  by (simp add: Next_def transitions_def)

lemma Next_unknown: "s \<notin> range phase_name \<Longrightarrow> Next s e = (s, Some \<lparr>From = s, On = e\<rparr>)"
proof -
  assume s: "s \<notin> range phase_name"
  then have "s \<noteq> phase_name p" for p by blast
  from this [of Off] this [of Starting] this [of Watching] this [of Stopping]
  show ?thesis by (simp add: Next_def transitions_def)
qed

lemmas Next_cases = Next_Off Next_Starting Next_Watching Next_Stopping

lemma Next_phase: "Next (phase_name p) e =
  (case p of
     Off \<Rightarrow> (if e = EventStart then (StateStarting, None) else (StateOff, Some \<lparr>From = StateOff, On = e\<rparr>))
   | Starting \<Rightarrow> (if e = EventStreamStarted then (StateWatching, None)
       else if e = EventStop \<or> e = EventFatalError then (StateStopping, None)
       else (StateStarting, Some \<lparr>From = StateStarting, On = e\<rparr>))
   | Watching \<Rightarrow> (if e = EventStop \<or> e = EventFatalError then (StateStopping, None)
       else (StateWatching, Some \<lparr>From = StateWatching, On = e\<rparr>))
   | Stopping \<Rightarrow> (if e = EventWorkerIdle then (StateOff, None)
       else (StateStopping, Some \<lparr>From = StateStopping, On = e\<rparr>)))"
  by (cases p) (simp_all add: Next_cases)

lemma Next_edge: "edge p c q \<Longrightarrow> Next (phase_name p) (cause_name c) = (phase_name q, None)"
  by (induction rule: edge.induct) (auto simp: Next_cases)

lemma Next_succeeds_edge:
  assumes "Next (phase_name p) e = (t, None)"
  shows "\<exists>c q. e = cause_name c \<and> t = phase_name q \<and> edge p c q"
proof (cases p)
  case Off
  with assms have "e = cause_name Start" "t = phase_name Starting"
    by (simp_all add: Next_cases split: if_splits)
  with Off show ?thesis by (blast intro: edge.intros)
next
  case Starting
  with assms consider "e = cause_name StreamStarted" "t = phase_name Watching"
    | "e = cause_name Stop" "t = phase_name Stopping"
    | "e = cause_name FatalError" "t = phase_name Stopping"
    by (auto simp: Next_cases split: if_splits)
  with Starting show ?thesis by cases (blast intro: edge.intros)+
next
  case Watching
  with assms consider "e = cause_name Stop" "t = phase_name Stopping"
    | "e = cause_name FatalError" "t = phase_name Stopping"
    by (auto simp: Next_cases split: if_splits)
  with Watching show ?thesis by cases (blast intro: edge.intros)+
next
  case Stopping
  with assms have "e = cause_name WorkerIdle" "t = phase_name Off"
    by (simp_all add: Next_cases split: if_splits)
  with Stopping show ?thesis by (blast intro: edge.intros)
qed

lemma Next_error:
  "Next s e = (t, Some err) \<Longrightarrow> t = s \<and> err = \<lparr>From = s, On = e\<rparr>"
  by (auto simp: Next_def split: option.splits)

section \<open>Properties\<close>

text \<open>
  C29: \<open>Next\<close> implements the lifecycle diagram exactly. On any state and event string it
  returns without an error precisely for the edges of the diagram, and otherwise leaves
  the state as it was and reports the state and the event it refused.
\<close>

theorem Next_refines_lifecycle:
  "(Next s e = (t, None) \<longleftrightarrow>
      (\<exists>p c q. s = phase_name p \<and> e = cause_name c \<and> t = phase_name q \<and> edge p c q))
   \<and> (snd (Next s e) \<noteq> None \<longleftrightarrow> Next s e = (s, Some \<lparr>From = s, On = e\<rparr>))"
proof (intro conjI iffI)
  assume n: "Next s e = (t, None)"
  then obtain p where "s = phase_name p" using Next_unknown [of s e] by fastforce
  with n Next_succeeds_edge show
    "\<exists>p c q. s = phase_name p \<and> e = cause_name c \<and> t = phase_name q \<and> edge p c q" by blast
next
  assume "\<exists>p c q. s = phase_name p \<and> e = cause_name c \<and> t = phase_name q \<and> edge p c q"
  then show "Next s e = (t, None)" using Next_edge by blast
next
  assume "snd (Next s e) \<noteq> None"
  then show "Next s e = (s, Some \<lparr>From = s, On = e\<rparr>)"
    using Next_error by (metis not_Some_eq prod.collapse)
qed simp

lemma drive_snoc: "drive s (es @ [e]) = fst (Next (drive s es) e)"
  by (induction es arbitrary: s) auto

lemma drive_append: "drive s (xs @ ys) = drive (drive s xs) ys"
  by (induction xs arbitrary: s) auto

lemma Next_range: "s \<in> range phase_name \<Longrightarrow> fst (Next s e) \<in> range phase_name"
  by (auto simp: Next_phase simp flip: phase_name.simps split: phase.splits)

lemma drive_range: "s \<in> range phase_name \<Longrightarrow> drive s es \<in> range phase_name"
  by (induction es arbitrary: s) (simp_all add: Next_range)

lemma into_Starting: "fst (Next s e) = StateStarting \<Longrightarrow>
  (s = StateOff \<and> e = EventStart) \<or>
  (s = StateStarting \<and> e \<noteq> EventStreamStarted \<and> e \<noteq> EventStop \<and> e \<noteq> EventFatalError)"
  by (cases "s \<in> range phase_name")
    (auto simp: Next_phase Next_unknown split: phase.splits if_splits)

lemma into_Watching: "fst (Next s e) = StateWatching \<Longrightarrow>
  (s = StateStarting \<and> e = EventStreamStarted) \<or>
  (s = StateWatching \<and> e \<noteq> EventStop \<and> e \<noteq> EventFatalError)"
  by (cases "s \<in> range phase_name")
    (auto simp: Next_phase Next_unknown split: phase.splits if_splits)

definition halting :: "Event set" where
  "halting = {EventStop, EventFatalError}"

lemma drive_to_Starting: "drive StateOff es = StateStarting \<Longrightarrow>
  \<exists>xs ys. es = xs @ EventStart # ys \<and> drive StateOff xs = StateOff \<and> set ys \<inter> halting = {}"
proof (induction es rule: rev_induct)
  case Nil
  then show ?case by simp
next
  case (snoc e es)
  then consider "drive StateOff es = StateOff" "e = EventStart"
    | "drive StateOff es = StateStarting" "e \<notin> halting"
    using into_Starting [of "drive StateOff es" e] by (auto simp: drive_snoc halting_def)
  then show ?case
  proof cases
    case 1
    then show ?thesis by (intro exI [of _ es] exI [of _ "[]"]) simp
  next
    case 2
    with snoc.IH obtain xs ys where
      "es = xs @ EventStart # ys" "drive StateOff xs = StateOff" "set ys \<inter> halting = {}" by blast
    with 2 show ?thesis by (intro exI [of _ xs] exI [of _ "ys @ [e]"]) simp
  qed
qed

text \<open>
  A session is WATCHING only because a START taken in OFF was followed by a
  STREAM_STARTED from the worker, with no STOP and no FATAL_ERROR after either of them.
\<close>

theorem watching_needs_stream:
  "drive StateOff es = StateWatching \<Longrightarrow>
    \<exists>xs ys zs. es = xs @ EventStart # ys @ EventStreamStarted # zs
      \<and> drive StateOff xs = StateOff \<and> set ys \<inter> halting = {} \<and> set zs \<inter> halting = {}"
proof (induction es rule: rev_induct)
  case Nil
  then show ?case by simp
next
  case (snoc e es)
  then consider "drive StateOff es = StateStarting" "e = EventStreamStarted"
    | "drive StateOff es = StateWatching" "e \<notin> halting"
    using into_Watching [of "drive StateOff es" e] by (auto simp: drive_snoc halting_def)
  then show ?case
  proof cases
    case 1
    from drive_to_Starting [OF 1(1)] obtain xs ys where
      "es = xs @ EventStart # ys" "drive StateOff xs = StateOff" "set ys \<inter> halting = {}" by blast
    with 1(2) show ?thesis
      by (intro exI [of _ xs] exI [of _ ys] exI [of _ "[]"]) simp
  next
    case 2
    with snoc.IH obtain xs ys zs where
      "es = xs @ EventStart # ys @ EventStreamStarted # zs" "drive StateOff xs = StateOff"
      "set ys \<inter> halting = {}" "set zs \<inter> halting = {}" by blast
    with 2(2) show ?thesis
      by (intro exI [of _ xs] exI [of _ ys] exI [of _ "zs @ [e]"]) simp
  qed
qed

theorem watching_needs_stream_witness:
  "\<exists>xs ys zs. [EventWorkerIdle, EventStart, EventStreamStarted, EventStart]
      = xs @ EventStart # ys @ EventStreamStarted # zs
      \<and> drive StateOff xs = StateOff \<and> set ys \<inter> halting = {} \<and> set zs \<inter> halting = {}"
  by (rule watching_needs_stream) (simp add: Next_cases)

text \<open>
  A\<close>

theorem session_can_stop:
  "drive (drive StateOff es) [EventStop, EventWorkerIdle] = StateOff
   \<and> (Next s e = (StateOff, None) \<longleftrightarrow> s = StateStopping \<and> e = EventWorkerIdle)"
proof
  have "drive StateOff es \<in> range phase_name"
    by (rule drive_range) (simp flip: phase_name.simps)
  then obtain p where p: "drive StateOff es = phase_name p" by blast
  show "drive (drive StateOff es) [EventStop, EventWorkerIdle] = StateOff"
    unfolding p by (cases p) (simp_all add: Next_cases)
  show "Next s e = (StateOff, None) \<longleftrightarrow> s = StateStopping \<and> e = EventWorkerIdle"
    by (cases "s \<in> range phase_name")
      (auto simp: Next_phase Next_unknown Next_Stopping split: phase.splits if_splits)
qed

end
