(* ===== verification/Go_Text.thy ===== *)
theory Go_Text
  imports Control_Prelude
begin

text \<open>
  The parts of Go's standard library the control plane formats and parses text with:
  decimal printing (\<open>fmt.Sprintf\<close>, verb d), \<open>fmt.Sscanf\<close> with the verb d,
  \<open>strings.Split\<close> on one character, \<open>encoding/hex\<close> and the unpadded
  \<open>encoding/base64\<close> encodings. Each is written out as the library behaves, leniencies
  included: \<open>Sscanf\<close> skips spaces, takes a sign for signed integers and ignores what
  follows the last verb; base64 decoding drops carriage returns and line feeds and does
  not look at the unused bits of the last character.
\<close>

section \<open>Decimal numbers\<close>

definition digit_char :: "nat \<Rightarrow> char" where
  "digit_char d = char_of (48 + d)"

definition is_digit :: "char \<Rightarrow> bool" where
  "is_digit c \<longleftrightarrow> 48 \<le> (of_char c :: nat) \<and> (of_char c :: nat) \<le> 57"

definition digit_val :: "char \<Rightarrow> nat" where
  "digit_val c = of_char c - 48"

fun show_nat :: "nat \<Rightarrow> string" where
  "show_nat n = (if n < 10 then [digit_char n] else show_nat (n div 10) @ [digit_char (n mod 10)])"

declare show_nat.simps [simp del]

definition show_int :: "int \<Rightarrow> string" where
  "show_int i = (if i < 0 then CHR ''-'' # show_nat (nat (- i)) else show_nat (nat i))"

definition nat_of_digits :: "string \<Rightarrow> nat" where
  "nat_of_digits ds = foldl (\<lambda>a c. 10 * a + digit_val c) 0 ds"

lemma of_char_digit_char: "d < 10 \<Longrightarrow> (of_char (digit_char d) :: nat) = 48 + d"
  by (simp add: digit_char_def)

lemma is_digit_digit_char [simp]: "d < 10 \<Longrightarrow> is_digit (digit_char d)"
  by (simp add: is_digit_def of_char_digit_char)

lemma digit_val_digit_char [simp]: "d < 10 \<Longrightarrow> digit_val (digit_char d) = d"
  by (simp add: digit_val_def of_char_digit_char)

lemma show_nat_digits: "c \<in> set (show_nat n) \<Longrightarrow> is_digit c"
proof (induction n rule: show_nat.induct)
  case (1 n)
  then show ?case
    by (cases "n < 10") (auto simp: show_nat.simps [of n])
qed

lemma show_nat_nonempty [simp]: "show_nat n \<noteq> []"
  by (subst show_nat.simps) simp

lemma nat_of_digits_show_nat [codec_simps]: "nat_of_digits (show_nat n) = n"
proof (induction n rule: show_nat.induct)
  case (1 n)
  show ?case
  proof (cases "n < 10")
    case True
    then show ?thesis by (simp add: show_nat.simps [of n] nat_of_digits_def)
  next
    case False
    with 1 have "nat_of_digits (show_nat (n div 10)) = n div 10" by simp
    with False show ?thesis
      by (simp add: show_nat.simps [of n] nat_of_digits_def)
  qed
qed

section \<open>Scanning with a format\<close>

text \<open>
  \<open>spaces\<close> lists the UTF-8 encodings of the characters \<open>fmt\<close> counts as space, the
  line feed apart: a scan stops with an error at a line feed.
\<close>

definition spaces :: "nat list list" where
  "spaces = [[9], [11], [12], [13], [32], [194, 133], [194, 160], [225, 154, 128]]
     @ map (\<lambda>k. [226, 128, k]) [128, 129, 130, 131, 132, 133, 134, 135, 136, 137, 138, 168, 169, 175]
     @ [[226, 129, 159], [227, 128, 128]]"

fun strip_prefix :: "nat list \<Rightarrow> string \<Rightarrow> string option" where
  "strip_prefix [] s = Some s"
| "strip_prefix (p # ps) [] = None"
| "strip_prefix (p # ps) (c # cs) = (if of_char c = p then strip_prefix ps cs else None)"

definition leading_space :: "string \<Rightarrow> string option" where
  "leading_space s = (case filter (\<lambda>r. r \<noteq> None) (map (\<lambda>p. strip_prefix p s) spaces) of
     [] \<Rightarrow> None | r # _ \<Rightarrow> r)"

lemma strip_prefix_length: "strip_prefix p s = Some r \<Longrightarrow> length s = length p + length r"
  by (induction p s rule: strip_prefix.induct) (auto split: if_splits)

lemma spaces_nonempty: "p \<in> set spaces \<Longrightarrow> 0 < length p"
  by (auto simp: spaces_def)

lemma leading_space_shorter: "leading_space s = Some r \<Longrightarrow> length r < length s"
proof -
  assume "leading_space s = Some r"
  then have "Some r \<in> set (filter (\<lambda>r. r \<noteq> None) (map (\<lambda>p. strip_prefix p s) spaces))"
    unfolding leading_space_def by (cases "filter (\<lambda>r. r \<noteq> None) (map (\<lambda>p. strip_prefix p s) spaces)") simp_all
  then obtain p where "p \<in> set spaces" "strip_prefix p s = Some r" by auto
  then show ?thesis using strip_prefix_length spaces_nonempty by fastforce
qed

function skip_space :: "string \<Rightarrow> string option" where
  "skip_space s = (case s of
     [] \<Rightarrow> Some []
   | c # cs \<Rightarrow> if c = CHR 0x0A then None
       else (case leading_space s of None \<Rightarrow> Some s | Some r \<Rightarrow> skip_space r))"
  by pat_completeness auto
termination
  by (relation "measure length") (auto dest: leading_space_shorter)

declare skip_space.simps [simp del]

lemma leading_space_digit: "is_digit c \<Longrightarrow> leading_space (c # cs) = None"
  by (auto simp: leading_space_def spaces_def is_digit_def)

lemma skip_space_digit [simp]: "is_digit c \<Longrightarrow> skip_space (c # cs) = Some (c # cs)"
  by (subst skip_space.simps) (auto simp: leading_space_digit is_digit_def)

text \<open>
  The verb d: \<open>scan_uint bits\<close> reads into an unsigned integer of that width,
  \<open>scan_int\<close> into an \<open>int\<close> (64 bits), with an optional sign. The result comes with the
  rest of the input.
\<close>

definition scan_uint :: "nat \<Rightarrow> string \<Rightarrow> (nat \<times> string) option" where
  "scan_uint bits s = (case skip_space s of
     None \<Rightarrow> None
   | Some s' \<Rightarrow>
      (let ds = takeWhile is_digit s'; n = nat_of_digits ds in
       if ds = [] then None else if n < 2 ^ bits then Some (n, dropWhile is_digit s') else None))"

definition scan_int :: "string \<Rightarrow> (int \<times> string) option" where
  "scan_int s = (case skip_space s of
     None \<Rightarrow> None
   | Some s' \<Rightarrow>
      (let neg = (case s' of c # _ \<Rightarrow> c = CHR ''-'' | [] \<Rightarrow> False);
           u = (case s' of c # cs \<Rightarrow> if c = CHR ''-'' \<or> c = CHR ''+'' then cs else s' | [] \<Rightarrow> []);
           ds = takeWhile is_digit u;
           n = (if neg then - int (nat_of_digits ds) else int (nat_of_digits ds)) in
       if ds = [] then None
       else if - (2 ^ 63) \<le> n \<and> n < 2 ^ 63 then Some (n, dropWhile is_digit u) else None))"

fun scan_lit :: "string \<Rightarrow> string \<Rightarrow> string option" where
  "scan_lit [] s = Some s"
| "scan_lit (f # fs) [] = None"
| "scan_lit (f # fs) (c # cs) = (if f = c then scan_lit fs cs else None)"

lemma scan_lit_append [simp]: "scan_lit f (f @ s) = Some s"
  by (induction f) auto

lemma takeWhile_show_nat:
  "takeWhile is_digit (show_nat n @ s) = show_nat n @ takeWhile is_digit s"
  by (meson show_nat_digits takeWhile_append2)

lemma dropWhile_show_nat: "dropWhile is_digit (show_nat n @ s) = dropWhile is_digit s"
  by (meson show_nat_digits dropWhile_append2)

definition no_digit :: "string \<Rightarrow> bool" where
  "no_digit s \<longleftrightarrow> (case s of [] \<Rightarrow> True | c # _ \<Rightarrow> \<not> is_digit c)"

lemma no_digit_takeWhile: "no_digit s \<Longrightarrow> takeWhile is_digit s = []"
  by (cases s) (auto simp: no_digit_def)

lemma no_digit_dropWhile: "no_digit s \<Longrightarrow> dropWhile is_digit s = s"
  by (cases s) (auto simp: no_digit_def)

lemma skip_space_show_nat: "skip_space (show_nat n @ s) = Some (show_nat n @ s)"
proof (cases "show_nat n")
  case Nil
  then show ?thesis by simp
next
  case (Cons c cs)
  then have "is_digit c" using show_nat_digits [of c n] by simp
  with Cons show ?thesis by simp
qed

lemma scan_uint_show_nat [codec_simps]:
  "n < 2 ^ bits \<Longrightarrow> no_digit s \<Longrightarrow> scan_uint bits (show_nat n @ s) = Some (n, s)"
  by (simp add: scan_uint_def skip_space_show_nat takeWhile_show_nat dropWhile_show_nat
      no_digit_takeWhile no_digit_dropWhile nat_of_digits_show_nat)

lemma scan_int_show_nat [codec_simps]:
  assumes "n < 2 ^ 63" "no_digit s"
  shows "scan_int (show_nat n @ s) = Some (int n, s)"
proof -
  obtain c cs where c: "show_nat n = c # cs"
    using show_nat_nonempty [of n] by (cases "show_nat n") auto
  then have "is_digit c" using show_nat_digits [of c n] by simp
  then have "c \<noteq> CHR ''-''" "c \<noteq> CHR ''+''" by (auto simp: is_digit_def)
  moreover have "int n < 2 ^ 63"
    using assms(1) by (metis of_nat_less_iff of_nat_numeral of_nat_power)
  moreover have "nat_of_digits (c # cs) = n" using c nat_of_digits_show_nat [of n] by simp
  ultimately show ?thesis
    using c skip_space_show_nat [of n s] takeWhile_show_nat [of n s] dropWhile_show_nat [of n s]
      assms(2)
    by (simp add: scan_int_def Let_def no_digit_takeWhile no_digit_dropWhile)
qed

section \<open>Splitting on a character\<close>

fun split_on :: "char \<Rightarrow> string \<Rightarrow> string list" where
  "split_on d [] = [[]]"
| "split_on d (c # cs) = (if c = d then [] # split_on d cs
     else (case split_on d cs of [] \<Rightarrow> [[c]] | w # ws \<Rightarrow> (c # w) # ws))"

lemma split_on_nonempty [simp]: "split_on d s \<noteq> []"
  by (cases s) (auto split: list.splits)

lemma split_on_no_sep: "d \<notin> set s \<Longrightarrow> split_on d s = [s]"
  by (induction s) auto

lemma split_on_append [codec_simps]:
  "d \<notin> set s \<Longrightarrow> split_on d (s @ d # t) = s # split_on d t"
  by (induction s) auto

fun join_with :: "char \<Rightarrow> string list \<Rightarrow> string" where
  "join_with d [] = []"
| "join_with d [w] = w"
| "join_with d (w # v # ws) = w @ d # join_with d (v # ws)"

lemma split_token:
  assumes "CHR ''.'' \<notin> set h" "CHR ''.'' \<notin> set p" "rest = [] \<or> hd rest = CHR ''.''"
  obtains more' where "split_on CHR ''.'' (h @ CHR ''.'' # p @ rest) = h # p # more'"
proof (cases rest)
  case Nil
  then show ?thesis using that assms(1,2) by (simp add: split_on_append split_on_no_sep)
next
  case (Cons c cs)
  then show ?thesis using that assms by (simp add: split_on_append)
qed

lemma join_with_split_on: "join_with d (split_on d s) = s"
proof (induction s)
  case Nil
  show ?case by simp
next
  case (Cons c cs)
  obtain w ws where w: "split_on d cs = w # ws"
    using split_on_nonempty [of d cs] by (cases "split_on d cs") auto
  with Cons have "join_with d (w # ws) = cs" by simp
  with w show ?case by (cases ws) auto
qed

lemma split_on_pieces: "w \<in> set (split_on d s) \<Longrightarrow> d \<notin> set w"
  by (induction s arbitrary: w) (auto split: if_splits list.splits)

section \<open>Hexadecimal\<close>

definition hex_char :: "nat \<Rightarrow> char" where
  "hex_char n = (if n < 10 then char_of (48 + n) else char_of (87 + n))"

definition hex_EncodeToString :: "bytes \<Rightarrow> string" where
  "hex_EncodeToString b = concat (map (\<lambda>w. [hex_char (unat w div 16), hex_char (unat w mod 16)]) b)"

lemma length_hex [simp]: "length (hex_EncodeToString b) = 2 * length b"
  by (induction b) (auto simp: hex_EncodeToString_def)

lemma hex_char_inject: "m < 16 \<Longrightarrow> n < 16 \<Longrightarrow> hex_char m = hex_char n \<Longrightarrow> m = n"
proof -
  assume m: "m < 16" and n: "n < 16" and eq: "hex_char m = hex_char n"
  have code: "(of_char (hex_char k) :: nat) = (if k < 10 then 48 + k else 87 + k)" if "k < 16" for k
    using that unfolding hex_char_def by (cases "k < 10") (simp_all add: of_char_of)
  have "(if m < 10 then 48 + m else 87 + m) = (if n < 10 then 48 + n else 87 + n)"
    using code [OF m] code [OF n] eq by metis
  then show "m = n" using m n by (simp split: if_split_asm)
qed

lemma hex_EncodeToString_inject:
  "hex_EncodeToString a = hex_EncodeToString b \<Longrightarrow> a = b"
proof (induction a arbitrary: b)
  case Nil
  then show ?case by (cases b) (auto simp: hex_EncodeToString_def)
next
  case (Cons x xs)
  from Cons.prems obtain y ys where b: "b = y # ys"
    by (cases b) (auto simp: hex_EncodeToString_def)
  with Cons.prems have h: "hex_char (unat x div 16) = hex_char (unat y div 16)"
      "hex_char (unat x mod 16) = hex_char (unat y mod 16)"
      "hex_EncodeToString xs = hex_EncodeToString ys"
    by (auto simp: hex_EncodeToString_def)
  have lt: "unat z div 16 < 16" for z :: byte
    using unat_byte_lt [of z] by linarith
  have "unat x div 16 = unat y div 16" "unat x mod 16 = unat y mod 16"
    using hex_char_inject [OF lt lt h(1)] hex_char_inject [OF _ _ h(2)] by simp_all
  then have "unat x = unat y" by (metis div_mult_mod_eq)
  then have "x = y" by (rule unsigned_word_eqI)
  with Cons.IH [OF h(3)] b show ?case by simp
qed

end
