(* ===== verification/Go_Json.thy ===== *)
theory Go_Json
  imports Go_Text
begin

text \<open>
  \<open>encoding/json\<close> as the control plane uses it: the reader (\<open>json.Decoder\<close>, which takes the
  first value of its input and does not look further, and \<open>json.Unmarshal\<close>, which wants
  nothing but white space after it), the encoder with its HTML escaping, and decoding into a
  struct of string fields. Strings are byte strings; the reader replaces what is not UTF-8 by
  U+FFFD, as the library does.
\<close>

section \<open>Values\<close>

datatype json =
    JNull
  | JBool bool
  | JNum string                     \<comment> \<open>the literal\<close>
  | JStr string
  | JArr "json list"
  | JObj "(string \<times> json) list"    \<comment> \<open>in the order of the text, duplicates included\<close>

section \<open>UTF-8\<close>

definition code :: "char \<Rightarrow> nat" where
  "code c = of_char c"

definition between :: "nat \<Rightarrow> nat \<Rightarrow> char \<Rightarrow> bool" where
  "between a b c \<longleftrightarrow> a \<le> code c \<and> code c \<le> b"

text \<open>
  The length of the well-formed sequence at the front of a text, 0 when there is none: the
  first byte gives the length, and for some first bytes a narrower range of the second.
\<close>

definition utf8_class :: "char \<Rightarrow> nat" where
  "utf8_class a = (if code a < 128 then 1 else if between 194 223 a then 2
     else if between 224 239 a then 3 else if between 240 244 a then 4 else 0)"

definition utf8_second :: "char \<Rightarrow> char \<Rightarrow> bool" where
  "utf8_second a b =
     (if code a = 224 then between 160 191 b else if code a = 237 then between 128 159 b
      else if code a = 240 then between 144 191 b else if code a = 244 then between 128 143 b
      else between 128 191 b)"

definition utf8_tail :: "char \<Rightarrow> string \<Rightarrow> bool" where
  "utf8_tail a bs = (case bs of [] \<Rightarrow> True | b # cs \<Rightarrow> utf8_second a b \<and> list_all (between 128 191) cs)"

fun utf8_len :: "string \<Rightarrow> nat" where
  "utf8_len [] = 0"
| "utf8_len (a # s) =
     (let n = utf8_class a in
      if n - 1 \<le> length s \<and> utf8_tail a (take (n - 1) s) then n else 0)"

definition utf8_encode :: "nat \<Rightarrow> string" where
  "utf8_encode r = map char_of
     (if r < 128 then [r]
      else if r < 2048 then [192 + r div 64, 128 + r mod 64]
      else if r < 65536 then [224 + r div 4096, 128 + r div 64 mod 64, 128 + r mod 64]
      else [240 + r div 262144, 128 + r div 4096 mod 64, 128 + r div 64 mod 64, 128 + r mod 64])"

definition RuneError :: nat where
  "RuneError = 65533"

section \<open>The scanner\<close>

definition is_space :: "char \<Rightarrow> bool" where
  "is_space c \<longleftrightarrow> code c \<in> {32, 9, 10, 13}"

fun skip_ws :: "string \<Rightarrow> string" where
  "skip_ws s = dropWhile is_space s"

definition hex_digit :: "char \<Rightarrow> nat option" where
  "hex_digit c = (if between 48 57 c then Some (code c - 48)
     else if between 97 102 c then Some (code c - 87)
     else if between 65 70 c then Some (code c - 55) else None)"

text \<open>Four hexadecimal digits at the front.\<close>

fun getu4 :: "string \<Rightarrow> (nat \<times> string) option" where
  "getu4 (a # b # c # d # s) =
     (case (hex_digit a, hex_digit b, hex_digit c, hex_digit d) of
        (Some w, Some x, Some y, Some z) \<Rightarrow> Some (4096 * w + 256 * x + 16 * y + z, s)
      | _ \<Rightarrow> None)"
| "getu4 s = None"

text \<open>
  After \<open>\u\<close> and its digits: a surrogate needs the other half in a second escape; without it
  the rune is replaced, and what follows is read on its own.
\<close>

definition finish_u :: "nat \<Rightarrow> string \<Rightarrow> nat \<times> string" where
  "finish_u r s =
     (if 55296 \<le> r \<and> r < 57344 then
        (case s of
           b # u # t \<Rightarrow>
             if code b = 92 \<and> code u = 117 then
               (case getu4 t of
                  Some (r2, t') \<Rightarrow>
                    if r < 56320 \<and> 56320 \<le> r2 \<and> r2 < 57344
                    then ((r - 55296) * 1024 + (r2 - 56320) + 65536, t') else (RuneError, s)
                | None \<Rightarrow> (RuneError, s))
             else (RuneError, s)
         | _ \<Rightarrow> (RuneError, s))
      else (r, s))"

lemma getu4_length: "getu4 s = Some (r, t) \<Longrightarrow> length t < length s"
  by (induction s rule: getu4.induct) (auto split: option.splits)

lemma finish_u_length: "finish_u r s = (r', t) \<Longrightarrow> length t \<le> length s"
  by (auto simp: finish_u_def split: if_splits list.splits option.splits dest!: getu4_length)

definition escape_char :: "char \<Rightarrow> string option" where
  "escape_char c =
     (if code c \<in> {34, 92, 47} then Some [c]
      else if code c = 98 then Some [char_of (8::nat)]
      else if code c = 102 then Some [char_of (12::nat)]
      else if code c = 110 then Some [char_of (10::nat)]
      else if code c = 114 then Some [char_of (13::nat)]
      else if code c = 116 then Some [char_of (9::nat)]
      else None)"

text \<open>One step inside a string literal: the bytes it stands for and the rest, or the end.\<close>

datatype str_item = StrEnd string | StrBytes string string | StrBad

definition str_escape :: "string \<Rightarrow> str_item" where
  "str_escape t =
     (case t of
        [] \<Rightarrow> StrBad
      | e # u \<Rightarrow>
          if code e = 117 then
            (case getu4 u of
               None \<Rightarrow> StrBad
             | Some (r, v) \<Rightarrow> StrBytes (utf8_encode (fst (finish_u r v))) (snd (finish_u r v)))
          else (case escape_char e of None \<Rightarrow> StrBad | Some b \<Rightarrow> StrBytes b u))"

definition str_step :: "string \<Rightarrow> str_item" where
  "str_step s =
     (case s of
        [] \<Rightarrow> StrBad
      | c # t \<Rightarrow>
          if code c = 34 then StrEnd t
          else if code c = 92 then str_escape t
          else if code c < 32 then StrBad
          else if utf8_len s = 0 then StrBytes (utf8_encode RuneError) t
          else StrBytes (take (utf8_len s) s) (drop (utf8_len s) s))"

lemma str_escape_length: "str_escape s = StrBytes b t \<Longrightarrow> length t < length s"
proof -
  assume s: "str_escape s = StrBytes b t"
  then obtain e u where e: "s = e # u" by (cases s) (auto simp: str_escape_def)
  have "length (snd (finish_u r v)) \<le> length v" for r v
    using finish_u_length [of r v] by (cases "finish_u r v") auto
  then show ?thesis
    using s unfolding e str_escape_def
    by (fastforce split: if_splits option.splits dest: getu4_length intro: le_less_trans less_imp_le le_imp_less_Suc)
qed

lemma str_step_length: "str_step s = StrBytes b t \<Longrightarrow> length t < length s"
  by (cases s) (auto simp: str_step_def simp del: utf8_len.simps split: if_splits dest: str_escape_length)

function lex_string :: "string \<Rightarrow> (string \<times> string) option" where
  "lex_string s =
     (case str_step s of
        StrBad \<Rightarrow> None
      | StrEnd t \<Rightarrow> Some ([], t)
      | StrBytes b t \<Rightarrow> map_option (\<lambda>(r, t'). (b @ r, t')) (lex_string t))"
  by pat_completeness auto
termination
  by (relation "measure length") (auto dest: str_step_length)

declare lex_string.simps [simp del]

definition digits :: "string \<Rightarrow> string \<times> string" where
  "digits s = (takeWhile is_digit s, dropWhile is_digit s)"

text \<open>A number: sign, integer part without leading zeros, fraction, exponent.\<close>

definition lex_int :: "string \<Rightarrow> (string \<times> string) option" where
  "lex_int s =
     (case s of
        [] \<Rightarrow> None
      | c # t \<Rightarrow> if code c = 48 then Some ([c], t)
          else if is_digit c then Some (c # fst (digits t), snd (digits t)) else None)"

definition lex_frac :: "string \<Rightarrow> (string \<times> string) option" where
  "lex_frac s =
     (case s of
        c # t \<Rightarrow> if code c = 46 then (if fst (digits t) = [] then None else Some (c # fst (digits t), snd (digits t)))
                 else Some ([], s)
      | [] \<Rightarrow> Some ([], []))"

definition lex_exp :: "string \<Rightarrow> (string \<times> string) option" where
  "lex_exp s =
     (case s of
        c # t \<Rightarrow> if code c \<in> {69, 101} then
                   (let sg = (case t of x # u \<Rightarrow> if code x \<in> {43, 45} then [x] else [] | [] \<Rightarrow> []); u = drop (length sg) t in
                    if fst (digits u) = [] then None else Some (c # sg @ fst (digits u), snd (digits u)))
                 else Some ([], s)
      | [] \<Rightarrow> Some ([], []))"

definition lex_number :: "string \<Rightarrow> (string \<times> string) option" where
  "lex_number s =
     (let sg = (case s of x # u \<Rightarrow> if code x = 45 then [x] else [] | [] \<Rightarrow> []) in
      case lex_int (drop (length sg) s) of
        None \<Rightarrow> None
      | Some (i, s1) \<Rightarrow>
          (case lex_frac s1 of
             None \<Rightarrow> None
           | Some (f, s2) \<Rightarrow>
               (case lex_exp s2 of None \<Rightarrow> None | Some (e, s3) \<Rightarrow> Some (sg @ i @ f @ e, s3))))"

section \<open>The parser\<close>

definition strip :: "string \<Rightarrow> string \<Rightarrow> string option" where
  "strip p s = (if take (length p) s = p then Some (drop (length p) s) else None)"

text \<open>
  The two loops, over the elements of an array and the members of an object, take the reader
  of a value as an argument; each round consumes a character, so the length of the text is
  enough fuel.
\<close>

fun p_elems :: "(string \<Rightarrow> (json \<times> string) option) \<Rightarrow> nat \<Rightarrow> string \<Rightarrow> (json list \<times> string) option" where
  "p_elems pv 0 s = None"
| "p_elems pv (Suc n) s =
     (case pv s of
        None \<Rightarrow> None
      | Some (x, r) \<Rightarrow>
          (case skip_ws r of
             [] \<Rightarrow> None
           | c # t \<Rightarrow> if code c = 93 then Some ([x], t)
               else if code c = 44 then map_option (\<lambda>(xs, r). (x # xs, r)) (p_elems pv n t)
               else None))"

definition p_key :: "string \<Rightarrow> (string \<times> string) option" where
  "p_key s =
     (case skip_ws s of
        [] \<Rightarrow> None
      | q # t \<Rightarrow>
          if code q \<noteq> 34 then None
          else (case lex_string t of
             None \<Rightarrow> None
           | Some (k, r) \<Rightarrow> (case skip_ws r of [] \<Rightarrow> None | c # u \<Rightarrow> if code c = 58 then Some (k, u) else None)))"

fun p_members :: "(string \<Rightarrow> (json \<times> string) option) \<Rightarrow> nat \<Rightarrow> string \<Rightarrow> ((string \<times> json) list \<times> string) option" where
  "p_members pv 0 s = None"
| "p_members pv (Suc n) s =
     (case p_key s of
        None \<Rightarrow> None
      | Some (k, u) \<Rightarrow>
          (case pv u of
             None \<Rightarrow> None
           | Some (x, v) \<Rightarrow>
               (case skip_ws v of
                  [] \<Rightarrow> None
                | e # w \<Rightarrow> if code e = 125 then Some ([(k, x)], w)
                    else if code e = 44 then map_option (\<lambda>(ms, r). ((k, x) # ms, r)) (p_members pv n w)
                    else None)))"

definition p_scalar :: "char \<Rightarrow> string \<Rightarrow> (json \<times> string) option" where
  "p_scalar c t =
     (if code c = 34 then map_option (\<lambda>(x, r). (JStr x, r)) (lex_string t)
      else if code c = 116 then map_option (Pair (JBool True)) (strip ''rue'' t)
      else if code c = 102 then map_option (Pair (JBool False)) (strip ''alse'' t)
      else if code c = 110 then map_option (Pair JNull) (strip ''ull'' t)
      else map_option (\<lambda>(x, r). (JNum x, r)) (lex_number (c # t)))"

definition p_array :: "(string \<Rightarrow> (json \<times> string) option) \<Rightarrow> string \<Rightarrow> (json \<times> string) option" where
  "p_array pv t =
     (case skip_ws t of
        [] \<Rightarrow> None
      | e # r \<Rightarrow> if code e = 93 then Some (JArr [], r)
          else map_option (\<lambda>(xs, r). (JArr xs, r)) (p_elems pv (length t) t))"

definition p_object :: "(string \<Rightarrow> (json \<times> string) option) \<Rightarrow> string \<Rightarrow> (json \<times> string) option" where
  "p_object pv t =
     (case skip_ws t of
        [] \<Rightarrow> None
      | e # r \<Rightarrow> if code e = 125 then Some (JObj [], r)
          else map_option (\<lambda>(ms, r). (JObj ms, r)) (p_members pv (length t) t))"

text \<open>The number is how many more arrays and objects may be opened.\<close>

fun p_value :: "nat \<Rightarrow> string \<Rightarrow> (json \<times> string) option" where
  "p_value 0 s =
     (case skip_ws s of
        [] \<Rightarrow> None
      | c # t \<Rightarrow> if code c = 123 \<or> code c = 91 then None else p_scalar c t)"
| "p_value (Suc d) s =
     (case skip_ws s of
        [] \<Rightarrow> None
      | c # t \<Rightarrow> if code c = 123 then p_object (p_value d) t
          else if code c = 91 then p_array (p_value d) t else p_scalar c t)"

definition maxNestingDepth :: nat where
  "maxNestingDepth = 10000"

text \<open>\<open>Decoder.Decode\<close> reads the first value, \<open>Unmarshal\<close> the whole text.\<close>

definition Decode_value :: "string \<Rightarrow> json option" where
  "Decode_value s = map_option fst (p_value maxNestingDepth s)"

definition Unmarshal_value :: "string \<Rightarrow> json option" where
  "Unmarshal_value s =
     (case p_value maxNestingDepth s of
        None \<Rightarrow> None | Some (j, r) \<Rightarrow> if skip_ws r = [] then Some j else None)"

section \<open>The encoder\<close>

definition hex_lower :: "nat \<Rightarrow> char" where
  "hex_lower n = (if n < 10 then char_of (48 + n) else char_of (87 + n))"

definition escape_byte :: "char \<Rightarrow> string" where
  "escape_byte c =
     (if code c \<in> {34, 92} then [char_of (92::nat), c]
      else if code c = 8 then [char_of (92::nat), CHR ''b'']
      else if code c = 12 then [char_of (92::nat), CHR ''f'']
      else if code c = 10 then [char_of (92::nat), CHR ''n'']
      else if code c = 13 then [char_of (92::nat), CHR ''r'']
      else if code c = 9 then [char_of (92::nat), CHR ''t'']
      else if code c < 32 \<or> code c \<in> {60, 62, 38}
        then char_of (92::nat) # ''u00'' @ [hex_lower (code c div 16), hex_lower (code c mod 16)]
      else [c])"

text \<open>The line and paragraph separators U+2028 and U+2029 are escaped as well.\<close>

function quote_body :: "string \<Rightarrow> string" where
  "quote_body [] = []"
| "quote_body (c # t) =
     (let n = utf8_len (c # t) in
      if n = 0 then char_of (92::nat) # ''ufffd'' @ quote_body t
      else if n = 1 then escape_byte c @ quote_body t
      else (let b = take n (c # t); r = quote_body (drop (n - 1) t) in
        if map code b = [226, 128, 168] then char_of (92::nat) # ''u2028'' @ r
        else if map code b = [226, 128, 169] then char_of (92::nat) # ''u2029'' @ r
        else b @ r))"
  by pat_completeness auto
termination
  by (relation "measure length") auto

definition json_quote :: "string \<Rightarrow> string" where
  "json_quote s = CHR 0x22 # quote_body s @ [CHR 0x22]"

fun commas :: "string list \<Rightarrow> string" where
  "commas [] = []"
| "commas [x] = x"
| "commas (x # y # ys) = x @ CHR '','' # commas (y # ys)"

fun json_encode :: "json \<Rightarrow> string" where
  "json_encode JNull = ''null''"
| "json_encode (JBool True) = ''true''"
| "json_encode (JBool False) = ''false''"
| "json_encode (JNum x) = x"
| "json_encode (JStr s) = json_quote s"
| "json_encode (JArr xs) = CHR ''['' # commas (map json_encode xs) @ '']''"
| "json_encode (JObj ms) = CHR ''{'' # commas (map (\<lambda>(k, j). json_quote k @ CHR '':'' # json_encode j) ms) @ ''}''"

section \<open>Decoding into a struct\<close>

text \<open>
  The key of a member is compared with the tag of a field byte for byte first, then without
  regard to case; the long s and the Kelvin sign fold to the letters s and k.
\<close>

fun fold_name :: "string \<Rightarrow> string" where
  "fold_name [] = []"
| "fold_name (a # s) =
     (if between 65 90 a then char_of (code a + 32) # fold_name s
      else (case s of
         [] \<Rightarrow> [a]
       | b # t \<Rightarrow>
           if code a = 197 \<and> code b = 191 then CHR ''s'' # fold_name t
           else (case t of
              c # u \<Rightarrow> if code a = 226 \<and> code b = 132 \<and> code c = 170 then CHR ''k'' # fold_name u else a # fold_name s
            | [] \<Rightarrow> a # fold_name s)))"

definition field_for :: "string list \<Rightarrow> string \<Rightarrow> string option" where
  "field_for tags k =
     (if k \<in> set tags then Some k else find (\<lambda>f. fold_name f = fold_name k) tags)"

type_synonym decoded = "string \<Rightarrow> string"

text \<open>
  \<open>DisallowUnknownFields\<close>: an unknown key and a value that is neither a string nor null are
  errors; the value of the last member for a field counts.
\<close>

fun decode_members :: "string list \<Rightarrow> (string \<times> json) list \<Rightarrow> decoded \<Rightarrow> decoded option" where
  "decode_members tags [] m = Some m"
| "decode_members tags ((k, j) # ms) m =
     (case field_for tags k of
        None \<Rightarrow> None
      | Some f \<Rightarrow>
          (case j of
             JStr s \<Rightarrow> decode_members tags ms (m(f := s))
           | JNull \<Rightarrow> decode_members tags ms m
           | _ \<Rightarrow> None))"

fun decode_struct :: "string list \<Rightarrow> json \<Rightarrow> decoded option" where
  "decode_struct tags (JObj ms) = decode_members tags ms (\<lambda>f. [])"
| "decode_struct tags JNull = Some (\<lambda>f. [])"
| "decode_struct tags j = None"

text \<open>A struct of one integer, other keys being ignored.\<close>

definition parse_int64 :: "string \<Rightarrow> int option" where
  "parse_int64 lit =
     (let neg = (lit \<noteq> [] \<and> code (hd lit) = 45); ds = (if neg then tl lit else lit);
          v = (if neg then - int (nat_of_digits ds) else int (nat_of_digits ds)) in
      if ds \<noteq> [] \<and> list_all is_digit ds \<and> - (2 ^ 63) \<le> v \<and> v < 2 ^ 63 then Some v else None)"

fun decode_int :: "string \<Rightarrow> (string \<times> json) list \<Rightarrow> int \<Rightarrow> int option" where
  "decode_int field [] v = Some v"
| "decode_int field ((k, j) # ms) v =
     (if field_for [field] k = None then decode_int field ms v
      else (case j of
         JNum lit \<Rightarrow> (case parse_int64 lit of None \<Rightarrow> None | Some i \<Rightarrow> decode_int field ms i)
       | JNull \<Rightarrow> decode_int field ms v
       | _ \<Rightarrow> None))"

section \<open>Reading back what the encoder writes\<close>

lemma char_of_code [simp]: "char_of (code c) = c"
  by (simp add: code_def)

lemma code_char_of [simp]: "n < 256 \<Longrightarrow> code (char_of n) = n"
  by (simp add: code_def)

lemma code_eq_iff: "code c = code d \<longleftrightarrow> c = d"
  by (metis char_of_code)

lemma code_char_of_literal: "code c = n \<Longrightarrow> c = char_of n"
  by auto

function utf8_ok :: "string \<Rightarrow> bool" where
  "utf8_ok s = (if s = [] then True else if utf8_len s = 0 then False else utf8_ok (drop (utf8_len s) s))"
  by pat_completeness auto
termination
  by (relation "measure length") auto

declare utf8_ok.simps [simp del]

lemma utf8_ok_Nil [simp]: "utf8_ok []"
  by (subst utf8_ok.simps) simp

lemma utf8_len_1: "utf8_len (c # t) = 1 \<longleftrightarrow> code c < 128"
  by (auto simp: utf8_class_def utf8_tail_def Let_def between_def)

lemma utf8_len_le: "utf8_len s \<le> length s"
  by (cases s) (auto simp: Let_def)

lemma utf8_len_take:
  assumes "utf8_len s \<noteq> 0"
  shows "utf8_len (take (utf8_len s) s @ r) = utf8_len s"
proof (cases s)
  case (Cons a t)
  define n where "n = utf8_class a"
  have n: "n - 1 \<le> length t" "utf8_tail a (take (n - 1) t)" "utf8_len s = n" "0 < n"
    using assms Cons by (auto simp: n_def Let_def split: if_splits)
  then obtain m where m: "n = Suc m" by (cases n) auto
  then show ?thesis using n Cons by (simp add: Let_def n_def [symmetric])
qed (use assms in simp)

lemma between_range: "between a b c \<longleftrightarrow> code c \<in> {a..b}"
  by (simp add: between_def)

lemma hex_digit_lower [simp]: "n < 16 \<Longrightarrow> hex_digit (hex_lower n) = Some n"
  by (auto simp: hex_digit_def hex_lower_def between_def)

lemma hex_digit_0 [simp]: "hex_digit (CHR ''0'') = Some 0"
  by (simp add: hex_digit_def between_def code_def)

lemma utf8_encode_ascii: "code c < 128 \<Longrightarrow> utf8_encode (code c) = [c]"
  by (simp add: utf8_encode_def)

lemma finish_u_small [simp]: "r < 55296 \<Longrightarrow> finish_u r s = (r, s)"
  by (simp add: finish_u_def)

lemma str_step_u:
  assumes "getu4 u = Some (r, v)" "r < 55296" "code b = 92" "code e = 117"
  shows "str_step (b # e # u) = StrBytes (utf8_encode r) v"
  using assms by (simp add: str_step_def str_escape_def)

lemma str_step_escape_byte:
  assumes c: "code c < 128"
  shows "str_step (escape_byte c @ r) = StrBytes [c] r"
proof -
  consider "code c \<in> {34, 92}" | "code c \<in> {8, 12, 10, 13, 9}" |
    "code c < 32 \<or> code c \<in> {60, 62, 38}" "code c \<notin> {8, 12, 10, 13, 9, 34, 92}" |
    "\<not> code c < 32" "code c \<notin> {34, 92, 60, 62, 38}" by auto
  then show ?thesis
  proof cases
    case 1
    then show ?thesis by (auto simp: escape_byte_def str_step_def str_escape_def escape_char_def)
  next
    case 2
    then have "c = char_of (8::nat) \<or> c = char_of (12::nat) \<or> c = char_of (10::nat) \<or> c = char_of (13::nat)
        \<or> c = char_of (9::nat)"
      by (auto dest!: code_char_of_literal simp del: char_of_code)
    then show ?thesis
      by (elim disjE) (simp_all add: escape_byte_def str_step_def str_escape_def escape_char_def code_def)
  next
    case 3
    have "getu4 (CHR ''0'' # CHR ''0'' # hex_lower (code c div 16) # hex_lower (code c mod 16) # r) = Some (code c, r)"
      using c by simp
    then have "str_step (char_of (92::nat) # CHR ''u'' # CHR ''0'' # CHR ''0'' # hex_lower (code c div 16) #
        hex_lower (code c mod 16) # r) = StrBytes (utf8_encode (code c)) r"
      by (rule str_step_u) (use c in \<open>simp_all add: code_def\<close>)
    then show ?thesis using 3 c by (simp add: escape_byte_def utf8_encode_ascii)
  next
    case 4
    moreover have "utf8_len (c # r) = 1" using c by (simp only: utf8_len_1)
    ultimately show ?thesis using c by (auto simp: escape_byte_def str_step_def simp del: utf8_len.simps)
  qed
qed

lemma lex_string_bytes: "str_step s = StrBytes b t \<Longrightarrow> lex_string s = map_option (\<lambda>(r, t'). (b @ r, t')) (lex_string t)"
  by (subst lex_string.simps) simp

lemma lex_string_quote [simp]: "lex_string (CHR 0x22 # r) = Some ([], r)"
  by (subst lex_string.simps) (simp add: str_step_def code_def)

lemma str_step_multi:
  assumes "1 < utf8_len s"
  shows "str_step (take (utf8_len s) s @ r) = StrBytes (take (utf8_len s) s) r"
proof -
  obtain c t where s: "s = c # t" using assms by (cases s) auto
  have "\<not> code c < 128" using assms utf8_len_1 [of c t] s by auto
  then have c: "code c \<noteq> 34" "code c \<noteq> 92" "\<not> code c < 32" by auto
  have l: "utf8_len (take (utf8_len s) s @ r) = utf8_len s" using assms by (intro utf8_len_take) simp
  obtain u where u: "take (utf8_len s) s @ r = c # u" using assms s by (cases "utf8_len s") auto
  have "length (take (utf8_len s) s) = utf8_len s" using utf8_len_le [of s] by simp
  then have "take (utf8_len s) (take (utf8_len s) s @ r) = take (utf8_len s) s"
    "drop (utf8_len s) (take (utf8_len s) s @ r) = r" by simp_all
  then show ?thesis
    using c l assms unfolding str_step_def u by (simp del: utf8_len.simps)
qed

lemma sep_step:
  "code b = 92 \<Longrightarrow> str_step (b # ''u2028'' @ r) = StrBytes (map char_of [226::nat, 128, 168]) r"
  "code b = 92 \<Longrightarrow> str_step (b # ''u2029'' @ r) = StrBytes (map char_of [226::nat, 128, 169]) r"
  by (simp_all add: str_step_def str_escape_def hex_digit_def between_def code_def utf8_encode_def)

lemma map_char_of_code: "map (char_of \<circ> code) s = s"
  by (induction s) simp_all

lemma lex_string_quote_body:
  "utf8_ok s \<Longrightarrow> lex_string (quote_body s @ CHR 0x22 # r) = Some (s, r)"
proof (induction s rule: quote_body.induct)
  case 1
  show ?case by simp
next
  case (2 c t)
  let ?s = "c # t" and ?n = "utf8_len (c # t)"
  have n: "?n \<noteq> 0" and ok: "utf8_ok (drop ?n ?s)"
    using 2(4) by (simp_all add: utf8_ok.simps [of "c # t"] del: utf8_len.simps split: if_splits)
  show ?case
  proof (cases "?n = 1")
    case True
    then have "code c < 128" by (simp only: utf8_len_1)
    moreover have "lex_string (quote_body t @ CHR 0x22 # r) = Some (t, r)"
      using 2(2) [OF refl n True] ok True by simp
    ultimately show ?thesis
      using True n by (simp add: lex_string_bytes [OF str_step_escape_byte] del: utf8_len.simps)
  next
    case False
    define u where "u = drop (?n - 1) t"
    have d: "drop ?n ?s = u" using n by (cases ?n) (simp_all add: u_def del: utf8_len.simps)
    have ih: "lex_string (quote_body u @ CHR 0x22 # r) = Some (u, r)"
      using 2(3) [OF refl n False refl] ok d u_def by simp
    have j: "take ?n ?s @ u = ?s" using d append_take_drop_id [of ?n ?s] by simp
    have sep: "take ?n ?s = map char_of [226::nat, 128, x]" if "map code (take ?n ?s) = [226, 128, x]" for x
      using arg_cong [OF that, of "map char_of"] by (simp add: map_char_of_code del: utf8_len.simps)
    consider (a) "map code (take ?n ?s) = [226, 128, 168]" | (b) "map code (take ?n ?s) = [226, 128, 169]"
      | (c) "map code (take ?n ?s) \<noteq> [226, 128, 168]" "map code (take ?n ?s) \<noteq> [226, 128, 169]" by blast
    then show ?thesis
    proof cases
      case a
      have q: "quote_body ?s = char_of (92::nat) # ''u2028'' @ quote_body u"
        using n False a by (simp add: Let_def u_def del: utf8_len.simps)
      have "lex_string (char_of (92::nat) # ''u2028'' @ (quote_body u @ CHR 0x22 # r)) =
          Some (take ?n ?s @ u, r)"
        by (subst lex_string_bytes [OF sep_step(1)]) (simp_all add: ih sep [OF a] del: utf8_len.simps)
      then show ?thesis unfolding q j by simp
    next
      case b
      have q: "quote_body ?s = char_of (92::nat) # ''u2029'' @ quote_body u"
        using n False b by (simp add: Let_def u_def del: utf8_len.simps)
      have "lex_string (char_of (92::nat) # ''u2029'' @ (quote_body u @ CHR 0x22 # r)) =
          Some (take ?n ?s @ u, r)"
        by (subst lex_string_bytes [OF sep_step(2)]) (simp_all add: ih sep [OF b] del: utf8_len.simps)
      then show ?thesis unfolding q j by simp
    next
      case c
      have q: "quote_body ?s = take ?n ?s @ quote_body u"
        using n False c by (simp add: Let_def u_def del: utf8_len.simps)
      have "lex_string (take ?n ?s @ (quote_body u @ CHR 0x22 # r)) =
          Some (take ?n ?s @ u, r)"
        using n False by (subst lex_string_bytes [OF str_step_multi]) (simp_all add: ih del: utf8_len.simps One_nat_def)
      then show ?thesis unfolding q j by simp
    qed
  qed
qed

text \<open>The values the server writes: no numbers, strings in UTF-8, at most so deep.\<close>

fun json_plain :: "nat \<Rightarrow> json \<Rightarrow> bool" where
  "json_plain d JNull = True"
| "json_plain d (JBool b) = True"
| "json_plain d (JNum x) = False"
| "json_plain d (JStr s) = utf8_ok s"
| "json_plain d (JArr xs) = (0 < d \<and> (\<forall>x \<in> set xs. json_plain (d - 1) x))"
| "json_plain d (JObj ms) = (0 < d \<and> (\<forall>m \<in> set ms. utf8_ok (fst m) \<and> json_plain (d - 1) (snd m)))"

lemma json_encode_first:
  assumes "json_plain d j"
  shows "\<exists>c t. json_encode j = c # t \<and> code c \<in> {110, 116, 102, 34, 91, 123}"
proof (cases j)
  case (JBool b)
  then show ?thesis by (cases b) (simp_all add: code_def)
qed (use assms in \<open>auto simp: json_quote_def code_def\<close>)

lemma skip_ws_Cons: "code c \<notin> {32, 9, 10, 13} \<Longrightarrow> skip_ws (c # t) = c # t"
  by (simp add: is_space_def)

lemma strip_append [simp]: "strip p (p @ r) = Some r"
  by (simp add: strip_def)

lemma commas_length:
  "(\<And>x. x \<in> set xs \<Longrightarrow> x \<noteq> []) \<Longrightarrow> length xs \<le> length (commas xs)"
proof (induction xs rule: commas.induct)
  case (2 x)
  then show ?case by (cases x) auto
next
  case (3 x y ys)
  then have "length (y # ys) \<le> length (commas (y # ys))" by auto
  then show ?case by simp
qed simp

lemma p_elems_commas:
  assumes "xs \<noteq> []" "length xs \<le> n" "\<And>x r. x \<in> set xs \<Longrightarrow> pv (enc x @ r) = Some (x, r)"
  shows "p_elems pv n (commas (map enc xs) @ CHR '']'' # r) = Some (xs, r)"
  using assms
proof (induction xs arbitrary: n)
  case (Cons x xs)
  from Cons.prems(2) obtain m where n: "n = Suc m" "length xs \<le> m" by (cases n) auto
  show ?case
  proof (cases xs)
    case Nil
    then show ?thesis using Cons.prems(3) by (simp add: n(1) skip_ws_Cons code_def del: skip_ws.simps)
  next
    case (Cons y ys)
    have "p_elems pv m (commas (map enc xs) @ CHR '']'' # r) = Some (xs, r)"
      using Cons n(2) Cons.prems(3) by (intro Cons.IH) auto
    then show ?thesis using Cons Cons.prems(3) by (simp add: n(1) skip_ws_Cons code_def del: skip_ws.simps)
  qed
qed simp

lemma p_key_quote:
  "utf8_ok k \<Longrightarrow> p_key (json_quote k @ CHR '':'' # r) = Some (k, r)"
  by (simp add: p_key_def json_quote_def skip_ws_Cons code_def lex_string_quote_body del: skip_ws.simps)

lemma p_members_commas:
  assumes "ms \<noteq> []" "length ms \<le> n" "\<And>m r. m \<in> set ms \<Longrightarrow> utf8_ok (fst m) \<and> pv (json_encode (snd m) @ r) = Some (snd m, r)"
  shows "p_members pv n (commas (map (\<lambda>(k, j). json_quote k @ CHR '':'' # json_encode j) ms) @ CHR ''}'' # r) = Some (ms, r)"
  using assms
proof (induction ms arbitrary: n)
  case (Cons m ms)
  obtain k j where m: "m = (k, j)" by (cases m)
  have k: "utf8_ok k" and j: "pv (json_encode j @ r) = Some (j, r)" for r using Cons.prems(3) [of m r] m by auto
  from Cons.prems(2) obtain n' where n: "n = Suc n'" "length ms \<le> n'" by (cases n) auto
  show ?case
  proof (cases ms)
    case Nil
    then show ?thesis using k j by (simp add: m n(1) p_key_quote skip_ws_Cons code_def del: skip_ws.simps)
  next
    case (Cons y ys)
    have "p_members pv n' (commas (map (\<lambda>(k, j). json_quote k @ CHR '':'' # json_encode j) ms) @ CHR ''}'' # r) = Some (ms, r)"
      using Cons n(2) Cons.prems(3) by (intro Cons.IH) auto
    then show ?thesis using Cons k j by (simp add: m n(1) p_key_quote skip_ws_Cons code_def del: skip_ws.simps)
  qed
qed simp

lemma p_value_open:
  "p_value (Suc d) (CHR ''['' # t) = p_array (p_value d) t" "p_value (Suc d) (CHR ''{'' # t) = p_object (p_value d) t"
  by (simp_all add: skip_ws_Cons code_def del: skip_ws.simps)

lemma p_value_scalar: "code c \<notin> {32, 9, 10, 13, 123, 91} \<Longrightarrow> p_value d (c # t) = p_scalar c t"
  by (cases d) (simp_all add: skip_ws_Cons del: skip_ws.simps)

lemma p_array_elems:
  "t = c # u \<Longrightarrow> code c \<notin> {32, 9, 10, 13, 93} \<Longrightarrow> p_elems pv (length t) t = Some (xs, r) \<Longrightarrow>
    p_array pv t = Some (JArr xs, r)"
  unfolding p_array_def by (simp add: skip_ws_Cons del: skip_ws.simps p_elems.simps)

lemma p_object_members:
  "t = c # u \<Longrightarrow> code c \<notin> {32, 9, 10, 13, 125} \<Longrightarrow> p_members pv (length t) t = Some (ms, r) \<Longrightarrow>
    p_object pv t = Some (JObj ms, r)"
  unfolding p_object_def by (simp add: skip_ws_Cons del: skip_ws.simps p_members.simps)

lemma p_value_encode:
  "json_plain d j \<Longrightarrow> p_value d (json_encode j @ r) = Some (j, r)"
proof (induction j arbitrary: d r)
  case JNull
  have "strip ''ull'' (''ull'' @ r) = Some r" by (rule strip_append)
  then show ?case by (simp add: p_value_scalar code_def p_scalar_def)
next
  case (JBool b)
  have "strip ''rue'' (''rue'' @ r) = Some r" "strip ''alse'' (''alse'' @ r) = Some r" by (rule strip_append)+
  then show ?case by (cases b) (simp_all add: p_value_scalar code_def p_scalar_def)
next
  case (JNum x)
  then show ?case by simp
next
  case (JStr s)
  then show ?case by (simp add: p_value_scalar code_def p_scalar_def json_quote_def lex_string_quote_body)
next
  case (JArr xs)
  then obtain d' where d: "d = Suc d'" and p: "\<forall>x \<in> set xs. json_plain d' x" by (cases d) auto
  show ?case
  proof (cases "xs = []")
    case True
    then show ?thesis by (simp add: d p_value_open p_array_def skip_ws_Cons code_def del: p_value.simps skip_ws.simps)
  next
    case False
    let ?t = "commas (map json_encode xs) @ CHR '']'' # r"
    obtain x ys where x: "xs = x # ys" using False by (cases xs) auto
    obtain c t where c: "json_encode x = c # t" "code c \<in> {110, 116, 102, 34, 91, 123}"
      using json_encode_first p x by fastforce
    obtain u where f: "?t = c # u" using c(1) by (cases ys) (auto simp: x)
    have "length xs \<le> length (commas (map json_encode xs))"
      using commas_length [of "map json_encode xs"] p json_encode_first by fastforce
    then have "p_elems (p_value d') (length ?t) ?t = Some (xs, r)"
      using JArr.IH p False by (intro p_elems_commas) auto
    then have "p_array (p_value d') ?t = Some (JArr xs, r)" by (rule p_array_elems [OF f, rotated]) (use c(2) in auto)
    then show ?thesis by (simp add: d p_value_open del: p_value.simps)
  qed
next
  case (JObj ms)
  then obtain d' where d: "d = Suc d'" and p: "\<forall>m \<in> set ms. utf8_ok (fst m) \<and> json_plain d' (snd m)" by (cases d) auto
  let ?enc = "\<lambda>(k, j). json_quote k @ CHR '':'' # json_encode j"
  show ?case
  proof (cases "ms = []")
    case True
    then show ?thesis by (simp add: d p_value_open p_object_def skip_ws_Cons code_def del: p_value.simps skip_ws.simps)
  next
    case False
    let ?t = "commas (map ?enc ms) @ CHR ''}'' # r"
    obtain m ys where m: "ms = m # ys" using False by (cases ms) auto
    obtain u where f: "?t = CHR 0x22 # u" by (cases ys; cases m) (auto simp: m json_quote_def)
    have "x \<noteq> []" if "x \<in> set (map ?enc ms)" for x using that by (auto simp: json_quote_def)
    then have "length ms \<le> length (commas (map ?enc ms))"
      using commas_length [of "map ?enc ms"] by fastforce
    then have "p_members (p_value d') (length ?t) ?t = Some (ms, r)"
      using JObj.IH p False by (intro p_members_commas) (auto simp: snds.simps)
    then have "p_object (p_value d') ?t = Some (JObj ms, r)" by (rule p_object_members [OF f, rotated]) (simp_all add: code_def)
    then show ?thesis by (simp add: d p_value_open del: p_value.simps)
  qed
qed

lemma ascii_utf8_ok: "list_all (\<lambda>c. code c < 128) s \<Longrightarrow> utf8_ok s"
proof (induction s)
  case (Cons c t)
  then have "utf8_len (c # t) = 1" by (simp only: utf8_len_1 list.pred_inject)
  with Cons show ?case by (subst utf8_ok.simps) (simp del: utf8_len.simps)
qed simp

section \<open>Properties\<close>

lemma encoded_decodes:
  assumes "json_plain maxNestingDepth j"
  shows "Decode_value (json_encode j @ r) = Some j" "Unmarshal_value (json_encode j @ [CHR 0x0A]) = Some j"
  using p_value_encode [OF assms, of r] p_value_encode [OF assms, of "[CHR 0x0A]"]
  by (simp_all add: Decode_value_def Unmarshal_value_def is_space_def code_def)

lemma unknown_member: "(k, v) \<in> set ms \<Longrightarrow> field_for tags k = None \<Longrightarrow> decode_members tags ms m = None"
  by (induction ms arbitrary: m) (auto split: option.splits json.splits)

end
