(* ===== verification/Api_Types.thy ===== *)
theory Api_Types
  imports Go_Json
begin

text \<open>
  The vocabulary of the HTTP API (\<open>internal/api\<close>): requests and responses, the request and
  response bodies of \<open>models.go\<close> with their JSON shapes, \<open>json.go\<close>, the push events of
  \<open>events.go\<close> and the hub of \<open>ws.go\<close> that fans them out to the connected clients.
\<close>

section \<open>Requests and responses\<close>

text \<open>
  \<open>rq_clock i\<close> is the \<open>i\<close>-th reading of the clock while the request is served;
  \<open>rq_Authorization\<close> is the header of that name, empty when absent; \<open>rq_conn\<close> is the
  connection it came on.
\<close>

record Request =
  rq_method :: string
  rq_path :: string
  rq_Authorization :: string
  rq_body :: string
  rq_clock :: "nat \<Rightarrow> time"
  rq_conn :: nat

datatype Body = NoBody | JsonBody json | TextBody string

record Response =
  rs_status :: nat
  rs_body :: Body

definition writeHeader :: "nat \<Rightarrow> Response" where
  "writeHeader status = \<lparr>rs_status = status, rs_body = NoBody\<rparr>"

definition writeJSON :: "nat \<Rightarrow> json \<Rightarrow> Response" where
  "writeJSON status v = \<lparr>rs_status = status, rs_body = JsonBody v\<rparr>"

text \<open>The bytes of a body; the encoder ends its output with a line feed.\<close>

fun body_text :: "Body \<Rightarrow> string" where
  "body_text NoBody = []"
| "body_text (JsonBody j) = json_encode j @ [CHR 0x0A]"
| "body_text (TextBody s) = s @ [CHR 0x0A]"

section \<open>Bodies\<close>

definition ErrorResponse :: "string \<Rightarrow> json" where
  "ErrorResponse msg = JObj [(''error'', JStr msg)]"

definition writeError :: "nat \<Rightarrow> string \<Rightarrow> Response" where
  "writeError status msg = writeJSON status (ErrorResponse msg)"

text \<open>The chi recovery middleware answers a panic with an empty 500.\<close>

definition recovered :: Response where
  "recovered = writeHeader 500"

definition decodeJSON :: "string list \<Rightarrow> Request \<Rightarrow> decoded option" where
  "decodeJSON tags r = (case Decode_value (rq_body r) of None \<Rightarrow> None | Some j \<Rightarrow> decode_struct tags j)"

definition RegisterRequest :: "string list" where
  "RegisterRequest = [''username'', ''password'']"

definition LoginRequest :: "string list" where
  "LoginRequest = [''username'', ''password'']"

definition SteamAccountRequest :: "string list" where
  "SteamAccountRequest = [''steam_username'', ''steam_password'']"

definition SteamGuardRequest :: "string list" where
  "SteamGuardRequest = [''code'']"

definition LoginResponse :: "string \<Rightarrow> json" where
  "LoginResponse token = JObj [(''token'', JStr token)]"

record SteamAccountDTO =
  dto_ID :: string
  dto_SteamID :: string
  dto_SteamUsername :: string
  dto_CreatedAt :: string

definition SteamAccountDTO_json :: "SteamAccountDTO \<Rightarrow> json" where
  "SteamAccountDTO_json a = JObj [(''id'', JStr (dto_ID a)), (''steam_id'', JStr (dto_SteamID a)),
     (''steam_username'', JStr (dto_SteamUsername a)), (''created_at'', JStr (dto_CreatedAt a))]"

record FriendDTO =
  f_SteamID :: string
  f_PersonaName :: string
  f_Online :: bool
  f_InMatch :: bool

definition FriendDTO_json :: "FriendDTO \<Rightarrow> json" where
  "FriendDTO_json f = JObj [(''steam_id'', JStr (f_SteamID f)), (''persona_name'', JStr (f_PersonaName f)),
     (''online'', JBool (f_Online f)), (''in_match'', JBool (f_InMatch f))]"

text \<open>The session types, which only the document uses so far.\<close>

definition SessionRequest :: "string list" where
  "SessionRequest = [''target_steam_id'']"

record SessionDTO =
  se_ID :: string
  se_State :: string
  se_TargetSteamID :: string
  se_MatchID :: "64 word"
  se_WebRTCURL :: string

definition SessionDTO_json :: "SessionDTO \<Rightarrow> json" where
  "SessionDTO_json d = JObj ([(''id'', JStr (se_ID d)), (''state'', JStr (se_State d)),
     (''target_steam_id'', JStr (se_TargetSteamID d))]
     @ (if se_MatchID d = 0 then [] else [(''match_id'', JNum (show_nat (unat (se_MatchID d))))])
     @ (if se_WebRTCURL d = '''' then [] else [(''webrtc_url'', JStr (se_WebRTCURL d))]))"

section \<open>Push events\<close>

record PushEvent =
  pe_Type :: string
  pe_SessionID :: string
  pe_AccountID :: string
  pe_State :: string
  pe_GuardType :: string
  pe_SteamID :: string
  pe_WebRTCURL :: string
  pe_ChallengeURL :: string
  pe_Code :: string
  pe_Message :: string

definition blank_event :: PushEvent where
  "blank_event = \<lparr>pe_Type = '''', pe_SessionID = '''', pe_AccountID = '''', pe_State = '''', pe_GuardType = '''',
     pe_SteamID = '''', pe_WebRTCURL = '''', pe_ChallengeURL = '''', pe_Code = '''', pe_Message = ''''\<rparr>"

definition SessionStateEvent :: "string \<Rightarrow> string \<Rightarrow> PushEvent" where
  "SessionStateEvent sessionID state =
     blank_event\<lparr>pe_Type := ''session_state'', pe_SessionID := sessionID, pe_State := state\<rparr>"

definition SteamGuardEvent :: "string \<Rightarrow> string \<Rightarrow> PushEvent" where
  "SteamGuardEvent sessionID guardType =
     blank_event\<lparr>pe_Type := ''steam_guard'', pe_SessionID := sessionID, pe_GuardType := guardType\<rparr>"

definition StreamReadyEvent :: "string \<Rightarrow> string \<Rightarrow> PushEvent" where
  "StreamReadyEvent sessionID webrtcURL =
     blank_event\<lparr>pe_Type := ''stream_ready'', pe_SessionID := sessionID, pe_WebRTCURL := webrtcURL\<rparr>"

definition SessionErrorEvent :: "string \<Rightarrow> string \<Rightarrow> string \<Rightarrow> PushEvent" where
  "SessionErrorEvent sessionID ecode message =
     blank_event\<lparr>pe_Type := ''error'', pe_SessionID := sessionID, pe_Code := ecode, pe_Message := message\<rparr>"

definition AccountGuardEvent :: "string \<Rightarrow> string \<Rightarrow> PushEvent" where
  "AccountGuardEvent accountID guardType =
     blank_event\<lparr>pe_Type := ''steam_guard'', pe_AccountID := accountID, pe_GuardType := guardType\<rparr>"

definition AccountQrEvent :: "string \<Rightarrow> string \<Rightarrow> PushEvent" where
  "AccountQrEvent accountID challengeURL =
     blank_event\<lparr>pe_Type := ''steam_qr'', pe_AccountID := accountID, pe_ChallengeURL := challengeURL\<rparr>"

definition AccountLinkedEvent :: "string \<Rightarrow> string \<Rightarrow> PushEvent" where
  "AccountLinkedEvent accountID steamID =
     blank_event\<lparr>pe_Type := ''account_linked'', pe_AccountID := accountID, pe_SteamID := steamID\<rparr>"

definition AccountErrorEvent :: "string \<Rightarrow> string \<Rightarrow> string \<Rightarrow> PushEvent" where
  "AccountErrorEvent accountID ecode message =
     blank_event\<lparr>pe_Type := ''error'', pe_AccountID := accountID, pe_Code := ecode, pe_Message := message\<rparr>"

text \<open>The JSON of an event: every field but the type is left out when empty.\<close>

definition omitempty :: "string \<Rightarrow> string \<Rightarrow> (string \<times> json) list" where
  "omitempty tag v = (if v = '''' then [] else [(tag, JStr v)])"

definition event_json :: "PushEvent \<Rightarrow> json" where
  "event_json e = JObj ((''type'', JStr (pe_Type e)) # omitempty ''session_id'' (pe_SessionID e) @
     omitempty ''account_id'' (pe_AccountID e) @ omitempty ''state'' (pe_State e) @
     omitempty ''guard_type'' (pe_GuardType e) @ omitempty ''steam_id'' (pe_SteamID e) @
     omitempty ''webrtc_url'' (pe_WebRTCURL e) @ omitempty ''challenge_url'' (pe_ChallengeURL e) @
     omitempty ''code'' (pe_Code e) @ omitempty ''message'' (pe_Message e))"

section \<open>The hub\<close>

type_synonym client = nat

text \<open>The connected clients, and every write on a connection, oldest first.\<close>

record Hub =
  clients :: "client list"
  written :: "(client \<times> string) list"

definition NewHub :: Hub where
  "NewHub = \<lparr>clients = [], written = []\<rparr>"

definition hub_add :: "client \<Rightarrow> Hub \<Rightarrow> Hub" where
  "hub_add c h = h\<lparr>clients := List.insert c (clients h)\<rparr>"

definition hub_remove :: "client \<Rightarrow> Hub \<Rightarrow> Hub" where
  "hub_remove c h = h\<lparr>clients := removeAll c (clients h)\<rparr>"

definition Broadcast :: "PushEvent \<Rightarrow> Hub \<Rightarrow> Hub" where
  "Broadcast ev h = h\<lparr>written := written h @ map (\<lambda>c. (c, json_encode (event_json ev))) (clients h)\<rparr>"

text \<open>The messages written to a client.\<close>

definition inbox :: "client \<Rightarrow> Hub \<Rightarrow> string list" where
  "inbox c h = map snd (filter (\<lambda>w. fst w = c) (written h))"

datatype hub_call = Connects client | Disconnects client | Pushes PushEvent

fun hub_run :: "hub_call list \<Rightarrow> Hub \<Rightarrow> Hub" where
  "hub_run [] h = h"
| "hub_run (Connects c # cs) h = hub_run cs (hub_add c h)"
| "hub_run (Disconnects c # cs) h = hub_run cs (hub_remove c h)"
| "hub_run (Pushes ev # cs) h = hub_run cs (Broadcast ev h)"

text \<open>The specification: the events pushed while the client is connected.\<close>

fun seen_by :: "client \<Rightarrow> bool \<Rightarrow> hub_call list \<Rightarrow> PushEvent list" where
  "seen_by c online [] = []"
| "seen_by c online (Connects d # cs) = seen_by c (online \<or> d = c) cs"
| "seen_by c online (Disconnects d # cs) = seen_by c (online \<and> d \<noteq> c) cs"
| "seen_by c online (Pushes ev # cs) = (if online then [ev] else []) @ seen_by c online cs"

lemma inbox_add [simp]: "inbox c (hub_add d h) = inbox c h"
  by (simp add: inbox_def hub_add_def)

lemma inbox_remove [simp]: "inbox c (hub_remove d h) = inbox c h"
  by (simp add: inbox_def hub_remove_def)

lemma filter_clients: "distinct cs \<Longrightarrow> filter (\<lambda>d. d = c) cs = (if c \<in> set cs then [c] else [])"
  by (induction cs) auto

lemma inbox_Broadcast:
  assumes "distinct (clients h)"
  shows "inbox c (Broadcast ev h) = inbox c h @ (if c \<in> set (clients h) then [json_encode (event_json ev)] else [])"
  using filter_clients [OF assms, of c]
  by (simp add: inbox_def Broadcast_def filter_map o_def)

lemma inbox_run:
  "distinct (clients h) \<Longrightarrow>
    inbox c (hub_run cs h) = inbox c h @ map (json_encode \<circ> event_json) (seen_by c (c \<in> set (clients h)) cs)"
proof (induction cs h rule: hub_run.induct)
  case (2 d cs h)
  have "(c \<in> set (clients h) \<or> d = c) = (c = d \<or> c \<in> set (clients h))" by blast
  with 2 show ?case by (simp add: hub_add_def inbox_def)
next
  case (3 d cs h)
  have "(c \<in> set (clients h) \<and> d \<noteq> c) = (c \<in> set (clients h) \<and> c \<noteq> d)" by blast
  with 3 show ?case by (simp add: hub_remove_def inbox_def distinct_removeAll)
next
  case (4 ev cs h)
  have "clients (Broadcast ev h) = clients h" by (simp add: Broadcast_def)
  with 4 inbox_Broadcast [OF 4(2)] show ?case by simp
qed simp

section \<open>Properties\<close>


text \<open>
  The bodies: what \<open>writeJSON\<close> sends, \<open>decodeJSON\<close> reads back as the same value, whatever
  its strings hold (any UTF-8, HTML characters and line separators, which the encoder
  escapes); text that follows the value in a request is not looked at; and an object with a
  member that is no field of the request is refused.
\<close>

theorem decodeJSON_reads_written:
  assumes "json_plain maxNestingDepth j" "rq_body r = body_text (rs_body (writeJSON st j)) @ extra"
  shows "decodeJSON tags r = decode_struct tags j
    \<and> (\<forall>ms k v. j = JObj ms \<and> (k, v) \<in> set ms \<and> field_for tags k = None \<longrightarrow> decodeJSON tags r = None)"
proof -
  have "decodeJSON tags r = decode_struct tags j"
    using encoded_decodes(1) [OF assms(1), of "CHR 0x0A # extra"] assms(2) by (simp add: decodeJSON_def writeJSON_def)
  then show ?thesis using unknown_member by auto
qed

definition code_request :: Request where
  "code_request = \<lparr>rq_method = [], rq_path = [], rq_Authorization = [],
     rq_body = body_text (rs_body (writeJSON 200 (JObj [(''code'', JStr ''<b>'')]))) @ ''garbage'', rq_clock = (\<lambda>i. 0), rq_conn = 0\<rparr>"

theorem decodeJSON_reads_written_witness:
  "decodeJSON SteamGuardRequest code_request = Some ((\<lambda>f. [])(''code'' := ''<b>'')) \<and> decodeJSON LoginRequest code_request = None"
proof -
  let ?j = "JObj [(''code'', JStr ''<b>'')]"
  have "utf8_ok ''code''" "utf8_ok ''<b>''" by (rule ascii_utf8_ok, simp add: code_def)+
  then have plain: "json_plain maxNestingDepth ?j" by (simp add: maxNestingDepth_def)
  have "rq_body code_request = body_text (rs_body (writeJSON 200 ?j)) @ ''garbage''" by (simp add: code_request_def)
  from decodeJSON_reads_written [OF plain this] show ?thesis
    by (simp add: SteamGuardRequest_def LoginRequest_def field_for_def between_def code_def)
qed

end
