(* ===== verification/Key_Cache.thy ===== *)
theory Key_Cache
  imports Control_Prelude
begin

text \<open>
  The in-memory cache of credential keys (\<open>internal/auth/keycache.go\<close>). An operation runs
  under the cache's mutex, so it is one step; the clock it reads is an argument. The
  contract \<open>credential_cache\<close> says what a client may rely on; from it the meaning of a
  whole history of calls is derived once and for all, and \<open>KeyCache\<close> is shown to keep it.
\<close>

section \<open>The cache\<close>

record cacheEntry =
  entry_key :: bytes
  entry_expires :: time

record KeyCache =
  ttl :: duration
  entries :: "string \<rightharpoonup> cacheEntry"

definition NewKeyCache :: "duration \<Rightarrow> KeyCache" where
  "NewKeyCache d = \<lparr>ttl = d, entries = Map.empty\<rparr>"

definition Put :: "time \<Rightarrow> string \<Rightarrow> bytes \<Rightarrow> KeyCache \<Rightarrow> KeyCache" where
  "Put now uid key c =
     c\<lparr>entries := (entries c)(uid \<mapsto> \<lparr>entry_key = key, entry_expires = now + ttl c\<rparr>)\<rparr>"

definition Get :: "time \<Rightarrow> string \<Rightarrow> KeyCache \<Rightarrow> bytes option \<times> KeyCache" where
  "Get now uid c =
     (case entries c uid of
        None \<Rightarrow> (None, c)
      | Some e \<Rightarrow>
          if \<not> now < entry_expires e then (None, c\<lparr>entries := (entries c)(uid := None)\<rparr>)
          else (Some (entry_key e), c))"

definition Delete :: "string \<Rightarrow> KeyCache \<Rightarrow> KeyCache" where
  "Delete uid c = c\<lparr>entries := (entries c)(uid := None)\<rparr>"

text \<open>What a reader would be given at a time, without the eviction.\<close>

definition live_key :: "KeyCache \<Rightarrow> time \<Rightarrow> string \<Rightarrow> bytes option" where
  "live_key c now uid =
     (case entries c uid of
        None \<Rightarrow> None
      | Some e \<Rightarrow> if now < entry_expires e then Some (entry_key e) else None)"

lemma ttl_frame [frame_simps, simp]:
  "ttl (Put now uid key c) = ttl c" "ttl (snd (Get now uid c)) = ttl c" "ttl (Delete uid c) = ttl c"
  by (auto simp: Put_def Get_def Delete_def split: option.splits)

lemma ttl_New [simp]: "ttl (NewKeyCache d) = d"
  by (simp add: NewKeyCache_def)

lemma live_key_New [simp]: "live_key (NewKeyCache d) now uid = None"
  by (simp add: live_key_def NewKeyCache_def)

lemma live_key_Put: "live_key (Put t u k c) now v =
    (if v = u then (if now < t + ttl c then Some k else None) else live_key c now v)"
  by (simp add: live_key_def Put_def)

lemma live_key_Delete: "live_key (Delete u c) now v = (if v = u then None else live_key c now v)"
  by (simp add: live_key_def Delete_def)

lemma fst_Get [simp]: "fst (Get now u c) = live_key c now u"
  by (simp add: live_key_def Get_def split: option.splits)

lemma live_key_Get: "t \<le> now \<Longrightarrow> live_key (snd (Get t u c)) now v = live_key c now v"
  by (auto simp: live_key_def Get_def split: option.splits)

lemma live_key_Get_same [simp]: "live_key (snd (Get t u c)) t v = live_key c t v"
  by (rule live_key_Get) simp

section \<open>The contract of a credential cache\<close>

text \<open>
  A call of the cache as its clients make it, with the time the cache reads; a history is
  a list of calls, the newest first. \<open>last_key\<close> is the specification: the key of the
  latest \<open>Put\<close> of the user that no \<open>Delete\<close> follows, while it is younger than the
  lifetime.
\<close>

datatype cache_call =
    CallPut time string bytes
  | CallGet time string
  | CallDelete time string

fun call_time :: "cache_call \<Rightarrow> time" where
  "call_time (CallPut t u k) = t"
| "call_time (CallGet t u) = t"
| "call_time (CallDelete t u) = t"

fun last_key :: "duration \<Rightarrow> cache_call list \<Rightarrow> time \<Rightarrow> string \<Rightarrow> bytes option" where
  "last_key d [] now u = None"
| "last_key d (CallPut t v k # h) now u =
     (if v = u then (if now < t + d then Some k else None) else last_key d h now u)"
| "last_key d (CallGet t v # h) now u = last_key d h now u"
| "last_key d (CallDelete t v # h) now u = (if v = u then None else last_key d h now u)"

fun perform :: "(time \<Rightarrow> string \<Rightarrow> bytes \<Rightarrow> 'c \<Rightarrow> 'c) \<Rightarrow> (time \<Rightarrow> string \<Rightarrow> 'c \<Rightarrow> bytes option \<times> 'c)
    \<Rightarrow> (string \<Rightarrow> 'c \<Rightarrow> 'c) \<Rightarrow> 'c \<Rightarrow> cache_call list \<Rightarrow> 'c" where
  "perform put get del c [] = c"
| "perform put get del c (CallPut t u k # h) = put t u k (perform put get del c h)"
| "perform put get del c (CallGet t u # h) = snd (get t u (perform put get del c h))"
| "perform put get del c (CallDelete t u # h) = del u (perform put get del c h)"

locale credential_cache =
  fixes put :: "time \<Rightarrow> string \<Rightarrow> bytes \<Rightarrow> 'c \<Rightarrow> 'c"
    and get :: "time \<Rightarrow> string \<Rightarrow> 'c \<Rightarrow> bytes option \<times> 'c"
    and del :: "string \<Rightarrow> 'c \<Rightarrow> 'c"
    and new :: "duration \<Rightarrow> 'c"
    and lifetime :: "'c \<Rightarrow> duration"
    and view :: "'c \<Rightarrow> time \<Rightarrow> string \<Rightarrow> bytes option"
  assumes view_new: "view (new d) now u = None"
    and view_put: "view (put t u k c) now v =
      (if v = u then (if now < t + lifetime c then Some k else None) else view c now v)"
    and view_del: "view (del u c) now v = (if v = u then None else view c now v)"
    and get_view: "fst (get now u c) = view c now u"
    and view_get: "t \<le> now \<Longrightarrow> view (snd (get t u c)) now v = view c now v"
    and lifetime_new: "lifetime (new d) = d"
    and lifetime_put: "lifetime (put t u k c) = lifetime c"
    and lifetime_get: "lifetime (snd (get t u c)) = lifetime c"
    and lifetime_del: "lifetime (del u c) = lifetime c"
begin

lemma lifetime_perform: "lifetime (perform put get del (new d) h) = d"
proof (induction h)
  case Nil
  show ?case by (simp add: lifetime_new)
next
  case (Cons c h)
  then show ?case by (cases c) (simp_all add: lifetime_put lifetime_get lifetime_del)
qed

lemma view_perform:
  "\<forall>c \<in> set h. call_time c \<le> now \<Longrightarrow> view (perform put get del (new d) h) now u = last_key d h now u"
  by (induction d h now u rule: last_key.induct)
    (simp_all add: view_new view_put view_del view_get lifetime_perform)

lemma get_perform:
  "\<forall>c \<in> set h. call_time c \<le> now \<Longrightarrow>
    fst (get now u (perform put get del (new d) h)) = last_key d h now u"
  by (simp add: get_view view_perform)

lemma get_after_put:
  "t \<le> now \<Longrightarrow> now < t + lifetime c \<Longrightarrow> fst (get now u (put t u k c)) = Some k"
  by (simp add: get_view view_put)

lemma get_after_del: "fst (get now u (del u c)) = None"
  by (simp add: get_view view_del)

end

interpretation kc: credential_cache Put Get Delete NewKeyCache ttl live_key
  by unfold_locales (simp_all add: live_key_Put live_key_Delete live_key_Get ttl_New)

section \<open>Properties\<close>

text \<open>
  C30: whatever calls were made on a fresh cache up to now, \<open>Get\<close> returns exactly the key of
  the user's latest \<open>Put\<close> that no \<open>Delete\<close> followed, and only while less than the lifetime
  has passed since that \<open>Put\<close>. In particular eviction on read never changes an answer.
\<close>

theorem Get_returns_last_put:
  assumes "\<forall>c \<in> set h. call_time c \<le> now"
  shows "fst (Get now u (perform Put Get Delete (NewKeyCache d) h)) = last_key d h now u"
  using assms by (rule kc.get_perform)

theorem Get_returns_last_put_witness:
  "fst (Get 90 ''u'' (perform Put Get Delete (NewKeyCache 60)
      [CallDelete 85 ''v'', CallPut 40 ''u'' [7], CallGet 35 ''u'', CallPut 10 ''u'' [9]]))
    = Some [7]"
  by (subst Get_returns_last_put) simp_all

text \<open>
  The boundary of the lifetime. A key put at time \<open>t\<close> is returned at every later
  instant before \<open>t + ttl\<close> and is gone from that instant on; the read that finds it
  expired also removes the entry, and touches no other user's entry.
\<close>

theorem key_lives_exactly_ttl:
  assumes "t \<le> now"
  shows "(fst (Get now u (Put t u k c)) = Some k \<longleftrightarrow> now < t + ttl c)
    \<and> (\<not> now < t + ttl c \<longleftrightarrow> entries (snd (Get now u (Put t u k c))) u = None)
    \<and> (\<forall>v. v \<noteq> u \<longrightarrow> entries (snd (Get now u (Put t u k c))) v = entries c v)"
  using assms by (auto simp: Get_def Put_def live_key_def)

theorem key_lives_exactly_ttl_witness:
  "(fst (Get 69 ''u'' (Put 10 ''u'' [1] (NewKeyCache 60))) = Some [1] \<longleftrightarrow> (69::int) < 10 + 60)
    \<and> fst (Get 70 ''u'' (Put 10 ''u'' [1] (NewKeyCache 60))) = None"
  using key_lives_exactly_ttl [of 10 69 "''u''" "[1]" "NewKeyCache 60"]
    key_lives_exactly_ttl [of 10 70 "''u''" "[1]" "NewKeyCache 60"]
  by (simp add: NewKeyCache_def Get_def Put_def)

end
