(* ===== verification/Go_Base64.thy ===== *)
theory Go_Base64
  imports Go_Text
begin

text \<open>
  \<open>encoding/base64\<close> without padding: \<open>RawStdEncoding\<close> (the salt and hash segments of a
  stored password) and \<open>RawURLEncoding\<close> (the payload of a JWT). The decoder is the
  library's non-strict one: it drops line breaks wherever they stand and ignores the
  unused low bits of a final partial quantum.
\<close>

definition StdAlphabet :: string where
  "StdAlphabet = ''ABCDEFGHIJKLMNOPQRSTUVWXYZabcdefghijklmnopqrstuvwxyz0123456789+/''"

definition URLAlphabet :: string where
  "URLAlphabet = ''ABCDEFGHIJKLMNOPQRSTUVWXYZabcdefghijklmnopqrstuvwxyz0123456789-_''"

fun index_of :: "char \<Rightarrow> string \<Rightarrow> nat option" where
  "index_of c [] = None"
| "index_of c (d # ds) = (if c = d then Some 0 else map_option Suc (index_of c ds))"

fun encode_quanta :: "string \<Rightarrow> nat list \<Rightarrow> string" where
  "encode_quanta al [] = []"
| "encode_quanta al [a] = (let v = a * 65536 in [al ! (v div 262144), al ! (v div 4096 mod 64)])"
| "encode_quanta al [a, b] = (let v = a * 65536 + b * 256 in
     [al ! (v div 262144), al ! (v div 4096 mod 64), al ! (v div 64 mod 64)])"
| "encode_quanta al (a # b # c # r) = (let v = a * 65536 + b * 256 + c in
     al ! (v div 262144) # al ! (v div 4096 mod 64) # al ! (v div 64 mod 64) # al ! (v mod 64)
     # encode_quanta al r)"

fun decode_quanta :: "string \<Rightarrow> string \<Rightarrow> nat list option" where
  "decode_quanta al [] = Some []"
| "decode_quanta al [p] = None"
| "decode_quanta al [p, q] = (case (index_of p al, index_of q al) of
     (Some x, Some y) \<Rightarrow> (let v = x * 262144 + y * 4096 in Some [v div 65536])
   | _ \<Rightarrow> None)"
| "decode_quanta al [p, q, r] = (case (index_of p al, index_of q al, index_of r al) of
     (Some x, Some y, Some z) \<Rightarrow> (let v = x * 262144 + y * 4096 + z * 64 in
        Some [v div 65536, v div 256 mod 256])
   | _ \<Rightarrow> None)"
| "decode_quanta al (p # q # r # s # t) =
     (case (index_of p al, index_of q al, index_of r al, index_of s al) of
        (Some x, Some y, Some z, Some u) \<Rightarrow> (let v = x * 262144 + y * 4096 + z * 64 + u in
          map_option (\<lambda>bs. [v div 65536, v div 256 mod 256, v mod 256] @ bs) (decode_quanta al t))
      | _ \<Rightarrow> None)"

definition b64_encode :: "string \<Rightarrow> bytes \<Rightarrow> string" where
  "b64_encode al b = encode_quanta al (map unat b)"

definition b64_decode :: "string \<Rightarrow> string \<Rightarrow> bytes option" where
  "b64_decode al s = map_option (map word_of_nat)
     (decode_quanta al (filter (\<lambda>c. c \<noteq> CHR 0x0A \<and> c \<noteq> CHR 0x0D) s))"

text \<open>An alphabet is usable when its 64 characters differ and none is a line break.\<close>

definition alphabet_ok :: "string \<Rightarrow> bool" where
  "alphabet_ok al \<longleftrightarrow> length al = 64 \<and> distinct al \<and> CHR 0x0A \<notin> set al \<and> CHR 0x0D \<notin> set al"

lemma StdAlphabet_ok [simp]: "alphabet_ok StdAlphabet"
  unfolding alphabet_ok_def StdAlphabet_def by (simp add: distinct_length_2_or_more)

lemma URLAlphabet_ok [simp]: "alphabet_ok URLAlphabet"
  unfolding alphabet_ok_def URLAlphabet_def by (simp add: distinct_length_2_or_more)

lemma index_of_nth: "distinct al \<Longrightarrow> i < length al \<Longrightarrow> index_of (al ! i) al = Some i"
proof (induction al arbitrary: i)
  case Nil
  then show ?case by simp
next
  case (Cons d ds)
  then show ?case by (cases i) auto
qed

lemma index_of_alphabet [simp]: "alphabet_ok al \<Longrightarrow> i < 64 \<Longrightarrow> index_of (al ! i) al = Some i"
  by (simp add: alphabet_ok_def index_of_nth)

lemma sextet_bound: "v < 16777216 \<Longrightarrow> v div 262144 < (64::nat)"
  by (simp add: div_less_iff_less_mult)

lemma triple_bound: "a < 256 \<Longrightarrow> b < 256 \<Longrightarrow> c < 256 \<Longrightarrow> a * 65536 + b * 256 + c < (16777216::nat)"
  by simp

lemma encode_quanta_chars:
  "alphabet_ok al \<Longrightarrow> \<forall>x \<in> set ns. x < 256 \<Longrightarrow> c \<in> set (encode_quanta al ns) \<Longrightarrow> c \<in> set al"
proof (induction al ns rule: encode_quanta.induct)
  case (1 al)
  then show ?case by simp
next
  case (2 al a)
  have "(a * 65536 + 0 * 256 + 0) div 262144 < 64" using 2 by (intro sextet_bound triple_bound) auto
  with 2 show ?case by (auto simp: Let_def alphabet_ok_def)
next
  case (3 al a b)
  have "(a * 65536 + b * 256 + 0) div 262144 < 64" using 3 by (intro sextet_bound triple_bound) auto
  with 3 show ?case by (auto simp: Let_def alphabet_ok_def)
next
  case (4 al a b c' r)
  have "(a * 65536 + b * 256 + c') div 262144 < 64" using 4 by (intro sextet_bound triple_bound) auto
  with 4 show ?case by (auto simp: Let_def alphabet_ok_def)
qed

lemma sextets3:
  "v div 262144 * 262144 + v div 4096 mod 64 * 4096 + v div 64 mod 64 * 64 + v mod 64 = (v::nat)"
proof -
  have d: "v div 4096 = v div 64 div 64" "v div 262144 = v div 64 div 64 div 64"
    by (simp_all add: div_mult2_eq [symmetric])
  have "v = v div 64 * 64 + v mod 64" by simp
  moreover have "v div 64 = v div 64 div 64 * 64 + v div 64 mod 64" by simp
  moreover have "v div 64 div 64 = v div 64 div 64 div 64 * 64 + v div 64 div 64 mod 64" by simp
  ultimately show ?thesis unfolding d by linarith
qed

lemma octets3:
  assumes "b < 256" "c < (256::nat)"
  shows "(a * 65536 + b * 256 + c) div 65536 = a"
    and "(a * 65536 + b * 256 + c) div 256 mod 256 = b"
    and "(a * 65536 + b * 256 + c) mod 256 = c"
proof -
  have v: "a * 65536 + b * 256 + c = c + 256 * (b + 256 * a)" by simp
  have q: "(c + 256 * (b + 256 * a)) div 256 = b + 256 * a" using assms by simp
  have "(c + 256 * (b + 256 * a)) div 65536 = (c + 256 * (b + 256 * a)) div 256 div 256"
    by (simp add: div_mult2_eq [symmetric])
  then show "(a * 65536 + b * 256 + c) div 65536 = a" unfolding v q using assms by simp
  show "(a * 65536 + b * 256 + c) div 256 mod 256 = b" unfolding v q using assms by simp
  have "(c + 256 * (b + 256 * a)) mod 256 = c mod 256" by (rule mod_mult_self2)
  then show "(a * 65536 + b * 256 + c) mod 256 = c" unfolding v using assms by simp
qed

lemma decode_quanta_2:
  assumes "alphabet_ok al" "x < 64" "y < 64" "x * 262144 + y * 4096 = v"
  shows "decode_quanta al [al ! x, al ! y] = Some [v div 65536]"
  unfolding decode_quanta.simps index_of_alphabet [OF assms(1,2)] index_of_alphabet [OF assms(1,3)]
    prod.case option.case Let_def assms(4) ..

lemma decode_quanta_3:
  assumes "alphabet_ok al" "x < 64" "y < 64" "z < 64" "x * 262144 + y * 4096 + z * 64 = v"
  shows "decode_quanta al [al ! x, al ! y, al ! z] = Some [v div 65536, v div 256 mod 256]"
  unfolding decode_quanta.simps index_of_alphabet [OF assms(1,2)] index_of_alphabet [OF assms(1,3)]
    index_of_alphabet [OF assms(1,4)] prod.case option.case Let_def assms(5) ..

lemma decode_quanta_4:
  assumes "alphabet_ok al" "x < 64" "y < 64" "z < 64" "u < 64"
    and "x * 262144 + y * 4096 + z * 64 + u = v" and "decode_quanta al t = Some bs"
  shows "decode_quanta al (al ! x # al ! y # al ! z # al ! u # t) =
    Some (v div 65536 # v div 256 mod 256 # v mod 256 # bs)"
  unfolding decode_quanta.simps index_of_alphabet [OF assms(1,2)] index_of_alphabet [OF assms(1,3)]
    index_of_alphabet [OF assms(1,4)] index_of_alphabet [OF assms(1,5)] prod.case option.case
    Let_def assms(6,7) option.map append.simps ..

lemma encode_bounds:
  assumes "\<forall>x \<in> set (a # b # c # r). x < (256 :: nat)"
  shows "b < 256" "c < 256" "(a * 65536 + b * 256 + c) div 262144 < 64"
proof -
  show "b < 256" "c < 256" using assms by simp_all
  with assms show "(a * 65536 + b * 256 + c) div 262144 < 64"
    by (intro sextet_bound triple_bound) simp_all
qed

lemma decode_encode_1:
  assumes "alphabet_ok al" "a < 256"
  shows "decode_quanta al (encode_quanta al [a]) = Some [a]"
proof -
  let ?v = "a * 65536 :: nat"
  have s: "?v div 262144 < 64"
    using encode_bounds(3) [of a 0 0 "[]"] assms(2) by simp
  have "?v = 64 * (64 * (16 * a))" by simp
  then have "?v div 64 mod 64 = 0" "?v mod 64 = 0" by (metis mod_mult_self1_is_0 nonzero_mult_div_cancel_left zero_neq_numeral)+
  then have v: "?v div 262144 * 262144 + ?v div 4096 mod 64 * 4096 = ?v"
    using sextets3 [of ?v] by linarith
  have a: "?v div 65536 = a" by (rule nonzero_mult_div_cancel_right) simp
  have m: "?v div 4096 mod 64 < 64" by (rule mod_less_divisor) simp
  show ?thesis
    unfolding encode_quanta.simps Let_def using decode_quanta_2 [OF assms(1) s m v] unfolding a .
qed

lemma decode_encode_2:
  assumes "alphabet_ok al" "a < 256" "b < 256"
  shows "decode_quanta al (encode_quanta al [a, b]) = Some [a, b]"
proof -
  let ?v = "a * 65536 + b * 256 :: nat"
  have s: "?v div 262144 < 64"
    using encode_bounds(3) [of a b 0 "[]"] assms(2,3) by (simp only: add_0_right)
  have "?v = 64 * (1024 * a + 4 * b)" by simp
  then have "?v mod 64 = 0" by (metis mod_mult_self1_is_0)
  then have v: "?v div 262144 * 262144 + ?v div 4096 mod 64 * 4096 + ?v div 64 mod 64 * 64 = ?v"
    using sextets3 [of ?v] by linarith
  have m: "?v div 4096 mod 64 < 64" "?v div 64 mod 64 < 64"
    by (rule mod_less_divisor, simp)+
  have o: "?v div 65536 = a" "?v div 256 mod 256 = b"
    using octets3(1,2) [OF assms(3), of 0 a] by (simp_all only: add_0_right)
  show ?thesis
    unfolding encode_quanta.simps Let_def using decode_quanta_3 [OF assms(1) s m v] unfolding o .
qed

lemma decode_encode_quanta:
  "alphabet_ok al \<Longrightarrow> \<forall>x \<in> set ns. x < 256 \<Longrightarrow> decode_quanta al (encode_quanta al ns) = Some ns"
proof (induction al ns rule: encode_quanta.induct)
  case (1 al)
  then show ?case by simp
next
  case (2 al a)
  then show ?case by (intro decode_encode_1) simp_all
next
  case (3 al a b)
  then show ?case by (intro decode_encode_2) simp_all
next
  case (4 al a b c r)
  let ?v = "a * 65536 + b * 256 + c"
  note bounds = encode_bounds [OF 4(3)]
  have r: "decode_quanta al (encode_quanta al r) = Some r" using 4 by simp
  have m: "?v div 4096 mod 64 < 64" "?v div 64 mod 64 < 64" "?v mod 64 < 64"
    by (rule mod_less_divisor, simp)+
  show ?case
    unfolding encode_quanta.simps Let_def
    using decode_quanta_4 [OF 4(2) bounds(3) m sextets3 r] unfolding octets3 [OF bounds(1,2)] .
qed

theorem b64_decode_encode [codec_simps]:
  assumes "alphabet_ok al"
  shows "b64_decode al (b64_encode al b) = Some b"
proof -
  have r: "\<forall>x \<in> set (map unat b). x < 256" by simp
  have "c \<noteq> CHR 0x0A \<and> c \<noteq> CHR 0x0D" if "c \<in> set (b64_encode al b)" for c
    using encode_quanta_chars [OF assms r, of c] that assms
    unfolding b64_encode_def alphabet_ok_def by metis
  then have "filter (\<lambda>c. c \<noteq> CHR 0x0A \<and> c \<noteq> CHR 0x0D) (b64_encode al b) = b64_encode al b"
    by (simp add: filter_id_conv)
  then show ?thesis
    using decode_encode_quanta [OF assms r]
    by (simp add: b64_decode_def b64_encode_def map_idI)
qed

lemma b64_encode_chars: "alphabet_ok al \<Longrightarrow> set (b64_encode al b) \<subseteq> set al"
  unfolding b64_encode_def by (rule subsetI, rule encode_quanta_chars) auto

lemma dollar_not_in_Std [simp]: "CHR ''$'' \<notin> set (b64_encode StdAlphabet b)"
proof
  assume "CHR ''$'' \<in> set (b64_encode StdAlphabet b)"
  then have "CHR ''$'' \<in> set StdAlphabet" using b64_encode_chars [OF StdAlphabet_ok] by blast
  then show False by (simp add: StdAlphabet_def)
qed

lemma dot_not_in_URL [simp]: "CHR ''.'' \<notin> set (b64_encode URLAlphabet b)"
proof
  assume "CHR ''.'' \<in> set (b64_encode URLAlphabet b)"
  then have "CHR ''.'' \<in> set URLAlphabet" using b64_encode_chars [OF URLAlphabet_ok] by blast
  then show False by (simp add: URLAlphabet_def)
qed

end
