(* ===== verification/Auth_Crypto.thy ===== *)
theory Auth_Crypto
  imports Go_Base64
begin

text \<open>
  Credential encryption (\<open>internal/auth/crypto.go\<close>): the key derived from the login
  password with Argon2id, and AES-256-GCM under that key. The primitives are outside the
  repository: they are the functions of a \<open>crypto\<close> record, and \<open>argon2_ok\<close> and \<open>gcm_ok\<close>
  state what their documentation promises.
\<close>

section \<open>The primitives\<close>

text \<open>
  \<open>argon2_IDKey pw salt time memory threads keyLen\<close> is \<open>None\<close> where the library panics
  (fewer than one round or one lane). \<open>gcm_Seal\<close> and \<open>gcm_Open\<close> take the key, the nonce
  and the text; AES-GCM is deterministic in them, so opening succeeds exactly on what
  sealing produced; a sealed text carries its tag, so it is never empty.
\<close>

record crypto =
  hmac_sha256 :: "bytes \<Rightarrow> bytes \<Rightarrow> bytes"
  argon2_IDKey :: "bytes \<Rightarrow> bytes \<Rightarrow> nat \<Rightarrow> nat \<Rightarrow> nat \<Rightarrow> nat \<Rightarrow> bytes option"
  gcm_Seal :: "bytes \<Rightarrow> bytes \<Rightarrow> bytes \<Rightarrow> bytes"
  gcm_Open :: "bytes \<Rightarrow> bytes \<Rightarrow> bytes \<Rightarrow> bytes option"

definition argon2_ok :: "crypto \<Rightarrow> bool" where
  "argon2_ok C \<longleftrightarrow>
     (\<forall>pw salt t m p n. 1 \<le> t \<and> 1 \<le> p \<and> 1 \<le> n \<longrightarrow>
        (\<exists>k. argon2_IDKey C pw salt t m p n = Some k \<and> length k = n))
   \<and> (\<forall>pw salt t m p n. t < 1 \<or> p < 1 \<longrightarrow> argon2_IDKey C pw salt t m p n = None)"

definition gcm_ok :: "crypto \<Rightarrow> bool" where
  "gcm_ok C \<longleftrightarrow> (\<forall>k n p c. length k = 32 \<longrightarrow> length n = 12 \<longrightarrow>
     (gcm_Open C k n c = Some p \<longleftrightarrow> c = gcm_Seal C k n p))
   \<and> (\<forall>k n p. length k = 32 \<longrightarrow> gcm_Seal C k n p \<noteq> [])"

lemma argon2_Some:
  assumes "argon2_ok C" "1 \<le> t" "1 \<le> p" "1 \<le> n"
  obtains k where "argon2_IDKey C pw salt t m p n = Some k" "length k = n"
  using assms unfolding argon2_ok_def by blast

lemma argon2_None: "argon2_ok C \<Longrightarrow> t < 1 \<or> p < 1 \<Longrightarrow> argon2_IDKey C pw salt t m p n = None"
  unfolding argon2_ok_def by (elim conjE) (rule mp, elim allE, assumption)

section \<open>Cost parameters\<close>

record PasswordParams =
  pTime :: "32 word"
  pMemory :: "32 word"
  pThreads :: "8 word"
  pKeyLen :: "32 word"
  pSaltLen :: "32 word"

definition kdfParams :: PasswordParams where
  "kdfParams = \<lparr>pTime = 3, pMemory = 64 * 1024, pThreads = 4, pKeyLen = 32, pSaltLen = 16\<rparr>"

definition KDFSaltLen :: nat where
  "KDFSaltLen = 16"

text \<open>Costs Argon2id accepts and an output that is not empty.\<close>

definition params_ok :: "PasswordParams \<Rightarrow> bool" where
  "params_ok p \<longleftrightarrow> 1 \<le> unat (pTime p) \<and> 1 \<le> unat (pThreads p) \<and> 1 \<le> unat (pKeyLen p)"

definition IDKey :: "crypto \<Rightarrow> bytes \<Rightarrow> bytes \<Rightarrow> PasswordParams \<Rightarrow> bytes outcome" where
  "IDKey C pw salt p =
     (case argon2_IDKey C pw salt (unat (pTime p)) (unat (pMemory p)) (unat (pThreads p)) (unat (pKeyLen p)) of
        None \<Rightarrow> Panic | Some k \<Rightarrow> Ok k)"

lemma kdfParams_ok [simp]: "params_ok kdfParams"
  by (simp add: params_ok_def kdfParams_def)

lemma IDKey_Ok:
  assumes "argon2_ok C" "params_ok p"
  obtains k where "IDKey C pw salt p = Ok k" "length k = unat (pKeyLen p)"
proof -
  have "1 \<le> unat (pTime p)" "1 \<le> unat (pThreads p)" "1 \<le> unat (pKeyLen p)"
    using assms(2) unfolding params_ok_def by blast+
  then obtain k where "argon2_IDKey C pw salt (unat (pTime p)) (unat (pMemory p))
      (unat (pThreads p)) (unat (pKeyLen p)) = Some k" "length k = unat (pKeyLen p)"
    by (rule argon2_Some [OF assms(1)])
  then show ?thesis by (intro that [of k]) (simp_all only: IDKey_def option.case)
qed

section \<open>Salts and keys\<close>

definition NewSalt :: "nat \<Rightarrow> rng \<Rightarrow> bytes outcome \<times> rng" where
  "NewSalt n r =
     (case rand_Read n r of
        (None, r') \<Rightarrow> (Fail (WrapError ''auth: read salt'' rand_error), r')
      | (Some salt, r') \<Rightarrow> (Ok salt, r'))"

definition DeriveKey :: "crypto \<Rightarrow> string \<Rightarrow> bytes \<Rightarrow> bytes outcome" where
  "DeriveKey C password salt = IDKey C (bytes_of_string password) salt kdfParams"

section \<open>AES-256-GCM\<close>

text \<open>
  An AEAD made by \<open>newGCM\<close> is its key. The nonce size of GCM is 12 bytes; \<open>Seal\<close> panics on
  a plaintext beyond the limit of the mode.
\<close>

definition NonceSize :: nat where
  "NonceSize = 12"

definition gcm_max :: nat where
  "gcm_max = (2 ^ 32 - 2) * 16"

definition newGCM :: "bytes \<Rightarrow> bytes outcome" where
  "newGCM key = (if length key \<noteq> 32
     then Fail (ErrorString (''auth: key must be 32 bytes, got '' @ show_nat (length key)))
     else Ok key)"

definition Encrypt :: "crypto \<Rightarrow> bytes \<Rightarrow> bytes \<Rightarrow> rng \<Rightarrow> (bytes \<times> bytes) outcome \<times> rng" where
  "Encrypt C key plaintext r =
     (case newGCM key of
        Fail e \<Rightarrow> (Fail e, r)
      | Panic \<Rightarrow> (Panic, r)
      | Ok gcm \<Rightarrow>
          (case rand_Read NonceSize r of
             (None, r') \<Rightarrow> (Fail (WrapError ''auth: read nonce'' rand_error), r')
           | (Some nonce, r') \<Rightarrow>
               if gcm_max < length plaintext then (Panic, r')
               else (Ok (gcm_Seal C gcm nonce plaintext, nonce), r')))"

definition Decrypt :: "crypto \<Rightarrow> bytes \<Rightarrow> bytes \<Rightarrow> bytes \<Rightarrow> bytes outcome" where
  "Decrypt C key ciphertext nonce =
     bind_outcome (newGCM key) (\<lambda>gcm.
       if length nonce \<noteq> NonceSize then Fail (ErrorString ''auth: wrong nonce size'')
       else (case gcm_Open C gcm nonce ciphertext of
          None \<Rightarrow> Fail (WrapError ''auth: decrypt'' (ExternalError ''cipher: message authentication failed''))
        | Some plaintext \<Rightarrow> Ok plaintext))"

lemma kdf_key_length [simp]: "unat (pKeyLen kdfParams) = 32"
  by (simp add: kdfParams_def)

lemma DeriveKey_Ok:
  assumes "argon2_ok C"
  obtains k where "DeriveKey C pw salt = Ok k" "length k = 32"
proof -
  obtain k where "IDKey C (bytes_of_string pw) salt kdfParams = Ok k"
      "length k = unat (pKeyLen kdfParams)"
    by (rule IDKey_Ok [OF assms kdfParams_ok])
  then show ?thesis by (intro that [of k]) (simp_all add: DeriveKey_def)
qed

lemma newGCM_32 [simp]: "length key = 32 \<Longrightarrow> newGCM key = Ok key"
  by (simp add: newGCM_def)

lemma newGCM_Ok: "newGCM key = Ok k \<longleftrightarrow> k = key \<and> length key = 32"
  by (auto simp: newGCM_def)

lemma newGCM_not_Panic [simp]: "newGCM key \<noteq> Panic"
  by (simp add: newGCM_def)

lemma NewSalt_Ok: "NewSalt n r = (Ok salt, r') \<Longrightarrow> rand_ok r \<Longrightarrow> length salt = n \<and> rand_ok r'"
  by (auto simp: NewSalt_def split: option.splits prod.splits
      dest: rand_Read_length rand_Read_keeps_ok)

lemma Encrypt_Ok:
  "Encrypt C key plaintext r = (Ok (ct, nonce), r') \<longleftrightarrow>
     length key = 32 \<and> length plaintext \<le> gcm_max \<and> rand_Read NonceSize r = (Some nonce, r')
     \<and> ct = gcm_Seal C key nonce plaintext"
  by (auto simp: Encrypt_def newGCM_def split: option.splits prod.splits)

lemma Encrypt_keeps_rand_ok [wf_intros]:
  "Encrypt C key plaintext r = (res, r') \<Longrightarrow> rand_ok r \<Longrightarrow> rand_ok r'"
  by (auto simp: Encrypt_def split: outcome.splits option.splits prod.splits if_splits
      dest: rand_Read_keeps_ok)

lemma Decrypt_Ok:
  assumes "gcm_ok C"
  shows "Decrypt C key ct nonce = Ok p \<longleftrightarrow>
    length key = 32 \<and> length nonce = NonceSize \<and> ct = gcm_Seal C key nonce p"
proof (cases "length key = 32 \<and> length nonce = NonceSize")
  case True
  then have "gcm_Open C key nonce ct = Some p \<longleftrightarrow> ct = gcm_Seal C key nonce p"
    using assms by (simp add: gcm_ok_def NonceSize_def)
  with True show ?thesis
    by (auto simp: Decrypt_def split: option.splits)
next
  case False
  then show ?thesis by (auto simp: Decrypt_def newGCM_def)
qed

lemma Decrypt_not_Panic [simp]: "Decrypt C key ct nonce \<noteq> Panic"
  by (simp add: Decrypt_def newGCM_def split: option.splits)

section \<open>Reference primitives\<close>

text \<open>
  A small instance of the primitives, for the witnesses: it satisfies the documented laws
  and computes. Sealing prepends the key and the nonce, and Argon2id pads the password
  and the salt to the length asked for.
\<close>

definition ref_open :: "bytes \<Rightarrow> bytes \<Rightarrow> bytes \<Rightarrow> bytes option" where
  "ref_open k n c = (if take (length (k @ n)) c = k @ n then Some (drop (length (k @ n)) c) else None)"

definition ref_idkey :: "bytes \<Rightarrow> bytes \<Rightarrow> nat \<Rightarrow> nat \<Rightarrow> nat \<Rightarrow> nat \<Rightarrow> bytes option" where
  "ref_idkey pw salt t m p n =
     (if t < 1 \<or> p < 1 then None else Some (take n (pw @ salt @ replicate n 0)))"

definition ref_crypto :: crypto where
  "ref_crypto = \<lparr>hmac_sha256 = (\<lambda>k m. k @ m), argon2_IDKey = ref_idkey,
     gcm_Seal = (\<lambda>k n p. k @ n @ p), gcm_Open = ref_open\<rparr>"

definition ref_rng :: rng where
  "ref_rng = \<lparr>draw = (\<lambda>i n. Some (replicate n (word_of_nat i))), reads = 0\<rparr>"

lemma ref_argon2_ok [simp]: "argon2_ok ref_crypto"
  by (auto simp: argon2_ok_def ref_crypto_def ref_idkey_def min_def)

lemma ref_gcm_ok [simp]: "gcm_ok ref_crypto"
  by (auto simp: gcm_ok_def ref_crypto_def ref_open_def) (metis append_assoc append_take_drop_id)

lemma ref_rand_ok [simp]: "rand_ok ref_rng"
  by (simp add: rand_ok_def ref_rng_def)

section \<open>Properties\<close>

text \<open>
  C24: what \<open>Encrypt\<close> returns, \<open>Decrypt\<close> opens to the same plaintext under the same key; and
  \<open>Encrypt\<close> does return on every 32-byte key, when the random source delivers and the
  plaintext is within the limit of the mode.
\<close>

theorem Encrypt_Decrypt:
  assumes "gcm_ok C" "rand_ok r" "length key = 32" "length plaintext \<le> gcm_max"
    and "draw r (reads r) NonceSize = Some nonce"
  shows "\<exists>ct r'. Encrypt C key plaintext r = (Ok (ct, nonce), r')
    \<and> Decrypt C key ct nonce = Ok plaintext"
proof -
  have "rand_Read NonceSize r = (Some nonce, r\<lparr>reads := Suc (reads r)\<rparr>)"
    using assms(5) by (simp add: rand_Read_def)
  then have e: "Encrypt C key plaintext r =
      (Ok (gcm_Seal C key nonce plaintext, nonce), r\<lparr>reads := Suc (reads r)\<rparr>)"
    using assms(3,4) by (simp add: Encrypt_Ok)
  have "length nonce = NonceSize" using assms(2,5) by (simp add: rand_ok_def)
  with e show ?thesis using assms(1,3) by (simp add: Decrypt_Ok)
qed

theorem Encrypt_Decrypt_witness:
  "\<exists>ct r'. Encrypt ref_crypto (replicate 32 7) [1, 2, 3] ref_rng = (Ok (ct, replicate 12 0), r')
    \<and> Decrypt ref_crypto (replicate 32 7) ct (replicate 12 0) = Ok [1, 2, 3]"
  by (rule Encrypt_Decrypt) (simp_all add: gcm_max_def ref_rng_def NonceSize_def rand_ok_def)

text \<open>
  \<open>Decrypt\<close> is exact. It succeeds only on a 32-byte key, a 12-byte nonce and precisely
  the ciphertext that sealing that plaintext under them gives (so any change of the
  ciphertext that is not itself a sealing is refused), it otherwise reports an error, and
  it never panics.
\<close>

theorem Decrypt_exact:
  assumes "gcm_ok C"
  shows "(Decrypt C key ct nonce = Ok p \<longleftrightarrow>
      length key = 32 \<and> length nonce = 12 \<and> ct = gcm_Seal C key nonce p)
    \<and> (length key \<noteq> 32 \<or> length nonce \<noteq> 12 \<or> ct \<notin> range (gcm_Seal C key nonce)
        \<longleftrightarrow> (\<exists>e. Decrypt C key ct nonce = Fail e))"
proof
  show main: "Decrypt C key ct nonce = Ok p \<longleftrightarrow>
      length key = 32 \<and> length nonce = 12 \<and> ct = gcm_Seal C key nonce p" for p
    using Decrypt_Ok [OF assms] by (simp add: NonceSize_def)
  have "(\<exists>e. Decrypt C key ct nonce = Fail e) \<longleftrightarrow> (\<nexists>p. Decrypt C key ct nonce = Ok p)"
    by (cases "Decrypt C key ct nonce") auto
  then show "length key \<noteq> 32 \<or> length nonce \<noteq> 12 \<or> ct \<notin> range (gcm_Seal C key nonce)
        \<longleftrightarrow> (\<exists>e. Decrypt C key ct nonce = Fail e)"
    by (simp add: main image_iff)
qed

theorem Decrypt_exact_witness:
  "Decrypt ref_crypto (replicate 32 7) (replicate 32 7 @ replicate 12 0 @ [5]) (replicate 12 0) = Ok [5]"
  using Decrypt_exact [OF ref_gcm_ok, of "replicate 32 7"
      "replicate 32 7 @ replicate 12 0 @ [5]" "replicate 12 0" "[5]"]
  by (simp add: ref_crypto_def)

end
