(* ===== verification/Password_Hash.thy ===== *)
theory Password_Hash
  imports Auth_Crypto
begin

text \<open>
  Password hashing (\<open>internal/auth/password.go\<close>): the peppered Argon2id hash, the PHC
  string it is stored as, and the parser that reads it back. The parser is Go's
  \<open>fmt.Sscanf\<close>, leniencies included.
\<close>

section \<open>Hasher\<close>

definition DefaultPasswordParams :: PasswordParams where
  "DefaultPasswordParams =
     \<lparr>pTime = 3, pMemory = 64 * 1024, pThreads = 4, pKeyLen = 32, pSaltLen = 16\<rparr>"

definition argon2_Version :: nat where
  "argon2_Version = 19"

record Hasher =
  pepper :: bytes
  hparams :: PasswordParams

definition NewHasher :: "bytes \<Rightarrow> Hasher outcome" where
  "NewHasher pep = (if length pep = 0
     then Fail (ErrorString ''auth: password pepper must not be empty'')
     else Ok \<lparr>pepper = pep, hparams = DefaultPasswordParams\<rparr>)"

definition pepperedKey :: "crypto \<Rightarrow> Hasher \<Rightarrow> string \<Rightarrow> bytes" where
  "pepperedKey C h password = hmac_sha256 C (pepper h) (bytes_of_string password)"

definition derive :: "crypto \<Rightarrow> Hasher \<Rightarrow> string \<Rightarrow> bytes \<Rightarrow> PasswordParams \<Rightarrow> bytes outcome" where
  "derive C h password salt p = IDKey C (pepperedKey C h password) salt p"

section \<open>The PHC string\<close>

definition encodePHC :: "PasswordParams \<Rightarrow> bytes \<Rightarrow> bytes \<Rightarrow> string" where
  "encodePHC p salt key =
     ''$argon2id$v='' @ show_nat argon2_Version
     @ ''$m='' @ show_nat (unat (pMemory p)) @ '',t='' @ show_nat (unat (pTime p))
     @ '',p='' @ show_nat (unat (pThreads p))
     @ ''$'' @ b64_encode StdAlphabet salt @ ''$'' @ b64_encode StdAlphabet key"

text \<open>\<open>fmt.Sscanf\<close> with the two formats of the parser.\<close>

definition Sscanf_version :: "string \<Rightarrow> int option" where
  "Sscanf_version s = (case scan_lit ''v='' s of None \<Rightarrow> None | Some r \<Rightarrow> map_option fst (scan_int r))"

definition Sscanf_costs :: "string \<Rightarrow> (nat \<times> nat \<times> nat) option" where
  "Sscanf_costs s =
     Option.bind (scan_lit ''m='' s) (\<lambda>s. Option.bind (scan_uint 32 s) (\<lambda>(m, s).
     Option.bind (scan_lit '',t='' s) (\<lambda>s. Option.bind (scan_uint 32 s) (\<lambda>(t, s).
     Option.bind (scan_lit '',p='' s) (\<lambda>s. map_option (\<lambda>(p, s). (m, t, p)) (scan_uint 8 s))))))"

definition malformed :: goerror where
  "malformed = ErrorString ''auth: malformed password hash''"

definition decodePHC :: "string \<Rightarrow> (PasswordParams \<times> bytes \<times> bytes) outcome" where
  "decodePHC encoded =
     (case split_on CHR ''$'' encoded of
        [p0, p1, p2, p3, p4, p5] \<Rightarrow>
          if p0 \<noteq> '''' \<or> p1 \<noteq> ''argon2id'' then Fail malformed
          else (case Sscanf_version p2 of
             None \<Rightarrow> Fail (WrapError ''auth: parse hash version'' (ExternalError ''fmt''))
           | Some version \<Rightarrow>
               if version \<noteq> int argon2_Version
               then Fail (ErrorString (''auth: unsupported argon2 version '' @ show_int version))
               else (case Sscanf_costs p3 of
                  None \<Rightarrow> Fail (WrapError ''auth: parse hash params'' (ExternalError ''fmt''))
                | Some (m, t, p) \<Rightarrow>
                    (case b64_decode StdAlphabet p4 of
                       None \<Rightarrow> Fail (WrapError ''auth: decode salt'' (ExternalError ''base64''))
                     | Some salt \<Rightarrow>
                         (case b64_decode StdAlphabet p5 of
                            None \<Rightarrow> Fail (WrapError ''auth: decode hash'' (ExternalError ''base64''))
                          | Some key \<Rightarrow>
                              Ok (\<lparr>pTime = word_of_nat t, pMemory = word_of_nat m,
                                   pThreads = word_of_nat p, pKeyLen = word_of_nat (length key),
                                   pSaltLen = word_of_nat (length salt)\<rparr>, salt, key)))))
      | _ \<Rightarrow> Fail malformed)"

section \<open>Hash and Verify\<close>

definition Hash :: "crypto \<Rightarrow> Hasher \<Rightarrow> string \<Rightarrow> rng \<Rightarrow> string outcome \<times> rng" where
  "Hash C h password r =
     (case rand_Read (unat (pSaltLen (hparams h))) r of
        (None, r') \<Rightarrow> (Fail (WrapError ''auth: read salt'' rand_error), r')
      | (Some salt, r') \<Rightarrow>
          (bind_outcome (derive C h password salt (hparams h))
             (\<lambda>key. Ok (encodePHC (hparams h) salt key)), r'))"

text \<open>\<open>subtle.ConstantTimeCompare\<close> is 1 exactly when the slices have equal contents.\<close>

definition Verify :: "crypto \<Rightarrow> Hasher \<Rightarrow> string \<Rightarrow> string \<Rightarrow> bool outcome" where
  "Verify C h password encoded =
     bind_outcome (decodePHC encoded) (\<lambda>(params, salt, want).
       bind_outcome (derive C h password salt params) (\<lambda>got. Ok (got = want)))"

section \<open>Lemmas\<close>

lemma not_digit_chars [simp]:
  "\<not> is_digit CHR '',''" "\<not> is_digit CHR ''$''" "\<not> is_digit CHR ''x''"
  by (simp_all add: is_digit_def)

lemma no_digit_simps [simp]: "no_digit []" "no_digit (c # s) \<longleftrightarrow> \<not> is_digit c"
  by (simp_all add: no_digit_def)

lemma dollar_not_in_show_nat [simp]: "CHR ''$'' \<notin> set (show_nat n)"
  using show_nat_digits [of "CHR ''$''" n] by auto

lemma Sscanf_version_show [codec_simps]: "n < 2 ^ 63 \<Longrightarrow> Sscanf_version (''v='' @ show_nat n) = Some (int n)"
  using scan_int_show_nat [of n "[]"] by (simp add: Sscanf_version_def)

lemma Sscanf_costs_show [codec_simps]:
  assumes "m < 2 ^ 32" "t < 2 ^ 32" "p < 2 ^ 8"
  shows "Sscanf_costs (''m='' @ show_nat m @ '',t='' @ show_nat t @ '',p='' @ show_nat p) = Some (m, t, p)"
  using scan_uint_show_nat [OF assms(1), of "'',t='' @ show_nat t @ '',p='' @ show_nat p"]
    scan_uint_show_nat [OF assms(2), of "'',p='' @ show_nat p"]
    scan_uint_show_nat [OF assms(3), of "[]"]
  by (simp add: Sscanf_costs_def)

lemma unat_lt_32: "unat (w :: 32 word) < 2 ^ 32"
  using unsigned_less [of w, where ?'a = nat] by simp

lemma unat_lt_8: "unat (w :: 8 word) < 2 ^ 8"
  using unsigned_less [of w, where ?'a = nat] by simp

lemma split_encodePHC:
  "split_on CHR ''$'' (encodePHC p salt key) =
     ['''', ''argon2id'', ''v='' @ show_nat argon2_Version,
      ''m='' @ show_nat (unat (pMemory p)) @ '',t='' @ show_nat (unat (pTime p)) @ '',p='' @ show_nat (unat (pThreads p)),
      b64_encode StdAlphabet salt, b64_encode StdAlphabet key]"
proof -
  let ?d = "CHR ''$''"
  let ?c = "''m='' @ show_nat (unat (pMemory p)) @ '',t='' @ show_nat (unat (pTime p)) @ '',p='' @ show_nat (unat (pThreads p))"
  have e: "encodePHC p salt key = [] @ ?d # ''argon2id'' @ ?d # (''v='' @ show_nat argon2_Version)
      @ ?d # ?c @ ?d # b64_encode StdAlphabet salt @ ?d # b64_encode StdAlphabet key"
    by (simp add: encodePHC_def)
  have "?d \<notin> set ''argon2id''" "?d \<notin> set (''v='' @ show_nat argon2_Version)" "?d \<notin> set ?c"
    by simp_all
  then show ?thesis unfolding e
    by (simp only: split_on_append split_on_no_sep dollar_not_in_Std list.set empty_iff not_False_eq_True)
qed

lemma decode_encodePHC [codec_simps]:
  "decodePHC (encodePHC p salt key) =
     Ok (p\<lparr>pKeyLen := word_of_nat (length key), pSaltLen := word_of_nat (length salt)\<rparr>, salt, key)"
proof -
  have v: "Sscanf_version (''v='' @ show_nat argon2_Version) = Some (int argon2_Version)"
    by (rule Sscanf_version_show) (simp add: argon2_Version_def)
  show ?thesis
    unfolding decodePHC_def split_encodePHC list.case v option.case
      Sscanf_costs_show [OF unat_lt_32 unat_lt_32 unat_lt_8] prod.case
      b64_decode_encode [OF StdAlphabet_ok]
    by simp
qed

lemma DefaultPasswordParams_ok [simp]: "params_ok DefaultPasswordParams"
  by (simp add: params_ok_def DefaultPasswordParams_def)

lemma Hash_Ok:
  assumes "rand_ok r" "argon2_ok C" "params_ok (hparams h)" "Hash C h password r = (Ok enc, r')"
  obtains salt key where "enc = encodePHC (hparams h) salt key"
    "IDKey C (pepperedKey C h password) salt (hparams h) = Ok key"
    "length salt = unat (pSaltLen (hparams h))" "length key = unat (pKeyLen (hparams h))"
proof -
  from assms(4) obtain salt key where
    s: "rand_Read (unat (pSaltLen (hparams h))) r = (Some salt, r')"
    and k: "derive C h password salt (hparams h) = Ok key" "enc = encodePHC (hparams h) salt key"
    by (auto simp: Hash_def bind_outcome_eq_Ok split: option.splits prod.splits)
  obtain key' where "IDKey C (pepperedKey C h password) salt (hparams h) = Ok key'"
      "length key' = unat (pKeyLen (hparams h))"
    by (rule IDKey_Ok [OF assms(2,3)])
  with k s show ?thesis
    by (intro that [of salt key]) (auto simp: derive_def rand_Read_length [OF assms(1)])
qed

lemma Hash_succeeds:
  assumes "rand_ok r" "argon2_ok C" "params_ok (hparams h)"
    and "draw r (reads r) (unat (pSaltLen (hparams h))) = Some salt"
  shows "\<exists>enc. Hash C h password r = (Ok enc, r\<lparr>reads := Suc (reads r)\<rparr>)"
proof -
  obtain key where "IDKey C (pepperedKey C h password) salt (hparams h) = Ok key"
    by (rule IDKey_Ok [OF assms(2,3)])
  with assms(4) show ?thesis by (simp add: Hash_def rand_Read_def derive_def)
qed

lemma Verify_Hash_iff:
  assumes "rand_ok r" "argon2_ok C" "params_ok (hparams h)" "Hash C h password r = (Ok enc, r')"
  shows "\<exists>salt key. length salt = unat (pSaltLen (hparams h))
    \<and> IDKey C (pepperedKey C h password) salt (hparams h) = Ok key
    \<and> (\<forall>h' password'. Verify C h' password' enc =
        bind_outcome (IDKey C (pepperedKey C h' password') salt (hparams h)) (\<lambda>got. Ok (got = key)))"
proof -
  obtain salt key where e: "enc = encodePHC (hparams h) salt key"
    and k: "IDKey C (pepperedKey C h password) salt (hparams h) = Ok key"
    and l: "length salt = unat (pSaltLen (hparams h))" "length key = unat (pKeyLen (hparams h))"
    by (rule Hash_Ok [OF assms])
  have "(hparams h)\<lparr>pKeyLen := word_of_nat (length key), pSaltLen := word_of_nat (length salt)\<rparr> = hparams h"
    by (simp add: l)
  then have "decodePHC enc = Ok (hparams h, salt, key)" by (simp add: e decode_encodePHC)
  then have "Verify C h' password' enc =
      bind_outcome (IDKey C (pepperedKey C h' password') salt (hparams h)) (\<lambda>got. Ok (got = key))"
    for h' password'
    by (simp add: Verify_def derive_def)
  with k l show ?thesis by blast
qed

lemma IDKey_zero: "argon2_ok C \<Longrightarrow> unat (pTime p) < 1 \<or> unat (pThreads p) < 1 \<Longrightarrow> IDKey C pw salt p = Panic"
  by (simp only: IDKey_def argon2_None option.case)

section \<open>Properties\<close>

text \<open>
  C27: the PHC string carries everything \<open>Verify\<close> needs: parsing what \<open>encodePHC\<close> printed
  gives back the salt, the hash and the cost parameters (for every 32-bit and 8-bit cost),
  with the two lengths set from the decoded segments.
\<close>

theorem PHC_roundtrip:
  "decodePHC (encodePHC p salt key) =
     Ok (p\<lparr>pKeyLen := word_of_nat (length key), pSaltLen := word_of_nat (length salt)\<rparr>, salt, key)"
  by (rule decode_encodePHC)

text \<open>
  C25: with the default costs (or any costs Argon2id accepts) \<open>Hash\<close> returns an encoded
  string, and \<open>Verify\<close> of a password under a pepper answers true for it exactly when
  Argon2id of that peppered password with the stored salt is the stored hash; so the
  password itself, under the pepper it was hashed with, is accepted.
\<close>

theorem Hash_Verify:
  assumes "rand_ok r" "argon2_ok C" "params_ok (hparams h)"
    and "draw r (reads r) (unat (pSaltLen (hparams h))) = Some salt"
  shows "\<exists>enc. Hash C h password r = (Ok enc, r\<lparr>reads := Suc (reads r)\<rparr>)
    \<and> Verify C h password enc = Ok True
    \<and> (\<exists>salt'. \<forall>h' password'. Verify C h' password' enc =
        Ok (IDKey C (pepperedKey C h' password') salt' (hparams h) =
            IDKey C (pepperedKey C h password) salt' (hparams h)))"
proof -
  obtain enc where enc: "Hash C h password r = (Ok enc, r\<lparr>reads := Suc (reads r)\<rparr>)"
    using Hash_succeeds [OF assms] by blast
  obtain salt' key where key: "IDKey C (pepperedKey C h password) salt' (hparams h) = Ok key"
    and v: "Verify C h' password' enc =
      bind_outcome (IDKey C (pepperedKey C h' password') salt' (hparams h)) (\<lambda>got. Ok (got = key))"
    for h' password'
    using Verify_Hash_iff [OF assms(1-3) enc] by blast
  have "Verify C h' password' enc = Ok (IDKey C (pepperedKey C h' password') salt' (hparams h) = Ok key)"
    for h' password'
  proof -
    obtain k where "IDKey C (pepperedKey C h' password') salt' (hparams h) = Ok k"
      by (rule IDKey_Ok [OF assms(2,3)])
    then show ?thesis using v by simp
  qed
  with enc key show ?thesis by metis
qed

theorem Hash_Verify_witness:
  "\<exists>enc. Hash ref_crypto \<lparr>pepper = [1], hparams = DefaultPasswordParams\<rparr> ''hunter2'' ref_rng
      = (Ok enc, ref_rng\<lparr>reads := Suc (reads ref_rng)\<rparr>)
    \<and> Verify ref_crypto \<lparr>pepper = [1], hparams = DefaultPasswordParams\<rparr> ''hunter2'' enc = Ok True"
proof -
  have "draw ref_rng (reads ref_rng) 16 = Some (replicate 16 0)" by (simp add: ref_rng_def)
  then show ?thesis
    using Hash_Verify [OF ref_rand_ok ref_argon2_ok, of "\<lparr>pepper = [1], hparams = DefaultPasswordParams\<rparr>"
        "replicate 16 0" "''hunter2''"]
    by (auto simp: DefaultPasswordParams_def params_ok_def)
qed

text \<open>
  C26: \<open>Verify\<close> separates corruption from a mismatch. It reports an error exactly when the
  stored string does not parse, answers a truth value whenever the parsed costs are
  usable, and panics (as the Argon2id library does) when the string parses with zero
  rounds or zero lanes, which the parser lets through.
\<close>

theorem Verify_outcomes:
  assumes "argon2_ok C"
  shows "(Verify C h password enc = Fail e \<longleftrightarrow> decodePHC enc = Fail e)
    \<and> (decodePHC enc = Ok (p, salt, key) \<and> params_ok p \<longrightarrow>
        (\<exists>b. Verify C h password enc = Ok b))
    \<and> (decodePHC enc = Ok (p, salt, key) \<and> (pTime p = 0 \<or> pThreads p = 0) \<longrightarrow>
        Verify C h password enc = Panic)"
proof (intro conjI impI)
  have "IDKey C pw s q \<noteq> Fail e" for pw s q
    by (simp add: IDKey_def split: option.splits)
  then show "Verify C h password enc = Fail e \<longleftrightarrow> decodePHC enc = Fail e"
    by (cases "decodePHC enc") (auto simp: Verify_def derive_def split: prod.splits elim: bind_outcome.elims)
next
  assume a: "decodePHC enc = Ok (p, salt, key) \<and> params_ok p"
  obtain k where "IDKey C (pepperedKey C h password) salt p = Ok k"
    using IDKey_Ok [OF assms, of p] a by blast
  with a show "\<exists>b. Verify C h password enc = Ok b" by (simp add: Verify_def derive_def)
next
  assume a: "decodePHC enc = Ok (p, salt, key) \<and> (pTime p = 0 \<or> pThreads p = 0)"
  then have "IDKey C (pepperedKey C h password) salt p = Panic"
    by (intro IDKey_zero [OF assms]) auto
  with a show "Verify C h password enc = Panic" by (simp add: Verify_def derive_def)
qed

theorem Verify_outcomes_witness:
  "Verify ref_crypto \<lparr>pepper = [1], hparams = DefaultPasswordParams\<rparr> ''hunter2''
      (encodePHC (DefaultPasswordParams\<lparr>pTime := 0\<rparr>) [1, 2] [3, 4]) = Panic
   \<and> (\<exists>b. Verify ref_crypto \<lparr>pepper = [1], hparams = DefaultPasswordParams\<rparr> ''hunter2''
      (encodePHC DefaultPasswordParams [1, 2] [3, 4]) = Ok b)"
proof
  show "Verify ref_crypto \<lparr>pepper = [1], hparams = DefaultPasswordParams\<rparr> ''hunter2''
      (encodePHC (DefaultPasswordParams\<lparr>pTime := 0\<rparr>) [1, 2] [3, 4]) = Panic"
    by (rule Verify_outcomes [OF ref_argon2_ok, THEN conjunct2, THEN conjunct2, THEN mp])
      (rule conjI, rule decode_encodePHC, simp)
  show "\<exists>b. Verify ref_crypto \<lparr>pepper = [1], hparams = DefaultPasswordParams\<rparr> ''hunter2''
      (encodePHC DefaultPasswordParams [1, 2] [3, 4]) = Ok b"
    by (rule Verify_outcomes [OF ref_argon2_ok, THEN conjunct2, THEN conjunct1, THEN mp])
      (rule conjI, rule decode_encodePHC, simp add: params_ok_def DefaultPasswordParams_def)
qed

text \<open>
  The parser accepts more than \<open>encodePHC\<close> prints. Text after the version number and
  after the number of lanes is ignored (unless it begins with a digit or holds a dollar
  sign), so a damaged string can parse like an intact one instead of being reported as
  malformed.
\<close>

theorem PHC_trailing_text_ignored:
  assumes "no_digit x" "no_digit y" "CHR ''$'' \<notin> set x" "CHR ''$'' \<notin> set y"
  shows "decodePHC (''$argon2id$v=19'' @ x @ ''$m='' @ show_nat (unat (pMemory p))
      @ '',t='' @ show_nat (unat (pTime p)) @ '',p='' @ show_nat (unat (pThreads p)) @ y
      @ ''$'' @ b64_encode StdAlphabet salt @ ''$'' @ b64_encode StdAlphabet key)
    = decodePHC (encodePHC p salt key)"
proof -
  let ?d = "CHR ''$''"
  let ?v = "''v='' @ show_nat 19 @ x"
  let ?c = "''m='' @ show_nat (unat (pMemory p)) @ '',t='' @ show_nat (unat (pTime p))
    @ '',p='' @ show_nat (unat (pThreads p)) @ y"
  have n19: "show_nat 19 = ''19''" by code_simp
  have e: "''$argon2id$v=19'' @ x @ ''$m='' @ show_nat (unat (pMemory p))
      @ '',t='' @ show_nat (unat (pTime p)) @ '',p='' @ show_nat (unat (pThreads p)) @ y
      @ ''$'' @ b64_encode StdAlphabet salt @ ''$'' @ b64_encode StdAlphabet key
    = [] @ ?d # ''argon2id'' @ ?d # ?v @ ?d # ?c @ ?d # b64_encode StdAlphabet salt
      @ ?d # b64_encode StdAlphabet key"
    by (simp add: n19)
  have "?d \<notin> set ''argon2id''" "?d \<notin> set ?v" "?d \<notin> set ?c" using assms(3,4) by simp_all
  then have s: "split_on ?d ([] @ ?d # ''argon2id'' @ ?d # ?v @ ?d # ?c @ ?d # b64_encode StdAlphabet salt
      @ ?d # b64_encode StdAlphabet key)
    = ['''', ''argon2id'', ?v, ?c, b64_encode StdAlphabet salt, b64_encode StdAlphabet key]"
    by (simp only: split_on_append split_on_no_sep dollar_not_in_Std list.set empty_iff not_False_eq_True)
  have v: "Sscanf_version ?v = Some (int argon2_Version)"
    using scan_int_show_nat [of 19 x] assms(1) by (simp add: Sscanf_version_def argon2_Version_def)
  have c: "Sscanf_costs ?c = Some (unat (pMemory p), unat (pTime p), unat (pThreads p))"
    using scan_uint_show_nat [OF unat_lt_32, of "'',t='' @ show_nat (unat (pTime p))
        @ '',p='' @ show_nat (unat (pThreads p)) @ y" "pMemory p"]
      scan_uint_show_nat [OF unat_lt_32, of "'',p='' @ show_nat (unat (pThreads p)) @ y" "pTime p"]
      scan_uint_show_nat [OF unat_lt_8, of y "pThreads p"] assms(2)
    by (simp add: Sscanf_costs_def)
  show ?thesis
    unfolding e decode_encodePHC unfolding decodePHC_def s list.case v option.case c prod.case
      b64_decode_encode [OF StdAlphabet_ok]
    by simp
qed

theorem PHC_trailing_text_ignored_witness:
  "decodePHC (''$argon2id$v=19'' @ ''junk'' @ ''$m='' @ show_nat (unat (pMemory kdfParams))
      @ '',t='' @ show_nat (unat (pTime kdfParams)) @ '',p='' @ show_nat (unat (pThreads kdfParams)) @ ''xyz''
      @ ''$'' @ b64_encode StdAlphabet [1] @ ''$'' @ b64_encode StdAlphabet [2])
    = decodePHC (encodePHC kdfParams [1] [2])"
  by (rule PHC_trailing_text_ignored) (simp_all add: is_digit_def)

end
