(* ===== verification/Token_Manager.thy ===== *)
theory Token_Manager
  imports Go_Text
begin

text \<open>
  Bearer tokens (\<open>internal/auth/jwt.go\<close>). Signing and parsing are done by the
  golang-jwt library, the functions of a \<open>jwt_lib\<close> record; \<open>jwt_ok\<close> states the documented
  behaviour the code relies on. The clock is an argument.
\<close>

section \<open>The JWT library\<close>

record RegisteredClaims =
  Subject :: string
  IssuedAt :: "time option"
  ExpiresAt :: "time option"

text \<open>
  \<open>jwt_sign alg claims secret\<close> is \<open>SignedString\<close>; \<open>jwt_parse token secret methods now\<close> is
  \<open>ParseWithClaims\<close> with the valid methods and the time function given, and yields the
  claims and the \<open>Valid\<close> flag.
\<close>

record jwt_lib =
  jwt_sign :: "string \<Rightarrow> RegisteredClaims \<Rightarrow> bytes \<Rightarrow> string outcome"
  jwt_parse :: "string \<Rightarrow> bytes \<Rightarrow> string list \<Rightarrow> time \<Rightarrow> (RegisteredClaims \<times> bool) outcome"

text \<open>
  Claims that survive the trip through JSON unchanged: an ASCII subject and both times
  set to whole seconds a JSON number holds exactly.
\<close>

definition json_second :: "time \<Rightarrow> bool" where
  "json_second t \<longleftrightarrow> 0 \<le> t \<and> t < 2 ^ 53 * Second \<and> t mod Second = 0"

definition plain_claims :: "RegisteredClaims \<Rightarrow> bool" where
  "plain_claims c \<longleftrightarrow> ascii (Subject c)
     \<and> (case IssuedAt c of None \<Rightarrow> False | Some t \<Rightarrow> json_second t)
     \<and> (case ExpiresAt c of None \<Rightarrow> False | Some t \<Rightarrow> json_second t)"

definition unexpired :: "RegisteredClaims \<Rightarrow> time \<Rightarrow> bool" where
  "unexpired c now \<longleftrightarrow> (case ExpiresAt c of None \<Rightarrow> True | Some e \<Rightarrow> now < e)"

definition jwt_ok :: "jwt_lib \<Rightarrow> bool" where
  "jwt_ok L \<longleftrightarrow>
     (\<forall>c s. is_Ok (jwt_sign L ''HS256'' c s))
   \<and> (\<forall>alg c s t ms now. jwt_sign L alg c s = Ok t \<and> plain_claims c \<and> alg \<in> set ms \<and> unexpired c now \<longrightarrow>
        jwt_parse L t s ms now = Ok (c, True))
   \<and> (\<forall>alg c s s' t ms now. jwt_sign L alg c s = Ok t \<and> plain_claims c \<and> \<not> (alg \<in> set ms \<and> unexpired c now) \<longrightarrow>
        \<not> is_Ok (jwt_parse L t s' ms now))
   \<and> (\<forall>t s ms now. jwt_parse L t s ms now \<noteq> Panic)"

section \<open>Token manager\<close>

definition signingMethod :: string where
  "signingMethod = ''HS256''"

definition ErrInvalidToken :: goerror where
  "ErrInvalidToken = ErrorString ''auth: invalid token''"

record TokenManager =
  tm_secret :: bytes
  tm_ttl :: duration

definition NewTokenManager :: "bytes \<Rightarrow> duration \<Rightarrow> TokenManager outcome" where
  "NewTokenManager secret d =
     (if length secret = 0 then Fail (ErrorString ''auth: jwt secret must not be empty'')
      else if d \<le> 0 then Fail (ErrorString ''auth: jwt ttl must be positive'')
      else Ok \<lparr>tm_secret = secret, tm_ttl = d\<rparr>)"

text \<open>\<open>jwt.NewNumericDate\<close> truncates a time to whole seconds.\<close>

definition NewNumericDate :: "time \<Rightarrow> time" where
  "NewNumericDate t = t - t mod Second"

definition Issue :: "jwt_lib \<Rightarrow> TokenManager \<Rightarrow> time \<Rightarrow> string \<Rightarrow> string outcome" where
  "Issue L tm now userID =
     (let claims = \<lparr>Subject = userID, IssuedAt = Some (NewNumericDate now),
        ExpiresAt = Some (NewNumericDate (now + tm_ttl tm))\<rparr> in
      case jwt_sign L signingMethod claims (tm_secret tm) of
        Ok signed_token \<Rightarrow> Ok signed_token
      | Fail err \<Rightarrow> Fail (WrapError ''auth: sign token'' err)
      | Panic \<Rightarrow> Panic)"

definition VerifyToken :: "jwt_lib \<Rightarrow> TokenManager \<Rightarrow> time \<Rightarrow> string \<Rightarrow> string outcome" where
  "VerifyToken L tm now token =
     (case jwt_parse L token (tm_secret tm) [signingMethod] now of
        Ok (claims, valid) \<Rightarrow>
          if \<not> valid then Fail ErrInvalidToken
          else if Subject claims = '''' then Fail ErrInvalidToken
          else Ok (Subject claims)
      | Fail err \<Rightarrow> Fail ErrInvalidToken
      | Panic \<Rightarrow> Panic)"

section \<open>Lemmas\<close>

lemma Second_pos [simp]: "0 < Second"
  by (simp add: Second_def)

lemma NewNumericDate_le: "NewNumericDate t \<le> t"
  by (simp add: NewNumericDate_def)

lemma NewNumericDate_gt: "t - Second < NewNumericDate t"
  using pos_mod_bound [of Second t] by (simp add: NewNumericDate_def)

lemma NewNumericDate_whole: "NewNumericDate t mod Second = 0"
  by (simp add: NewNumericDate_def mod_diff_left_eq [symmetric] minus_mod_eq_mult_div)

lemma json_second_NewNumericDate:
  assumes "0 \<le> t" "t < 2 ^ 53 * Second"
  shows "json_second (NewNumericDate t)"
proof -
  have "0 \<le> t div Second * Second"
    using assms(1) Second_pos by (intro mult_nonneg_nonneg less_imp_le [OF Second_pos])
      (simp add: pos_imp_zdiv_nonneg_iff)
  then have "0 \<le> NewNumericDate t" by (simp add: NewNumericDate_def minus_mod_eq_div_mult)
  then show ?thesis
    using assms(2) NewNumericDate_le [of t] by (simp add: json_second_def NewNumericDate_whole)
qed

text \<open>The clock is far from the ends of the range.\<close>

definition clock_ok :: "TokenManager \<Rightarrow> time \<Rightarrow> bool" where
  "clock_ok tm now \<longleftrightarrow> 0 \<le> now \<and> 0 \<le> tm_ttl tm \<and> now + tm_ttl tm < 2 ^ 53 * Second"

lemma Issue_claims:
  assumes "jwt_ok L" "ascii uid" "clock_ok tm now"
  obtains tok where "Issue L tm now uid = Ok tok"
    "\<And>ms now'. jwt_parse L tok (tm_secret tm) ms now' =
       Ok (\<lparr>Subject = uid, IssuedAt = Some (NewNumericDate now),
            ExpiresAt = Some (NewNumericDate (now + tm_ttl tm))\<rparr>, True)
     \<longleftrightarrow> ''HS256'' \<in> set ms \<and> now' < NewNumericDate (now + tm_ttl tm)"
    "\<And>ms now' s'. \<not> (''HS256'' \<in> set ms \<and> now' < NewNumericDate (now + tm_ttl tm)) \<Longrightarrow>
       \<not> is_Ok (jwt_parse L tok s' ms now')"
proof -
  let ?c = "\<lparr>Subject = uid, IssuedAt = Some (NewNumericDate now),
    ExpiresAt = Some (NewNumericDate (now + tm_ttl tm))\<rparr>"
  have pc: "plain_claims ?c"
    using assms(2,3) by (simp add: plain_claims_def clock_ok_def json_second_NewNumericDate)
  have un: "unexpired ?c now' \<longleftrightarrow> now' < NewNumericDate (now + tm_ttl tm)" for now'
    by (simp add: unexpired_def)
  have "is_Ok (jwt_sign L ''HS256'' ?c (tm_secret tm))"
    using assms(1) unfolding jwt_ok_def by blast
  then obtain tok where tok: "jwt_sign L ''HS256'' ?c (tm_secret tm) = Ok tok"
    by (cases "jwt_sign L ''HS256'' ?c (tm_secret tm)") auto
  have good: "''HS256'' \<in> set ms \<and> unexpired ?c now' \<Longrightarrow> jwt_parse L tok (tm_secret tm) ms now' = Ok (?c, True)"
    for ms now' using assms(1) tok pc unfolding jwt_ok_def by blast
  have bad: "\<not> (''HS256'' \<in> set ms \<and> unexpired ?c now') \<Longrightarrow> \<not> is_Ok (jwt_parse L tok s' ms now')"
    for ms now' s' using assms(1) tok pc unfolding jwt_ok_def by blast
  show ?thesis
  proof (rule that [of tok])
    show "Issue L tm now uid = Ok tok" by (simp add: Issue_def signingMethod_def tok)
    show "jwt_parse L tok (tm_secret tm) ms now' = Ok (?c, True)
       \<longleftrightarrow> ''HS256'' \<in> set ms \<and> now' < NewNumericDate (now + tm_ttl tm)" for ms now'
      using good [of ms now'] bad [of ms now' "tm_secret tm"] un by fastforce
    show "\<not> (''HS256'' \<in> set ms \<and> now' < NewNumericDate (now + tm_ttl tm)) \<Longrightarrow>
        \<not> is_Ok (jwt_parse L tok s' ms now')" for ms now' s'
      using bad un by blast
  qed
qed

lemma VerifyToken_Ok_nonempty: "VerifyToken L tm now tok = Ok uid \<Longrightarrow> uid \<noteq> ''''"
  by (auto simp: VerifyToken_def split: outcome.splits if_splits prod.splits)

lemma VerifyToken_Fail: "VerifyToken L tm now tok = Fail e \<Longrightarrow> e = ErrInvalidToken"
  by (auto simp: VerifyToken_def split: outcome.splits if_splits prod.splits)

section \<open>A reference library\<close>

text \<open>
  A JWT library for the witnesses: a token is the algorithm (in hexadecimal), the two
  times in seconds and the subject, separated by dots.
\<close>

definition ref_sign :: "string \<Rightarrow> RegisteredClaims \<Rightarrow> bytes \<Rightarrow> string outcome" where
  "ref_sign alg c s = Ok (hex_EncodeToString (bytes_of_string alg) @ CHR ''.'' #
     show_nat (case ExpiresAt c of None \<Rightarrow> 0 | Some e \<Rightarrow> nat (e div Second)) @ CHR ''.'' #
     show_nat (case IssuedAt c of None \<Rightarrow> 0 | Some i \<Rightarrow> nat (i div Second)) @ CHR ''.'' # Subject c)"

definition ref_parse :: "string \<Rightarrow> bytes \<Rightarrow> string list \<Rightarrow> time \<Rightarrow> (RegisteredClaims \<times> bool) outcome" where
  "ref_parse t s ms now = (case split_on CHR ''.'' t of
     h # e # i # w # ws \<Rightarrow>
       (let ex = int (nat_of_digits e) * Second in
        if h \<in> set (map (\<lambda>m. hex_EncodeToString (bytes_of_string m)) ms) \<and> now < ex
        then Ok (\<lparr>Subject = join_with CHR ''.'' (w # ws), IssuedAt = Some (int (nat_of_digits i) * Second),
          ExpiresAt = Some ex\<rparr>, True)
        else Fail (ExternalError ''jwt''))
   | _ \<Rightarrow> Fail (ExternalError ''jwt''))"

definition ref_jwt :: jwt_lib where
  "ref_jwt = \<lparr>jwt_sign = ref_sign, jwt_parse = ref_parse\<rparr>"

lemma dot_not_in_hex [simp]: "CHR ''.'' \<notin> set (hex_EncodeToString b)"
proof -
  have "hex_char k \<noteq> CHR ''.''" if "k < 16" for k
  proof
    assume "hex_char k = CHR ''.''"
    then have "(of_char (hex_char k) :: nat) = 46" by simp
    then show False using that unfolding hex_char_def
      by (cases "k < 10") (simp_all add: of_char_of)
  qed
  moreover have "unat w div 16 < 16" for w :: byte
    using unat_byte_lt [of w] by linarith
  ultimately have h: "hex_char (unat w div 16) \<noteq> CHR ''.''" "hex_char (unat w mod 16) \<noteq> CHR ''.''"
    for w :: byte by simp_all
  show ?thesis by (induction b) (use h h [symmetric] in \<open>auto simp: hex_EncodeToString_def\<close>)
qed

lemma dot_not_in_show_nat [simp]: "CHR ''.'' \<notin> set (show_nat n)"
  using show_nat_digits [of "CHR ''.''" n] by (auto simp: is_digit_def)

lemma json_second_roundtrip: "json_second t \<Longrightarrow> 0 \<le> t div Second \<and> t div Second * Second = t"
  by (auto simp: json_second_def pos_imp_zdiv_nonneg_iff)

lemma ref_parse_sign:
  assumes "plain_claims c" "ref_sign alg c s = Ok t"
  shows "ref_parse t s' ms now =
    (if alg \<in> set ms \<and> unexpired c now then Ok (c, True) else Fail (ExternalError ''jwt''))"
proof -
  obtain i e where ie: "IssuedAt c = Some i" "ExpiresAt c = Some e" "json_second i" "json_second e"
    using assms(1) by (auto simp: plain_claims_def split: option.splits)
  obtain w ws where w: "split_on CHR ''.'' (Subject c) = w # ws"
    using split_on_nonempty [of "CHR ''.''" "Subject c"] by (cases "split_on CHR ''.'' (Subject c)") auto
  then have "join_with CHR ''.'' (w # ws) = Subject c" using join_with_split_on [of "CHR ''.''" "Subject c"] by simp
  moreover have "hex_EncodeToString (bytes_of_string alg) \<in> set (map (\<lambda>m. hex_EncodeToString (bytes_of_string m)) ms)
      \<longleftrightarrow> alg \<in> set ms"
    by (auto dest: hex_EncodeToString_inject)
  moreover have "split_on CHR ''.'' t = hex_EncodeToString (bytes_of_string alg)
      # show_nat (nat (e div Second)) # show_nat (nat (i div Second)) # w # ws"
    using assms(2) w unfolding ref_sign_def ie option.case
    by (auto simp: split_on_append simp del: split_on.simps)
  moreover have "c = \<lparr>Subject = Subject c, IssuedAt = Some i, ExpiresAt = Some e\<rparr>"
    using ie(1,2) by (cases c) simp
  ultimately show ?thesis
    using ie json_second_roundtrip [OF ie(3)] json_second_roundtrip [OF ie(4)]
    by (simp add: ref_parse_def Let_def unexpired_def nat_of_digits_show_nat)
qed

lemma ref_jwt_ok [simp]: "jwt_ok ref_jwt"
  unfolding jwt_ok_def ref_jwt_def
  by (auto simp: ref_parse_sign) (simp_all add: ref_sign_def ref_parse_def Let_def split: list.splits if_splits)

lemma jwt_parse_not_Panic: "jwt_ok L \<Longrightarrow> jwt_parse L t s ms now \<noteq> Panic"
  unfolding jwt_ok_def by blast

lemma issued_token_verifies:
  assumes "jwt_ok L" "ascii uid" "clock_ok tm now"
  shows "\<exists>tok. Issue L tm now uid = Ok tok \<and> (\<forall>now'. VerifyToken L tm now' tok =
    (if uid \<noteq> '''' \<and> now' < NewNumericDate (now + tm_ttl tm) then Ok uid else Fail ErrInvalidToken))"
proof -
  obtain tok where tok: "Issue L tm now uid = Ok tok"
    and good: "\<And>ms now'. jwt_parse L tok (tm_secret tm) ms now' =
       Ok (\<lparr>Subject = uid, IssuedAt = Some (NewNumericDate now),
            ExpiresAt = Some (NewNumericDate (now + tm_ttl tm))\<rparr>, True)
     \<longleftrightarrow> ''HS256'' \<in> set ms \<and> now' < NewNumericDate (now + tm_ttl tm)"
    and bad: "\<And>ms now' s'. \<not> (''HS256'' \<in> set ms \<and> now' < NewNumericDate (now + tm_ttl tm)) \<Longrightarrow>
       \<not> is_Ok (jwt_parse L tok s' ms now')"
    by (rule Issue_claims [OF assms(1-3)]) blast
  have "VerifyToken L tm now' tok =
    (if uid \<noteq> '''' \<and> now' < NewNumericDate (now + tm_ttl tm) then Ok uid else Fail ErrInvalidToken)" for now'
  proof (cases "now' < NewNumericDate (now + tm_ttl tm)")
    case True
    then show ?thesis
      using good [of "[signingMethod]" now'] by (simp add: VerifyToken_def signingMethod_def)
  next
    case False
    then have "\<not> is_Ok (jwt_parse L tok (tm_secret tm) [signingMethod] now')" by (intro bad) simp
    with False jwt_parse_not_Panic [OF assms(1)] show ?thesis
      by (auto simp: VerifyToken_def split: outcome.splits)
  qed
  with tok show ?thesis by blast
qed

section \<open>Properties\<close>

text \<open>
  C28: a token issued for a user is accepted, and yields that user, exactly until the whole
  second in which the lifetime ends; afterwards, or when the user id is empty, \<open>Verify\<close>
  answers the one error \<open>ErrInvalidToken\<close>.
\<close>

theorem Issue_Verify:
  assumes "jwt_ok L" "ascii uid" "clock_ok tm now"
  shows "\<exists>tok. Issue L tm now uid = Ok tok \<and> (\<forall>now'. VerifyToken L tm now' tok =
    (if uid \<noteq> '''' \<and> now' < NewNumericDate (now + tm_ttl tm) then Ok uid else Fail ErrInvalidToken))"
  by (rule issued_token_verifies [OF assms])

theorem Issue_Verify_witness:
  "\<exists>tok. Issue ref_jwt \<lparr>tm_secret = [1], tm_ttl = Hour\<rparr> 5 ''u1'' = Ok tok
    \<and> VerifyToken ref_jwt \<lparr>tm_secret = [1], tm_ttl = Hour\<rparr> (Hour - 1) tok = Ok ''u1''
    \<and> VerifyToken ref_jwt \<lparr>tm_secret = [1], tm_ttl = Hour\<rparr> Hour tok = Fail ErrInvalidToken"
proof -
  have d: "NewNumericDate (5 + Hour) = Hour"
    by (simp add: NewNumericDate_def Hour_def Minute_def Second_def)
  show ?thesis
    using Issue_Verify [OF ref_jwt_ok, of "''u1''" "\<lparr>tm_secret = [1], tm_ttl = Hour\<rparr>" 5] d
    by (auto simp: ascii_def clock_ok_def Hour_def Minute_def Second_def)
qed

end
