(* ===== verification/Pg_Store.thy ===== *)
theory Pg_Store
  imports Control_Prelude
begin

text \<open>
  The persistence layer (\<open>internal/store\<close>): the two tables the control plane uses, with the
  constraints of \<open>db/migrations\<close>, one definition per SQL statement, and the Go functions
  that run it and translate its errors. This theory has the database and the users table.
\<close>

section \<open>The database\<close>

text \<open>
  PostgreSQL is outside the repository. \<open>gen_uuid k\<close> is the \<open>k\<close>-th identifier
  \<open>uuidv7()\<close> makes, \<open>uuid_in\<close> reads a text as a UUID and gives its canonical spelling,
  \<open>text_ok\<close> says which byte strings a TEXT column takes, and \<open>query_fault n\<close> is the
  error the \<open>n\<close>-th statement sent fails with (a lost connection, a cancelled context), if
  any; a statement that fails has no effect.
\<close>

record pg =
  gen_uuid :: "nat \<Rightarrow> string"
  uuid_in :: "string \<Rightarrow> string option"
  text_ok :: "string \<Rightarrow> bool"
  query_fault :: "nat \<Rightarrow> goerror option"

definition pg_ok :: "pg \<Rightarrow> bool" where
  "pg_ok pg \<longleftrightarrow> inj (gen_uuid pg)
     \<and> (\<forall>k. uuid_in pg (gen_uuid pg k) = Some (gen_uuid pg k) \<and> gen_uuid pg k \<noteq> '''' \<and> ascii (gen_uuid pg k))
     \<and> (\<forall>s u. uuid_in pg s = Some u \<longrightarrow> uuid_in pg u = Some u)"

datatype sql_error =
    PgError string       \<comment> \<open>an SQLSTATE\<close>
  | NoRows               \<comment> \<open>\<open>pgx.ErrNoRows\<close>\<close>
  | DriverError goerror

fun sql_goerror :: "sql_error \<Rightarrow> goerror" where
  "sql_goerror (PgError code) = ExternalError code"
| "sql_goerror NoRows = ExternalError ''no rows in result set''"
| "sql_goerror (DriverError e) = e"

definition uniqueViolation :: string where "uniqueViolation = ''23505''"
definition foreignKeyViolation :: string where "foreignKeyViolation = ''23503''"
definition invalidText :: string where "invalidText = ''22P02''"
definition untranslatable :: string where "untranslatable = ''22021''"

lemmas sqlstate_defs = uniqueViolation_def foreignKeyViolation_def invalidText_def untranslatable_def

record User =
  u_ID :: string
  u_Username :: string
  u_PasswordHash :: string
  u_KDFSalt :: bytes
  u_CreatedAt :: time

text \<open>A row of \<open>steam_accounts\<close>; an option is a nullable column.\<close>

record account_row =
  r_id :: string
  r_user_id :: string
  r_steam_id :: "string option"
  r_steam_username :: "string option"
  r_enc_refresh_token :: "bytes option"
  r_enc_refresh_nonce :: "bytes option"
  r_refresh_token_expires :: "time option"
  r_created_at :: time

record Db =
  users :: "User list"
  steam_accounts :: "account_row list"
  uuids_used :: nat
  queries :: nat

definition empty_db :: Db where
  "empty_db = \<lparr>users = [], steam_accounts = [], uuids_used = 0, queries = 0\<rparr>"

text \<open>What the schema guarantees: the unique columns, the foreign key, and fresh ids.\<close>

definition used_uuid :: "pg \<Rightarrow> Db \<Rightarrow> string \<Rightarrow> bool" where
  "used_uuid pg db i \<longleftrightarrow> (\<exists>k < uuids_used db. i = gen_uuid pg k)"

definition db_inv :: "pg \<Rightarrow> Db \<Rightarrow> bool" where
  "db_inv pg db \<longleftrightarrow> pg_ok pg
     \<and> distinct (map u_Username (users db)) \<and> distinct (map u_ID (users db))
     \<and> (\<forall>u \<in> set (users db). used_uuid pg db (u_ID u))
     \<and> distinct (map r_user_id (steam_accounts db)) \<and> distinct (map r_id (steam_accounts db))
     \<and> (\<forall>a \<in> set (steam_accounts db). used_uuid pg db (r_id a) \<and> r_user_id a \<in> u_ID ` set (users db))"

lemma empty_db_inv: "pg_ok pg \<Longrightarrow> db_inv pg empty_db"
  by (simp add: db_inv_def empty_db_def)

lemma db_inv_pg_ok: "db_inv pg db \<Longrightarrow> pg_ok pg"
  by (simp add: db_inv_def)

lemma next_uuid_fresh: "pg_ok pg \<Longrightarrow> used_uuid pg db i \<Longrightarrow> i \<noteq> gen_uuid pg (uuids_used db)"
  by (auto simp: used_uuid_def pg_ok_def inj_def)

lemma used_uuid_queries [simp]: "used_uuid pg (db\<lparr>queries := n\<rparr>) i = used_uuid pg db i"
  by (simp add: used_uuid_def)

lemma used_uuid_canonical: "pg_ok pg \<Longrightarrow> used_uuid pg db i \<Longrightarrow> uuid_in pg i = Some i"
  by (auto simp: used_uuid_def pg_ok_def)

lemma db_inv_queries [simp]: "db_inv pg (db\<lparr>queries := n\<rparr>) = db_inv pg db"
  by (simp add: db_inv_def)

section \<open>The users table\<close>

definition ErrUsernameTaken :: goerror where
  "ErrUsernameTaken = ErrorString ''store: username already taken''"

definition ErrUserNotFound :: goerror where
  "ErrUserNotFound = ErrorString ''store: user not found''"

text \<open>\<open>INSERT INTO users ... RETURNING id\<close> and \<open>SELECT ... WHERE username = $1\<close>.\<close>

definition insert_user :: "pg \<Rightarrow> time \<Rightarrow> string \<Rightarrow> string \<Rightarrow> bytes \<Rightarrow> Db \<Rightarrow> (sql_error + string) \<times> Db" where
  "insert_user pg now username passwordHash kdfSalt db =
     (let db' = db\<lparr>queries := Suc (queries db)\<rparr>; i = gen_uuid pg (uuids_used db) in
      case query_fault pg (queries db) of
        Some e \<Rightarrow> (Inl (DriverError e), db')
      | None \<Rightarrow>
          if \<not> (text_ok pg username \<and> text_ok pg passwordHash) then (Inl (PgError untranslatable), db')
          else if list_ex (\<lambda>u. u_Username u = username) (users db) then (Inl (PgError uniqueViolation), db')
          else (Inr i, db'\<lparr>uuids_used := Suc (uuids_used db),
            users := users db @ [\<lparr>u_ID = i, u_Username = username, u_PasswordHash = passwordHash,
              u_KDFSalt = kdfSalt, u_CreatedAt = now\<rparr>]\<rparr>))"

definition select_user :: "pg \<Rightarrow> string \<Rightarrow> Db \<Rightarrow> (sql_error + User) \<times> Db" where
  "select_user pg username db =
     (let db' = db\<lparr>queries := Suc (queries db)\<rparr> in
      case query_fault pg (queries db) of
        Some e \<Rightarrow> (Inl (DriverError e), db')
      | None \<Rightarrow>
          if \<not> text_ok pg username then (Inl (PgError untranslatable), db')
          else (case find (\<lambda>u. u_Username u = username) (users db) of
             None \<Rightarrow> (Inl NoRows, db') | Some u \<Rightarrow> (Inr u, db')))"

definition UserStore_Create :: "pg \<Rightarrow> time \<Rightarrow> string \<Rightarrow> string \<Rightarrow> bytes \<Rightarrow> Db \<Rightarrow> string outcome \<times> Db" where
  "UserStore_Create pg now username passwordHash kdfSalt db =
     (case insert_user pg now username passwordHash kdfSalt db of
        (Inr i, db') \<Rightarrow> (Ok i, db')
      | (Inl err, db') \<Rightarrow>
          if err = PgError uniqueViolation then (Fail ErrUsernameTaken, db')
          else (Fail (WrapError ''store: create user'' (sql_goerror err)), db'))"

definition UserStore_GetByUsername :: "pg \<Rightarrow> string \<Rightarrow> Db \<Rightarrow> User outcome \<times> Db" where
  "UserStore_GetByUsername pg username db =
     (case select_user pg username db of
        (Inr u, db') \<Rightarrow> (Ok u, db')
      | (Inl err, db') \<Rightarrow>
          if err = NoRows then (Fail ErrUserNotFound, db')
          else (Fail (WrapError ''store: get user'' (sql_goerror err)), db'))"

text \<open>The users table as a finite map from user names.\<close>

definition users_of :: "Db \<Rightarrow> string \<rightharpoonup> User" where
  "users_of db n = find (\<lambda>u. u_Username u = n) (users db)"

section \<open>The contract of a user store\<close>

text \<open>
  The Go interface \<open>api.UserStore\<close>: what the handlers call, with the laws they rely on.
\<close>

locale user_store =
  fixes create :: "time \<Rightarrow> string \<Rightarrow> string \<Rightarrow> bytes \<Rightarrow> 'd \<Rightarrow> string outcome \<times> 'd"
    and lookup :: "string \<Rightarrow> 'd \<Rightarrow> User outcome \<times> 'd"
    and inv :: "'d \<Rightarrow> bool"
    and table :: "'d \<Rightarrow> string \<rightharpoonup> User"
  assumes create_inv: "inv d \<Longrightarrow> create now n h s d = (r, d') \<Longrightarrow> inv d'"
    and create_Ok: "inv d \<Longrightarrow> create now n h s d = (Ok i, d') \<Longrightarrow>
      table d n = None \<and> (\<forall>m u. table d m = Some u \<longrightarrow> u_ID u \<noteq> i) \<and>
      table d' = (table d)(n \<mapsto> \<lparr>u_ID = i, u_Username = n, u_PasswordHash = h, u_KDFSalt = s, u_CreatedAt = now\<rparr>)"
    and create_other: "create now n h s d = (r, d') \<Longrightarrow> \<not> is_Ok r \<Longrightarrow> table d' = table d"
    and create_taken: "create now n h s d = (Fail ErrUsernameTaken, d') \<Longrightarrow> table d n \<noteq> None"
    and create_no_panic: "create now n h s d \<noteq> (Panic, d')"
    and lookup_table: "lookup n d = (q, d') \<Longrightarrow> table d' = table d"
    and lookup_inv: "inv d \<Longrightarrow> lookup n d = (q, d') \<Longrightarrow> inv d'"
    and lookup_Ok: "lookup n d = (Ok u, d') \<Longrightarrow> table d n = Some u"
    and lookup_missing: "lookup n d = (Fail ErrUserNotFound, d') \<Longrightarrow> table d n = None"
    and lookup_no_panic: "lookup n d \<noteq> (Panic, d')"
begin

lemma create_then_lookup:
  assumes "inv d" "create now n h s d = (Ok i, d')" "lookup n d' = (Ok u, d'')"
  shows "u = \<lparr>u_ID = i, u_Username = n, u_PasswordHash = h, u_KDFSalt = s, u_CreatedAt = now\<rparr>"
  using create_Ok [OF assms(1,2)] lookup_Ok [OF assms(3)] by simp

lemma create_keeps_others:
  assumes "inv d" "create now n h s d = (r, d')" "m \<noteq> n"
  shows "table d' m = table d m"
  using create_Ok [OF assms(1)] create_other [of now n h s d] assms(2,3)
  by (cases r) auto

lemma create_twice:
  assumes "inv d" "create now n h s d = (Ok i, d')"
  shows "create now' n h' s' d' \<noteq> (Ok j, d'')"
  using create_Ok [OF assms] create_Ok [OF create_inv [OF assms], of now' n h' s' j d'']
  by auto

end

lemma Create_Ok_form:
  assumes "UserStore_Create pg now n h s db = (Ok i, db')"
  shows "\<not> list_ex (\<lambda>u. u_Username u = n) (users db)" "i = gen_uuid pg (uuids_used db)"
    "db' = db\<lparr>queries := Suc (queries db), uuids_used := Suc (uuids_used db),
      users := users db @ [\<lparr>u_ID = i, u_Username = n, u_PasswordHash = h, u_KDFSalt = s, u_CreatedAt = now\<rparr>]\<rparr>"
  using assms
  by (auto simp: UserStore_Create_def insert_user_def Let_def split: option.splits if_splits sum.splits)

lemma Create_other_form:
  "UserStore_Create pg now n h s db = (r, db') \<Longrightarrow> \<not> is_Ok r \<Longrightarrow> db' = db\<lparr>queries := Suc (queries db)\<rparr>"
  by (auto simp: UserStore_Create_def insert_user_def Let_def split: option.splits if_splits sum.splits)

lemma GetByUsername_db:
  "UserStore_GetByUsername pg n db = (r, db') \<Longrightarrow> db' = db\<lparr>queries := Suc (queries db)\<rparr>"
  by (auto simp: UserStore_GetByUsername_def select_user_def Let_def
      split: option.splits if_splits sum.splits)

lemma used_uuid_mono: "used_uuid pg db i \<Longrightarrow> uuids_used db \<le> uuids_used db' \<Longrightarrow> used_uuid pg db' i"
  unfolding used_uuid_def by (metis order_less_le_trans)

lemma Create_inv:
  assumes inv: "db_inv pg db" and c: "UserStore_Create pg now n h s db = (r, db')"
  shows "db_inv pg db'"
proof (cases "is_Ok r")
  case True
  then obtain i where "r = Ok i" by (cases r) auto
  note form = Create_Ok_form [OF c [unfolded this]]
  have "\<forall>u \<in> set (users db). u_ID u \<noteq> i"
    using inv next_uuid_fresh form(2) unfolding db_inv_def by blast
  moreover have "n \<notin> u_Username ` set (users db)"
    using form(1) by (auto simp: list_ex_iff)
  moreover have "used_uuid pg db' i" using form(2,3) by (auto simp: used_uuid_def)
  ultimately show ?thesis
    using inv form(3) by (auto simp: db_inv_def intro: used_uuid_mono)
next
  case False
  from Create_other_form [OF c this] inv show ?thesis by simp
qed

lemma GetByUsername_inv:
  "db_inv pg db \<Longrightarrow> UserStore_GetByUsername pg n db = (r, db') \<Longrightarrow> db_inv pg db'"
  by (auto dest: GetByUsername_db)

lemma users_of_queries [simp]: "users_of (db\<lparr>queries := n\<rparr>) = users_of db"
  by (rule ext) (simp add: users_of_def)

lemma find_append_new:
  "find P (xs @ [x]) = (case find P xs of None \<Rightarrow> if P x then Some x else None | Some y \<Rightarrow> Some y)"
  by (induction xs) auto

lemma find_None_list_ex: "find P xs = None \<longleftrightarrow> \<not> list_ex P xs"
  by (auto simp: find_None_iff list_ex_iff)

lemma Create_Ok_table:
  assumes inv: "db_inv pg db" and c: "UserStore_Create pg now n h s db = (Ok i, db')"
  shows "users_of db n = None \<and> (\<forall>m u. users_of db m = Some u \<longrightarrow> u_ID u \<noteq> i) \<and>
    users_of db' = (users_of db)(n \<mapsto> \<lparr>u_ID = i, u_Username = n, u_PasswordHash = h, u_KDFSalt = s, u_CreatedAt = now\<rparr>)"
proof (intro conjI allI impI)
  note form = Create_Ok_form [OF c]
  show n: "users_of db n = None" using form(1) by (simp add: users_of_def find_None_list_ex)
  show "u_ID u \<noteq> i" if "users_of db m = Some u" for m u
  proof -
    have "u \<in> set (users db)" using that by (auto simp: users_of_def find_Some_iff)
    then show ?thesis using inv next_uuid_fresh form(2) unfolding db_inv_def by blast
  qed
  show "users_of db' = (users_of db)(n \<mapsto> \<lparr>u_ID = i, u_Username = n, u_PasswordHash = h, u_KDFSalt = s, u_CreatedAt = now\<rparr>)"
    using n form(3) by (auto simp: fun_eq_iff users_of_def find_append_new split: option.splits)
qed

interpretation ustore: user_store "UserStore_Create pg" "UserStore_GetByUsername pg" "db_inv pg" users_of
  for pg
proof (unfold_locales, goal_cases)
  case 1
  then show ?case by (rule Create_inv)
next
  case 2
  then show ?case by (rule Create_Ok_table)
next
  case 3
  then show ?case by (auto dest: Create_other_form)
next
  case 4
  then show ?case
    by (auto simp: UserStore_Create_def insert_user_def Let_def users_of_def find_None_list_ex
        ErrUsernameTaken_def sqlstate_defs split: option.splits if_splits sum.splits)
next
  case 5
  then show ?case
    by (simp add: UserStore_Create_def insert_user_def Let_def split: option.splits if_splits sum.splits)
next
  case 6
  then show ?case by (auto dest: GetByUsername_db)
next
  case 7
  then show ?case by (rule GetByUsername_inv)
next
  case 8
  then show ?case
    by (auto simp: UserStore_GetByUsername_def select_user_def Let_def users_of_def
        split: option.splits if_splits sum.splits)
next
  case 9
  then show ?case
    by (auto simp: UserStore_GetByUsername_def select_user_def Let_def users_of_def ErrUserNotFound_def
        split: option.splits if_splits sum.splits)
next
  case 10
  then show ?case
    by (simp add: UserStore_GetByUsername_def select_user_def Let_def split: option.splits if_splits sum.splits)
qed

section \<open>A reference engine\<close>

text \<open>An engine without faults for the witnesses: ids are decimal numbers.\<close>

definition ref_pg :: pg where
  "ref_pg = \<lparr>gen_uuid = (\<lambda>k. CHR ''u'' # replicate k CHR ''i''),
     uuid_in = (\<lambda>s. if (case s of [] \<Rightarrow> False | c # cs \<Rightarrow> c = CHR ''u'' \<and> list_all (\<lambda>d. d = CHR ''i'') cs)
       then Some s else None),
     text_ok = (\<lambda>s. True), query_fault = (\<lambda>n. None)\<rparr>"

lemma ref_pg_ok [simp]: "pg_ok ref_pg"
proof -
  have "inj (gen_uuid ref_pg)"
    by (auto simp: inj_def ref_pg_def)
  then show ?thesis
    by (auto simp: pg_ok_def ref_pg_def ascii_def list_all_iff split: if_splits)
qed

end
