(* ===== verification/Steam_Account_Store.thy ===== *)
theory Steam_Account_Store
  imports Pg_Store
begin

text \<open>
  The \<open>steam_accounts\<close> table (\<open>internal/store/steam_accounts.go\<close>): linking, the backfill of
  the refresh token and of the Steam id, deletion and lookup, each with its SQL statement
  and the translation of its errors; the contract \<open>steam_account_store\<close> of the Go
  interface of the same name, and its interpretation on the table.
\<close>

section \<open>Operations\<close>

definition ErrSteamAccountExists :: goerror where
  "ErrSteamAccountExists = ErrorString ''store: user already has a linked steam account''"

definition ErrSteamAccountNotFound :: goerror where
  "ErrSteamAccountNotFound = ErrorString ''store: steam account not found''"

text \<open>The Go struct: a NULL id or name reads as the empty string, a NULL slice as nil.\<close>

record SteamAccount =
  sa_ID :: string
  sa_UserID :: string
  sa_SteamID :: string
  sa_SteamUsername :: string
  sa_EncRefreshToken :: bytes
  sa_EncRefreshNonce :: bytes
  sa_RefreshTokenExpires :: "time option"
  sa_CreatedAt :: time

text \<open>A statement sent to the engine: it fails as a whole, or runs on the tables.\<close>

definition run_sql :: "pg \<Rightarrow> (Db \<Rightarrow> (sql_error + 'a) \<times> Db) \<Rightarrow> Db \<Rightarrow> (sql_error + 'a) \<times> Db" where
  "run_sql pg stmt db =
     (let db' = db\<lparr>queries := Suc (queries db)\<rparr> in
      case query_fault pg (queries db) of Some e \<Rightarrow> (Inl (DriverError e), db') | None \<Rightarrow> stmt db')"

definition insert_account :: "pg \<Rightarrow> time \<Rightarrow> string \<Rightarrow> string option \<Rightarrow> Db \<Rightarrow> (sql_error + string) \<times> Db" where
  "insert_account pg now userID username db =
     (let i = gen_uuid pg (uuids_used db) in
      case uuid_in pg userID of
        None \<Rightarrow> (Inl (PgError invalidText), db)
      | Some u \<Rightarrow>
          if (case username of None \<Rightarrow> False | Some s \<Rightarrow> \<not> text_ok pg s) then (Inl (PgError untranslatable), db)
          else if list_ex (\<lambda>a. r_user_id a = u) (steam_accounts db) then (Inl (PgError uniqueViolation), db)
          else if \<not> list_ex (\<lambda>v. u_ID v = u) (users db) then (Inl (PgError foreignKeyViolation), db)
          else (Inr i, db\<lparr>uuids_used := Suc (uuids_used db),
            steam_accounts := steam_accounts db @ [\<lparr>r_id = i, r_user_id = u, r_steam_id = None,
              r_steam_username = username, r_enc_refresh_token = None, r_enc_refresh_nonce = None,
              r_refresh_token_expires = None, r_created_at = now\<rparr>]\<rparr>))"

text \<open>\<open>UPDATE ... WHERE id = $1\<close>: the number of rows changed.\<close>

definition update_accounts :: "pg \<Rightarrow> string \<Rightarrow> string list \<Rightarrow> (account_row \<Rightarrow> account_row) \<Rightarrow> Db \<Rightarrow> (sql_error + nat) \<times> Db" where
  "update_accounts pg accID texts f db =
     (case uuid_in pg accID of
        None \<Rightarrow> (Inl (PgError invalidText), db)
      | Some i \<Rightarrow>
          if \<not> list_all (text_ok pg) texts then (Inl (PgError untranslatable), db)
          else (Inr (length (filter (\<lambda>a. r_id a = i) (steam_accounts db))),
            db\<lparr>steam_accounts := map (\<lambda>a. if r_id a = i then f a else a) (steam_accounts db)\<rparr>))"

text \<open>\<open>DELETE ... WHERE id = $1 AND user_id = $2\<close>.\<close>

definition delete_accounts :: "pg \<Rightarrow> string \<Rightarrow> string \<Rightarrow> Db \<Rightarrow> (sql_error + nat) \<times> Db" where
  "delete_accounts pg accID userID db =
     (case (uuid_in pg accID, uuid_in pg userID) of
        (Some i, Some u) \<Rightarrow>
          (Inr (length (filter (\<lambda>a. r_id a = i \<and> r_user_id a = u) (steam_accounts db))),
           db\<lparr>steam_accounts := filter (\<lambda>a. \<not> (r_id a = i \<and> r_user_id a = u)) (steam_accounts db)\<rparr>)
      | _ \<Rightarrow> (Inl (PgError invalidText), db))"

text \<open>\<open>SELECT ... WHERE user_id = $1\<close>, scanned into the struct.\<close>

fun scan_account :: "account_row \<Rightarrow> SteamAccount" where
  "scan_account a = \<lparr>sa_ID = r_id a, sa_UserID = r_user_id a,
     sa_SteamID = (case r_steam_id a of None \<Rightarrow> '''' | Some s \<Rightarrow> s),
     sa_SteamUsername = (case r_steam_username a of None \<Rightarrow> '''' | Some s \<Rightarrow> s),
     sa_EncRefreshToken = (case r_enc_refresh_token a of None \<Rightarrow> [] | Some b \<Rightarrow> b),
     sa_EncRefreshNonce = (case r_enc_refresh_nonce a of None \<Rightarrow> [] | Some b \<Rightarrow> b),
     sa_RefreshTokenExpires = r_refresh_token_expires a, sa_CreatedAt = r_created_at a\<rparr>"

definition select_account :: "pg \<Rightarrow> string \<Rightarrow> Db \<Rightarrow> (sql_error + SteamAccount) \<times> Db" where
  "select_account pg userID db =
     (case uuid_in pg userID of
        None \<Rightarrow> (Inl (PgError invalidText), db)
      | Some u \<Rightarrow>
          (case find (\<lambda>a. r_user_id a = u) (steam_accounts db) of
             None \<Rightarrow> (Inl NoRows, db) | Some a \<Rightarrow> (Inr (scan_account a), db)))"

definition SteamAccountStore_Create :: "pg \<Rightarrow> time \<Rightarrow> string \<Rightarrow> string \<Rightarrow> Db \<Rightarrow> string outcome \<times> Db" where
  "SteamAccountStore_Create pg now userID steamUsername db =
     (let username = (if steamUsername \<noteq> '''' then Some steamUsername else None) in
      case run_sql pg (insert_account pg now userID username) db of
        (Inr i, db') \<Rightarrow> (Ok i, db')
      | (Inl err, db') \<Rightarrow>
          if err = PgError uniqueViolation then (Fail ErrSteamAccountExists, db')
          else (Fail (WrapError ''store: create steam account'' (sql_goerror err)), db'))"

text \<open>\<open>Exec\<close> of an update or a delete, with the row count checked.\<close>

definition exec_one :: "string \<Rightarrow> (sql_error + nat) \<times> Db \<Rightarrow> unit outcome \<times> Db" where
  "exec_one what res =
     (case res of
        (Inl err, db') \<Rightarrow> (Fail (WrapError what (sql_goerror err)), db')
      | (Inr n, db') \<Rightarrow> if n = 0 then (Fail ErrSteamAccountNotFound, db') else (Ok (), db'))"

text \<open>\<open>COALESCE(NULLIF($6, ''), steam_username)\<close>.\<close>

definition coalesce_nullif :: "string \<Rightarrow> string option \<Rightarrow> string option" where
  "coalesce_nullif s old = (if s = '''' then old else Some s)"

definition SaveRefreshToken :: "pg \<Rightarrow> string \<Rightarrow> string \<Rightarrow> string \<Rightarrow> bytes \<Rightarrow> bytes \<Rightarrow> time option \<Rightarrow> Db \<Rightarrow> unit outcome \<times> Db" where
  "SaveRefreshToken pg accID steamID steamUsername encToken encNonce expires db =
     exec_one ''store: save refresh token''
       (run_sql pg (update_accounts pg accID [steamID, steamUsername]
         (\<lambda>a. a\<lparr>r_enc_refresh_token := Some encToken, r_enc_refresh_nonce := Some encNonce,
            r_refresh_token_expires := expires, r_steam_id := Some steamID,
            r_steam_username := coalesce_nullif steamUsername (r_steam_username a)\<rparr>)) db)"

definition SetSteamID :: "pg \<Rightarrow> string \<Rightarrow> string \<Rightarrow> Db \<Rightarrow> unit outcome \<times> Db" where
  "SetSteamID pg accID steamID db =
     exec_one ''store: set steam_id''
       (run_sql pg (update_accounts pg accID [steamID] (\<lambda>a. a\<lparr>r_steam_id := Some steamID\<rparr>)) db)"

definition SteamAccountStore_Delete :: "pg \<Rightarrow> string \<Rightarrow> string \<Rightarrow> Db \<Rightarrow> unit outcome \<times> Db" where
  "SteamAccountStore_Delete pg userID accID db =
     exec_one ''store: delete steam account'' (run_sql pg (delete_accounts pg accID userID) db)"

definition GetByUserID :: "pg \<Rightarrow> string \<Rightarrow> Db \<Rightarrow> SteamAccount outcome \<times> Db" where
  "GetByUserID pg userID db =
     (case run_sql pg (select_account pg userID) db of
        (Inr a, db') \<Rightarrow> (Ok a, db')
      | (Inl err, db') \<Rightarrow>
          if err = NoRows then (Fail ErrSteamAccountNotFound, db')
          else (Fail (WrapError ''store: get steam account'' (sql_goerror err)), db'))"

section \<open>The table as a map from users\<close>

definition account_of :: "Db \<Rightarrow> string \<rightharpoonup> account_row" where
  "account_of db u = find (\<lambda>a. r_user_id a = u) (steam_accounts db)"

lemma find_map_same:
  assumes "\<And>a. k (f a) = k a"
  shows "find (\<lambda>a. k a = u) (map f xs) = map_option f (find (\<lambda>a. k a = u) xs)"
  by (induction xs) (auto simp: assms)

lemma find_filter_other:
  assumes "distinct (map k xs)"
  shows "find (\<lambda>a. k a = u) (filter P xs) =
    (case find (\<lambda>a. k a = u) xs of None \<Rightarrow> None | Some a \<Rightarrow> if P a then Some a else None)"
  using assms
proof (induction xs)
  case Nil
  show ?case by simp
next
  case (Cons x xs)
  show ?case
  proof (cases "k x = u")
    case True
    then have "u \<notin> k ` set xs" using Cons.prems by simp
    then have "find (\<lambda>a. k a = u) xs = None" by (auto simp: find_None_iff)
    with True Cons show ?thesis by simp
  next
    case False
    with Cons show ?thesis by simp
  qed
qed

lemma find_key:
  "distinct (map k xs) \<Longrightarrow> find (\<lambda>a. k a = u) xs = Some a \<longleftrightarrow> a \<in> set xs \<and> k a = u"
  by (induction xs) (auto intro: imageI)

lemma account_of_queries [simp]: "account_of (db\<lparr>queries := n\<rparr>) = account_of db"
  by (rule ext) (simp add: account_of_def)

lemma account_of_user: "account_of db u = Some a \<Longrightarrow> r_user_id a = u \<and> a \<in> set (steam_accounts db)"
  by (auto simp: account_of_def find_Some_iff)

lemma account_of_mem:
  assumes "db_inv pg db" "a \<in> set (steam_accounts db)"
  shows "account_of db (r_user_id a) = Some a"
  using assms by (simp add: account_of_def db_inv_def find_key)

text \<open>The row with a given id, which is unique under the invariant.\<close>

definition account_by_id :: "Db \<Rightarrow> string \<rightharpoonup> account_row" where
  "account_by_id db i = find (\<lambda>a. r_id a = i) (steam_accounts db)"

lemma account_by_id_mem:
  "db_inv pg db \<Longrightarrow> account_by_id db i = Some a \<longleftrightarrow> a \<in> set (steam_accounts db) \<and> r_id a = i"
  by (simp add: account_by_id_def db_inv_def find_key)

section \<open>What each operation does to the database\<close>

lemma Create_account_Ok:
  assumes "SteamAccountStore_Create pg now uid name db = (Ok i, db')"
  obtains u where "uuid_in pg uid = Some u" "i = gen_uuid pg (uuids_used db)"
    "account_of db u = None" "u \<in> u_ID ` set (users db)"
    "db' = db\<lparr>queries := Suc (queries db), uuids_used := Suc (uuids_used db),
      steam_accounts := steam_accounts db @ [\<lparr>r_id = i, r_user_id = u, r_steam_id = None,
        r_steam_username = (if name = '''' then None else Some name), r_enc_refresh_token = None,
        r_enc_refresh_nonce = None, r_refresh_token_expires = None, r_created_at = now\<rparr>]\<rparr>"
proof -
  from assms obtain u where "uuid_in pg uid = Some u"
    and r: "\<not> list_ex (\<lambda>a. r_user_id a = u) (steam_accounts db)" "list_ex (\<lambda>v. u_ID v = u) (users db)"
      "i = gen_uuid pg (uuids_used db)"
      "db' = db\<lparr>queries := Suc (queries db), uuids_used := Suc (uuids_used db),
        steam_accounts := steam_accounts db @ [\<lparr>r_id = i, r_user_id = u, r_steam_id = None,
          r_steam_username = (if name = '''' then None else Some name), r_enc_refresh_token = None,
          r_enc_refresh_nonce = None, r_refresh_token_expires = None, r_created_at = now\<rparr>]\<rparr>"
    by (auto simp: SteamAccountStore_Create_def run_sql_def insert_account_def Let_def
        split: option.splits if_splits sum.splits prod.splits)
  moreover have "account_of db u = None"
    using r(1) by (simp add: account_of_def find_None_list_ex)
  moreover have "u \<in> u_ID ` set (users db)" using r(2) by (auto simp: list_ex_iff)
  ultimately show ?thesis using that by blast
qed

lemma Create_account_other:
  "SteamAccountStore_Create pg now uid name db = (r, db') \<Longrightarrow> \<not> is_Ok r \<Longrightarrow>
    db' = db\<lparr>queries := Suc (queries db)\<rparr>"
  by (auto simp: SteamAccountStore_Create_def run_sql_def insert_account_def Let_def
      split: option.splits if_splits sum.splits prod.splits)

lemma GetByUserID_db: "GetByUserID pg uid db = (r, db') \<Longrightarrow> db' = db\<lparr>queries := Suc (queries db)\<rparr>"
  by (auto simp: GetByUserID_def run_sql_def select_account_def Let_def
      split: option.splits if_splits sum.splits prod.splits)

lemma GetByUserID_Ok:
  assumes "GetByUserID pg uid db = (Ok a, db')"
  obtains u row where "uuid_in pg uid = Some u" "account_of db u = Some row" "a = scan_account row"
  using assms
  by (auto simp: GetByUserID_def run_sql_def select_account_def Let_def account_of_def
      split: option.splits if_splits sum.splits prod.splits)

lemma GetByUserID_NotFound:
  assumes "GetByUserID pg uid db = (Fail ErrSteamAccountNotFound, db')"
  obtains u where "uuid_in pg uid = Some u" "account_of db u = None"
  using assms
  by (auto simp: GetByUserID_def run_sql_def select_account_def Let_def account_of_def
      ErrSteamAccountNotFound_def split: option.splits if_splits sum.splits prod.splits)

lemma GetByUserID_no_fault:
  "query_fault pg (queries db) = None \<Longrightarrow> uuid_in pg uid = Some u \<Longrightarrow>
    GetByUserID pg uid db = ((case account_of db u of None \<Rightarrow> Fail ErrSteamAccountNotFound
       | Some row \<Rightarrow> Ok (scan_account row)), db\<lparr>queries := Suc (queries db)\<rparr>)"
  by (auto simp: GetByUserID_def run_sql_def select_account_def Let_def account_of_def split: option.splits)

text \<open>Both updates: either one row changed, or no row at all.\<close>

lemma exec_update_Ok:
  assumes "exec_one w (run_sql pg (update_accounts pg accID texts f) db) = (Ok x, db')"
  obtains i a where "uuid_in pg accID = Some i" "a \<in> set (steam_accounts db)" "r_id a = i"
    "db' = db\<lparr>queries := Suc (queries db),
      steam_accounts := map (\<lambda>a. if r_id a = i then f a else a) (steam_accounts db)\<rparr>"
proof -
  from assms obtain i where i: "uuid_in pg accID = Some i"
      "filter (\<lambda>a. r_id a = i) (steam_accounts db) \<noteq> []"
      "db' = db\<lparr>queries := Suc (queries db),
        steam_accounts := map (\<lambda>a. if r_id a = i then f a else a) (steam_accounts db)\<rparr>"
    by (auto simp: exec_one_def run_sql_def update_accounts_def Let_def
        split: option.splits if_splits sum.splits prod.splits)
  then obtain a where "a \<in> set (steam_accounts db)" "r_id a = i"
    by (auto simp: filter_empty_conv)
  with i show ?thesis using that by blast
qed

lemma map_if_none: "(\<And>a. a \<in> set xs \<Longrightarrow> \<not> P a) \<Longrightarrow> map (\<lambda>a. if P a then f a else a) xs = xs"
  by (induction xs) auto

lemma exec_update_other:
  assumes "exec_one w (run_sql pg (update_accounts pg accID texts f) db) = (r, db')" "\<not> is_Ok r"
  shows "db' = db\<lparr>queries := Suc (queries db)\<rparr>"
  using assms
  by (auto simp: exec_one_def run_sql_def update_accounts_def Let_def filter_empty_conv map_if_none
      split: option.splits if_splits sum.splits prod.splits)

lemma Delete_account_Ok:
  assumes "SteamAccountStore_Delete pg uid accID db = (Ok x, db')"
  obtains u i a where "uuid_in pg uid = Some u" "uuid_in pg accID = Some i"
    "a \<in> set (steam_accounts db)" "r_id a = i" "r_user_id a = u"
    "db' = db\<lparr>queries := Suc (queries db),
      steam_accounts := filter (\<lambda>a. \<not> (r_id a = i \<and> r_user_id a = u)) (steam_accounts db)\<rparr>"
proof -
  from assms obtain u i where i: "uuid_in pg uid = Some u" "uuid_in pg accID = Some i"
      "filter (\<lambda>a. r_id a = i \<and> r_user_id a = u) (steam_accounts db) \<noteq> []"
      "db' = db\<lparr>queries := Suc (queries db),
        steam_accounts := filter (\<lambda>a. \<not> (r_id a = i \<and> r_user_id a = u)) (steam_accounts db)\<rparr>"
    by (auto simp: SteamAccountStore_Delete_def exec_one_def run_sql_def delete_accounts_def Let_def
        split: option.splits if_splits sum.splits prod.splits)
  then obtain a where "a \<in> set (steam_accounts db)" "r_id a = i" "r_user_id a = u"
    by (auto simp: filter_empty_conv)
  with i show ?thesis using that by blast
qed

lemma Delete_account_other:
  assumes "SteamAccountStore_Delete pg uid accID db = (r, db')" "\<not> is_Ok r"
  shows "db' = db\<lparr>queries := Suc (queries db)\<rparr>"
proof -
  have "(\<And>a. a \<in> set xs \<Longrightarrow> P a) \<Longrightarrow> filter P xs = xs" for P and xs :: "account_row list"
    by (simp add: filter_id_conv)
  with assms show ?thesis
    by (auto simp: SteamAccountStore_Delete_def exec_one_def run_sql_def delete_accounts_def Let_def
        filter_empty_conv split: option.splits if_splits sum.splits prod.splits)
qed

section \<open>The invariant\<close>

lemma Create_account_inv:
  assumes inv: "db_inv pg db" and c: "SteamAccountStore_Create pg now uid name db = (r, db')"
  shows "db_inv pg db'"
proof (cases "is_Ok r")
  case True
  then obtain i where r: "r = Ok i" by (cases r) auto
  obtain u where u: "i = gen_uuid pg (uuids_used db)" "account_of db u = None" "u \<in> u_ID ` set (users db)"
    "db' = db\<lparr>queries := Suc (queries db), uuids_used := Suc (uuids_used db),
      steam_accounts := steam_accounts db @ [\<lparr>r_id = i, r_user_id = u, r_steam_id = None,
        r_steam_username = (if name = '''' then None else Some name), r_enc_refresh_token = None,
        r_enc_refresh_nonce = None, r_refresh_token_expires = None, r_created_at = now\<rparr>]\<rparr>"
    by (rule Create_account_Ok [OF c [unfolded r]]) blast
  have "\<forall>a \<in> set (steam_accounts db). r_id a \<noteq> i"
    using inv next_uuid_fresh u(1) unfolding db_inv_def by blast
  moreover have "u \<notin> r_user_id ` set (steam_accounts db)"
    using u(2) by (auto simp: account_of_def find_None_iff)
  moreover have "used_uuid pg db' i" using u(1,4) by (auto simp: used_uuid_def)
  ultimately show ?thesis
    using inv u(3,4) by (auto simp: db_inv_def intro: used_uuid_mono)
next
  case False
  from Create_account_other [OF c this] inv show ?thesis by simp
qed

lemma update_inv:
  assumes inv: "db_inv pg db" and keep: "\<And>a. r_id (f a) = r_id a \<and> r_user_id (f a) = r_user_id a"
    and c: "exec_one w (run_sql pg (update_accounts pg accID texts f) db) = (r, db')"
  shows "db_inv pg db'"
proof (cases "is_Ok r")
  case True
  then obtain x where "r = Ok x" by (cases r) auto
  then obtain i where d: "db' = db\<lparr>queries := Suc (queries db),
      steam_accounts := map (\<lambda>a. if r_id a = i then f a else a) (steam_accounts db)\<rparr>"
    using exec_update_Ok [OF c [unfolded \<open>r = Ok x\<close>]] by blast
  define g where "g a = (if r_id a = i then f a else a)" for a
  have k: "r_id (g a) = r_id a" "r_user_id (g a) = r_user_id a" for a by (simp_all add: g_def keep)
  have d: "db' = db\<lparr>queries := Suc (queries db), steam_accounts := map g (steam_accounts db)\<rparr>"
    unfolding d g_def ..
  have m: "map r_user_id (steam_accounts db') = map r_user_id (steam_accounts db)"
    "map r_id (steam_accounts db') = map r_id (steam_accounts db)"
    by (simp_all add: d k)
  have "\<forall>a \<in> set (steam_accounts db'). used_uuid pg db' (r_id a) \<and> r_user_id a \<in> u_ID ` set (users db')"
    using inv by (auto simp: d k db_inv_def used_uuid_def)
  moreover have "users db' = users db" "\<forall>u \<in> set (users db). used_uuid pg db' (u_ID u)"
    using inv by (auto simp: d db_inv_def used_uuid_def)
  ultimately show ?thesis using inv unfolding db_inv_def m by simp
next
  case False
  from exec_update_other [OF c this] inv show ?thesis by simp
qed

lemma SaveRefreshToken_inv:
  "db_inv pg db \<Longrightarrow> SaveRefreshToken pg accID sid name tok non ex db = (r, db') \<Longrightarrow> db_inv pg db'"
  unfolding SaveRefreshToken_def by (rule update_inv) simp_all

lemma SetSteamID_inv: "db_inv pg db \<Longrightarrow> SetSteamID pg accID sid db = (r, db') \<Longrightarrow> db_inv pg db'"
  unfolding SetSteamID_def by (rule update_inv) simp_all

lemma Delete_account_inv:
  assumes inv: "db_inv pg db" and c: "SteamAccountStore_Delete pg uid accID db = (r, db')"
  shows "db_inv pg db'"
proof (cases "is_Ok r")
  case True
  then obtain x where "r = Ok x" by (cases r) auto
  then obtain u i where "db' = db\<lparr>queries := Suc (queries db),
      steam_accounts := filter (\<lambda>a. \<not> (r_id a = i \<and> r_user_id a = u)) (steam_accounts db)\<rparr>"
    using Delete_account_Ok [OF c [unfolded \<open>r = Ok x\<close>]] by blast
  with inv show ?thesis by (auto simp: db_inv_def used_uuid_def distinct_map_filter)
next
  case False
  from Delete_account_other [OF c this] inv show ?thesis by simp
qed

lemma GetByUserID_inv: "db_inv pg db \<Longrightarrow> GetByUserID pg uid db = (r, db') \<Longrightarrow> db_inv pg db'"
  by (auto dest: GetByUserID_db)

lemmas store_inv [wf_intros] = Create_inv GetByUsername_inv Create_account_inv SaveRefreshToken_inv
  SetSteamID_inv Delete_account_inv GetByUserID_inv

section \<open>What each operation does to the map\<close>

lemma Create_account_table:
  assumes "SteamAccountStore_Create pg now uid name db = (Ok i, db')"
  shows "\<exists>u. uuid_in pg uid = Some u \<and> account_of db u = None \<and> account_of db' = (account_of db)(u \<mapsto>
    \<lparr>r_id = i, r_user_id = u, r_steam_id = None, r_steam_username = (if name = '''' then None else Some name),
     r_enc_refresh_token = None, r_enc_refresh_nonce = None, r_refresh_token_expires = None, r_created_at = now\<rparr>)"
proof -
  obtain u where u: "uuid_in pg uid = Some u" "account_of db u = None"
    "db' = db\<lparr>queries := Suc (queries db), uuids_used := Suc (uuids_used db),
      steam_accounts := steam_accounts db @ [\<lparr>r_id = i, r_user_id = u, r_steam_id = None,
        r_steam_username = (if name = '''' then None else Some name), r_enc_refresh_token = None,
        r_enc_refresh_nonce = None, r_refresh_token_expires = None, r_created_at = now\<rparr>]\<rparr>"
    by (rule Create_account_Ok [OF assms]) blast
  then show ?thesis
    by (auto simp: fun_eq_iff account_of_def find_append_new split: option.splits)
qed

lemma update_table:
  assumes inv: "db_inv pg db" and keep: "\<And>a. r_id (f a) = r_id a \<and> r_user_id (f a) = r_user_id a"
    and c: "exec_one w (run_sql pg (update_accounts pg accID texts f) db) = (Ok x, db')"
  shows "\<exists>i a. uuid_in pg accID = Some i \<and> account_of db (r_user_id a) = Some a \<and> r_id a = i \<and>
    account_of db' = (account_of db)(r_user_id a \<mapsto> f a)"
proof -
  define g where "g i a = (if r_id a = i then f a else a)" for i a
  obtain i a where i: "uuid_in pg accID = Some i" "a \<in> set (steam_accounts db)" "r_id a = i"
    "db' = db\<lparr>queries := Suc (queries db), steam_accounts := map (g i) (steam_accounts db)\<rparr>"
    by (rule exec_update_Ok [OF c]) (simp add: g_def)
  have a: "account_of db (r_user_id a) = Some a" using inv i(2) by (rule account_of_mem)
  have "r_user_id (g i b) = r_user_id b" for b by (simp add: g_def keep)
  then have m: "account_of db' v = map_option (g i) (account_of db v)" for v
    by (simp add: account_of_def i(4) find_map_same)
  have "account_of db' v = ((account_of db)(r_user_id a \<mapsto> f a)) v" for v
  proof (cases "v = r_user_id a")
    case True
    then show ?thesis by (simp add: m a g_def i(3))
  next
    case False
    have "b \<noteq> a \<Longrightarrow> b \<in> set (steam_accounts db) \<Longrightarrow> r_id b \<noteq> i" for b
      using account_by_id_mem [OF inv] i(2,3) by (metis option.inject)
    then have "g i b = b" if "account_of db v = Some b" for b
      using account_of_user [OF that] False unfolding g_def by metis
    with False show ?thesis by (cases "account_of db v") (auto simp: m)
  qed
  with i a show ?thesis by blast
qed

lemma SaveRefreshToken_table:
  assumes "db_inv pg db" "SaveRefreshToken pg accID sid name tok non ex db = (Ok x, db')"
  shows "\<exists>a. uuid_in pg accID = Some (r_id a) \<and> account_of db (r_user_id a) = Some a \<and>
    account_of db' = (account_of db)(r_user_id a \<mapsto> a\<lparr>r_enc_refresh_token := Some tok,
      r_enc_refresh_nonce := Some non, r_refresh_token_expires := ex, r_steam_id := Some sid,
      r_steam_username := coalesce_nullif name (r_steam_username a)\<rparr>)"
  using update_table [OF assms(1) _ assms(2) [unfolded SaveRefreshToken_def]] by auto

lemma SetSteamID_table:
  assumes "db_inv pg db" "SetSteamID pg accID sid db = (Ok x, db')"
  shows "\<exists>a. uuid_in pg accID = Some (r_id a) \<and> account_of db (r_user_id a) = Some a \<and>
    account_of db' = (account_of db)(r_user_id a \<mapsto> a\<lparr>r_steam_id := Some sid\<rparr>)"
  using update_table [OF assms(1) _ assms(2) [unfolded SetSteamID_def]] by auto

lemma Delete_account_table:
  assumes inv: "db_inv pg db" and c: "SteamAccountStore_Delete pg uid accID db = (Ok x, db')"
  shows "\<exists>a. uuid_in pg accID = Some (r_id a) \<and> uuid_in pg uid = Some (r_user_id a) \<and>
    account_of db (r_user_id a) = Some a \<and> account_of db' = (account_of db)(r_user_id a := None)"
proof -
  obtain u i a where u: "uuid_in pg uid = Some u" "uuid_in pg accID = Some i"
    "a \<in> set (steam_accounts db)" "r_id a = i" "r_user_id a = u"
    "db' = db\<lparr>queries := Suc (queries db),
      steam_accounts := filter (\<lambda>a. \<not> (r_id a = i \<and> r_user_id a = u)) (steam_accounts db)\<rparr>"
    by (rule Delete_account_Ok [OF c])
  have a: "account_of db u = Some a" using account_of_mem [OF inv u(3)] u(5) by simp
  have "distinct (map r_user_id (steam_accounts db))" using inv by (simp add: db_inv_def)
  then have f: "account_of db' v = (case account_of db v of None \<Rightarrow> None
      | Some b \<Rightarrow> if \<not> (r_id b = i \<and> r_user_id b = u) then Some b else None)" for v
    by (cases "account_of db v") (simp_all add: account_of_def u(6) find_filter_other)
  have "account_of db' v = ((account_of db)(u := None)) v" for v
    using a u(4,5) account_of_user [of db v] by (auto simp: f split: option.splits)
  with u a show ?thesis by blast
qed

section \<open>The contract of a Steam account store\<close>

text \<open>
  The Go interface \<open>api.SteamAccountStore\<close> over any state \<open>'d\<close>: the table it keeps is a
  map from users to rows, \<open>canon\<close> is the reading of an identifier.
\<close>

locale steam_account_store =
  fixes canon :: "string \<Rightarrow> string option"
    and create :: "time \<Rightarrow> string \<Rightarrow> string \<Rightarrow> 'd \<Rightarrow> string outcome \<times> 'd"
    and save :: "string \<Rightarrow> string \<Rightarrow> string \<Rightarrow> bytes \<Rightarrow> bytes \<Rightarrow> time option \<Rightarrow> 'd \<Rightarrow> unit outcome \<times> 'd"
    and set_id :: "string \<Rightarrow> string \<Rightarrow> 'd \<Rightarrow> unit outcome \<times> 'd"
    and delete :: "string \<Rightarrow> string \<Rightarrow> 'd \<Rightarrow> unit outcome \<times> 'd"
    and get :: "string \<Rightarrow> 'd \<Rightarrow> SteamAccount outcome \<times> 'd"
    and inv :: "'d \<Rightarrow> bool"
    and table :: "'d \<Rightarrow> string \<rightharpoonup> account_row"
  assumes create_inv: "inv d \<Longrightarrow> create now uid name d = (c, d') \<Longrightarrow> inv d'"
    and save_inv: "inv d \<Longrightarrow> save aid sid name tok non ex d = (x, d') \<Longrightarrow> inv d'"
    and create_Ok: "create now uid name d = (Ok i, d') \<Longrightarrow> \<exists>u. canon uid = Some u \<and> table d u = None \<and>
      table d' = (table d)(u \<mapsto> \<lparr>r_id = i, r_user_id = u, r_steam_id = None,
        r_steam_username = (if name = '''' then None else Some name), r_enc_refresh_token = None,
        r_enc_refresh_nonce = None, r_refresh_token_expires = None, r_created_at = now\<rparr>)"
    and save_Ok: "inv d \<Longrightarrow> save aid sid name tok non ex d = (Ok y, d') \<Longrightarrow>
      \<exists>a. canon aid = Some (r_id a) \<and> table d (r_user_id a) = Some a \<and>
        table d' = (table d)(r_user_id a \<mapsto> a\<lparr>r_enc_refresh_token := Some tok,
          r_enc_refresh_nonce := Some non, r_refresh_token_expires := ex, r_steam_id := Some sid,
          r_steam_username := coalesce_nullif name (r_steam_username a)\<rparr>)"
    and set_id_Ok: "inv d \<Longrightarrow> set_id aid sid d = (Ok y, d') \<Longrightarrow>
      \<exists>a. canon aid = Some (r_id a) \<and> table d (r_user_id a) = Some a \<and>
        table d' = (table d)(r_user_id a \<mapsto> a\<lparr>r_steam_id := Some sid\<rparr>)"
    and delete_Ok: "inv d \<Longrightarrow> delete uid aid d = (Ok y, d') \<Longrightarrow>
      \<exists>a. canon aid = Some (r_id a) \<and> canon uid = Some (r_user_id a) \<and>
        table d (r_user_id a) = Some a \<and> table d' = (table d)(r_user_id a := None)"
    and create_other: "create now uid name d = (c, d') \<Longrightarrow> \<not> is_Ok c \<Longrightarrow> table d' = table d"
    and save_other: "save aid sid name tok non ex d = (x, d') \<Longrightarrow> \<not> is_Ok x \<Longrightarrow> table d' = table d"
    and set_id_other: "set_id aid sid d = (x, d') \<Longrightarrow> \<not> is_Ok x \<Longrightarrow> table d' = table d"
    and delete_other: "delete uid aid d = (x, d') \<Longrightarrow> \<not> is_Ok x \<Longrightarrow> table d' = table d"
    and get_table: "get uid d = (q, d') \<Longrightarrow> table d' = table d"
    and get_Ok: "get uid d = (Ok a, d') \<Longrightarrow> \<exists>u row. canon uid = Some u \<and> table d u = Some row \<and> a = scan_account row"
    and row_owner: "table d u = Some row \<Longrightarrow> r_user_id row = u"
    and row_id: "inv d \<Longrightarrow> table d u = Some row \<Longrightarrow> table d v = Some row' \<Longrightarrow> r_id row = r_id row' \<Longrightarrow> row = row'"
begin

lemma one_account_per_user:
  assumes "create now uid name d = (Ok i, d')" "canon uid = canon uid'"
  shows "create now' uid' name' d' \<noteq> (Ok j, d'')"
  using create_Ok [OF assms(1)] create_Ok [of now' uid' name' d' j d''] assms(2) by fastforce

lemma create_then_save_then_get:
  assumes inv: "inv d" and c: "create now uid name d = (Ok i, d1)" and i: "canon i = Some i"
    and s: "save i sid name' tok non ex d1 = (Ok y, d2)" and g: "get uid d2 = (Ok a, d3)"
  shows "sa_ID a = i \<and> sa_SteamID a = sid \<and> sa_EncRefreshToken a = tok \<and> sa_EncRefreshNonce a = non \<and>
    sa_RefreshTokenExpires a = ex \<and> sa_SteamUsername a = (if name' = '''' then name else name')"
proof -
  from create_Ok [OF c] obtain u r where u: "canon uid = Some u" "table d1 u = Some r" "r_id r = i"
    "r_steam_username r = (if name = '''' then None else Some name)" by force
  have inv1: "inv d1" by (rule create_inv [OF inv c])
  from save_Ok [OF inv1 s] obtain b where b: "canon i = Some (r_id b)" "table d1 (r_user_id b) = Some b"
    "table d2 = (table d1)(r_user_id b \<mapsto> b\<lparr>r_enc_refresh_token := Some tok,
      r_enc_refresh_nonce := Some non, r_refresh_token_expires := ex, r_steam_id := Some sid,
      r_steam_username := coalesce_nullif name' (r_steam_username b)\<rparr>)" by blast
  have "r = b" by (rule row_id [OF inv1 u(2) b(2)]) (use b(1) i u(3) in simp)
  moreover have "r_user_id b = u" using row_owner [OF u(2)] calculation by simp
  ultimately show ?thesis
    using get_Ok [OF g] u b(3) by (auto simp: coalesce_nullif_def)
qed

lemma save_isolated:
  assumes "inv d" "save aid sid name tok non ex d = (x, d')"
    "table d u = Some row" "canon aid \<noteq> Some (r_id row)"
  shows "table d' u = Some row"
proof (cases x)
  case (Ok y)
  with save_Ok [OF assms(1), of aid sid name tok non ex y d'] assms show ?thesis by fastforce
qed (use save_other [OF assms(2)] assms(3) in auto)

lemma delete_isolated:
  assumes "inv d" "delete uid aid d = (x, d')" "canon uid \<noteq> Some u"
  shows "table d' u = table d u"
proof (cases x)
  case (Ok y)
  with delete_Ok [OF assms(1), of uid aid y d'] assms show ?thesis by fastforce
qed (use delete_other [OF assms(2)] in auto)

end

lemma account_of_id:
  assumes "db_inv pg db" "account_of db u = Some a" "account_of db v = Some b" "r_id a = r_id b"
  shows "a = b"
proof -
  have "account_by_id db (r_id a) = Some a" "account_by_id db (r_id a) = Some b"
    using assms account_of_user by (auto simp: account_by_id_mem [OF assms(1)])
  then show ?thesis by simp
qed

interpretation saccts: steam_account_store "uuid_in pg" "SteamAccountStore_Create pg" "SaveRefreshToken pg"
  "SetSteamID pg" "SteamAccountStore_Delete pg" "GetByUserID pg" "db_inv pg" account_of for pg
proof (unfold_locales, goal_cases)
  case 1
  then show ?case by (rule Create_account_inv)
next
  case 2
  then show ?case by (rule SaveRefreshToken_inv)
next
  case 3
  then show ?case by (rule Create_account_table)
next
  case 4
  then show ?case by (rule SaveRefreshToken_table)
next
  case 5
  then show ?case by (rule SetSteamID_table)
next
  case 6
  then show ?case by (rule Delete_account_table)
next
  case 7
  then show ?case by (auto dest: Create_account_other)
next
  case (8 aid sid name tok non ex d x d')
  then show ?case using exec_update_other [OF 8(1) [unfolded SaveRefreshToken_def]] by simp
next
  case (9 aid sid d x d')
  then show ?case using exec_update_other [OF 9(1) [unfolded SetSteamID_def]] by simp
next
  case 10
  then show ?case by (auto dest: Delete_account_other)
next
  case 11
  then show ?case by (auto dest: GetByUserID_db)
next
  case 12
  then show ?case by (blast elim: GetByUserID_Ok)
next
  case 13
  then show ?case by (simp add: account_of_user)
next
  case 14
  then show ?case by (rule account_of_id)
qed

section \<open>A working engine\<close>

text \<open>An engine that takes every text and loses no statement: each operation is a function of the tables.\<close>

definition healthy :: "pg \<Rightarrow> bool" where
  "healthy pg \<longleftrightarrow> (\<forall>n. query_fault pg n = None) \<and> (\<forall>s. text_ok pg s)"

lemma ref_pg_healthy [simp]: "healthy ref_pg"
  by (simp add: healthy_def ref_pg_def)

lemma healthy_texts: "healthy pg \<Longrightarrow> list_all (text_ok pg) xs"
  by (simp add: healthy_def list_all_iff)

lemma Create_account_healthy:
  assumes "healthy pg" "uuid_in pg uid = Some u" "u \<in> u_ID ` set (users db)"
  shows "fst (SteamAccountStore_Create pg now uid name db) =
    (if account_of db u = None then Ok (gen_uuid pg (uuids_used db)) else Fail ErrSteamAccountExists)"
proof -
  have "list_ex (\<lambda>v. u_ID v = u) (users db)" using assms(3) by (auto simp: list_ex_iff)
  with assms(1,2) show ?thesis
    by (simp add: SteamAccountStore_Create_def run_sql_def insert_account_def Let_def healthy_def
        account_of_def find_None_list_ex split: option.splits)
qed

lemma update_healthy:
  assumes inv: "db_inv pg db" and h: "healthy pg" and i: "uuid_in pg accID = Some i"
  shows "fst (exec_one w (run_sql pg (update_accounts pg accID texts f) db)) =
    (if account_by_id db i = None then Fail ErrSteamAccountNotFound else Ok ())"
  using h i healthy_texts [OF h, of texts]
  by (simp add: exec_one_def run_sql_def update_accounts_def Let_def healthy_def account_by_id_def
      find_None_list_ex filter_empty_conv list_ex_iff)

lemma Delete_account_healthy:
  assumes inv: "db_inv pg db" and h: "healthy pg" and u: "uuid_in pg uid = Some u" and i: "uuid_in pg accID = Some i"
  shows "fst (SteamAccountStore_Delete pg uid accID db) =
    (if map_option r_id (account_of db u) = Some i then Ok () else Fail ErrSteamAccountNotFound)"
proof -
  have "(\<exists>a \<in> set (steam_accounts db). r_id a = i \<and> r_user_id a = u) \<longleftrightarrow>
      map_option r_id (account_of db u) = Some i"
    using account_of_mem [OF inv] account_of_user by auto
  moreover have "filter (\<lambda>a. r_id a = i \<and> r_user_id a = u) (steam_accounts db) = [] \<longleftrightarrow>
      \<not> (\<exists>a \<in> set (steam_accounts db). r_id a = i \<and> r_user_id a = u)"
    by (simp add: filter_empty_conv)
  ultimately show ?thesis using h u i
    by (simp add: SteamAccountStore_Delete_def exec_one_def run_sql_def delete_accounts_def Let_def healthy_def)
qed

lemma account_by_id_of:
  "db_inv pg db \<Longrightarrow> account_of db u = Some a \<Longrightarrow> account_by_id db (r_id a) = Some a"
  using account_of_user by (simp add: account_by_id_mem)

text \<open>The rows the lifecycle of an account goes through.\<close>

definition fresh_row :: "time \<Rightarrow> string \<Rightarrow> string \<Rightarrow> string \<Rightarrow> account_row" where
  "fresh_row now u name i = \<lparr>r_id = i, r_user_id = u, r_steam_id = None,
     r_steam_username = (if name = '''' then None else Some name), r_enc_refresh_token = None,
     r_enc_refresh_nonce = None, r_refresh_token_expires = None, r_created_at = now\<rparr>"

definition saved_row :: "string \<Rightarrow> string \<Rightarrow> bytes \<Rightarrow> bytes \<Rightarrow> time option \<Rightarrow> account_row \<Rightarrow> account_row" where
  "saved_row sid name tok non ex a = a\<lparr>r_enc_refresh_token := Some tok, r_enc_refresh_nonce := Some non,
     r_refresh_token_expires := ex, r_steam_id := Some sid,
     r_steam_username := coalesce_nullif name (r_steam_username a)\<rparr>"

lemma saved_row_keys [simp]: "r_id (saved_row sid name tok non ex a) = r_id a"
  "r_user_id (saved_row sid name tok non ex a) = r_user_id a"
  by (simp_all add: saved_row_def)

lemma create_on_healthy:
  assumes "db_inv pg db" "healthy pg" "uuid_in pg uid = Some u" "u \<in> u_ID ` set (users db)" "account_of db u = None"
  obtains i d1 where "SteamAccountStore_Create pg now uid name db = (Ok i, d1)" "uuid_in pg i = Some i"
    "db_inv pg d1" "users d1 = users db" "account_of d1 = (account_of db)(u \<mapsto> fresh_row now u name i)"
proof -
  obtain c1 d1 where c1: "SteamAccountStore_Create pg now uid name db = (c1, d1)" by (rule prod.exhaust)
  obtain i where i: "c1 = Ok i" "uuid_in pg i = Some i"
    using Create_account_healthy [OF assms(2-4), of now name] c1 assms(1,5)
    by (auto simp: db_inv_def pg_ok_def)
  have "users d1 = users db"
    by (rule Create_account_Ok [OF c1 [unfolded i(1)]]) simp
  moreover have "account_of d1 = (account_of db)(u \<mapsto> fresh_row now u name i)"
    using Create_account_table [OF c1 [unfolded i(1)]] assms(3) by (auto simp: fresh_row_def)
  ultimately show ?thesis
    using that c1 i Create_account_inv [OF assms(1) c1] by blast
qed

lemma create_on_taken:
  assumes "healthy pg" "uuid_in pg uid = Some u" "u \<in> u_ID ` set (users db)" "account_of db u \<noteq> None"
  shows "SteamAccountStore_Create pg now uid name db = (Fail ErrSteamAccountExists, db\<lparr>queries := Suc (queries db)\<rparr>)"
proof -
  obtain c d where c: "SteamAccountStore_Create pg now uid name db = (c, d)" by (rule prod.exhaust)
  have "c = Fail ErrSteamAccountExists"
    using Create_account_healthy [OF assms(1-3), of now name] c assms(4) by simp
  with Create_account_other [OF c] c show ?thesis by simp
qed

lemma save_on_healthy:
  assumes inv: "db_inv pg db" and h: "healthy pg" and a: "account_of db u = Some a" and i: "uuid_in pg accID = Some (r_id a)"
  obtains d' where "SaveRefreshToken pg accID sid name tok non ex db = (Ok (), d')" "db_inv pg d'"
    "users d' = users db" "account_of d' = (account_of db)(u \<mapsto> saved_row sid name tok non ex a)"
proof -
  obtain x d' where c: "SaveRefreshToken pg accID sid name tok non ex db = (x, d')" by (rule prod.exhaust)
  have "fst (SaveRefreshToken pg accID sid name tok non ex db) = Ok ()"
    unfolding SaveRefreshToken_def update_healthy [OF inv h i] by (simp add: account_by_id_of [OF inv a])
  then have x: "x = Ok ()" by (simp add: c)
  from SaveRefreshToken_table [OF inv c [unfolded x]] obtain b where
    b: "uuid_in pg accID = Some (r_id b)" "account_of db (r_user_id b) = Some b"
      "account_of d' = (account_of db)(r_user_id b \<mapsto> saved_row sid name tok non ex b)"
    by (auto simp: saved_row_def)
  have "b = a" using account_of_id [OF inv b(2) a] b(1) i by simp
  moreover have "users d' = users db"
    by (rule exec_update_Ok [OF c [unfolded x SaveRefreshToken_def]]) simp
  moreover have "r_user_id a = u" using account_of_user [OF a] by simp
  ultimately show ?thesis
    using that [OF c [unfolded x] SaveRefreshToken_inv [OF inv c]] b(3) by simp
qed

lemma get_on_healthy:
  "healthy pg \<Longrightarrow> uuid_in pg uid = Some u \<Longrightarrow> account_of db u = Some a \<Longrightarrow>
    GetByUserID pg uid db = (Ok (scan_account a), db\<lparr>queries := Suc (queries db)\<rparr>)"
  using GetByUserID_no_fault [of pg db uid u] by (simp add: healthy_def)

lemma get_none_on_healthy:
  "healthy pg \<Longrightarrow> uuid_in pg uid = Some u \<Longrightarrow> account_of db u = None \<Longrightarrow>
    GetByUserID pg uid db = (Fail ErrSteamAccountNotFound, db\<lparr>queries := Suc (queries db)\<rparr>)"
  using GetByUserID_no_fault [of pg db uid u] by (simp add: healthy_def)

text \<open>The states the tables can be in: those a sequence of the seven operations leads to.\<close>

inductive db_reachable :: "pg \<Rightarrow> Db \<Rightarrow> bool" for pg where
  start: "db_reachable pg empty_db"
| create_user: "db_reachable pg db \<Longrightarrow> UserStore_Create pg now n h s db = (c, db') \<Longrightarrow> db_reachable pg db'"
| lookup_user: "db_reachable pg db \<Longrightarrow> UserStore_GetByUsername pg n db = (q, db') \<Longrightarrow> db_reachable pg db'"
| link: "db_reachable pg db \<Longrightarrow> SteamAccountStore_Create pg now uid name db = (c, db') \<Longrightarrow> db_reachable pg db'"
| save: "db_reachable pg db \<Longrightarrow> SaveRefreshToken pg accID sid name tok non ex db = (x, db') \<Longrightarrow> db_reachable pg db'"
| backfill: "db_reachable pg db \<Longrightarrow> SetSteamID pg accID sid db = (x, db') \<Longrightarrow> db_reachable pg db'"
| unlink: "db_reachable pg db \<Longrightarrow> SteamAccountStore_Delete pg uid accID db = (x, db') \<Longrightarrow> db_reachable pg db'"
| lookup: "db_reachable pg db \<Longrightarrow> GetByUserID pg uid db = (g, db') \<Longrightarrow> db_reachable pg db'"

section \<open>Properties\<close>

text \<open>
  Whatever sequence of store operations runs, with whatever arguments and engine
  faults, user names and account ids stay unique, no user has two Steam accounts, and every
  account belongs to an existing user.
\<close>

theorem schema_always_holds:
  assumes "pg_ok pg" "db_reachable pg db"
  shows "db_inv pg db"
  using assms(2) by induction (use empty_db_inv [OF assms(1)] in \<open>auto intro: wf_intros\<close>)

definition demo_db :: Db where
  "demo_db = snd (UserStore_Create ref_pg 7 ''ann'' ''h'' [1] empty_db)"

lemma demo_reachable: "db_reachable ref_pg demo_db"
  unfolding demo_db_def by (rule create_user [OF start]) (rule surjective_pairing)

lemma demo_inv: "db_inv ref_pg demo_db"
  unfolding demo_db_def by (rule Create_inv [OF empty_db_inv [OF ref_pg_ok] surjective_pairing])

lemma demo_eq: "demo_db = \<lparr>users = [\<lparr>u_ID = ''u'', u_Username = ''ann'', u_PasswordHash = ''h'', u_KDFSalt = [1],
    u_CreatedAt = 7\<rparr>], steam_accounts = [], uuids_used = 1, queries = 1\<rparr>"
  by (simp add: demo_db_def UserStore_Create_def insert_user_def ref_pg_def empty_db_def Let_def)

theorem schema_always_holds_witness: "db_inv ref_pg demo_db \<and> users demo_db \<noteq> []"
  using schema_always_holds [OF ref_pg_ok demo_reachable] by (simp add: demo_eq)


lemma demo_ann: "u_ID ` set (users demo_db) = {''u''}" "account_of demo_db ''u'' = None" "uuid_in ref_pg ''u'' = Some ''u''"
  by (simp_all add: demo_eq account_of_def ref_pg_def)


text \<open>
  \<open>DELETE\<close> is scoped by its user: on a working engine it succeeds exactly when the id
  names the account of the calling user, whose entry it then removes; every other user keeps
  the account they have, whatever id is given and whether or not the engine works.
\<close>

theorem Delete_only_own:
  assumes "db_inv pg db" "uuid_in pg uid = Some u" "uuid_in pg accID = Some i"
    and "SteamAccountStore_Delete pg uid accID db = (r, db')"
  shows "(\<forall>v. v \<noteq> u \<longrightarrow> account_of db' v = account_of db v)
    \<and> (r = Ok () \<longrightarrow> account_of db' u = None)
    \<and> (healthy pg \<longrightarrow> r = (if map_option r_id (account_of db u) = Some i then Ok () else Fail ErrSteamAccountNotFound))"
proof (intro conjI impI allI)
  show "account_of db' v = account_of db v" if "v \<noteq> u" for v
    by (rule saccts.delete_isolated [OF assms(1,4)]) (use assms(2) that in simp)
  show "account_of db' u = None" if "r = Ok ()"
    using Delete_account_table [OF assms(1) assms(4) [unfolded that]] assms(2) by auto
  show "r = (if map_option r_id (account_of db u) = Some i then Ok () else Fail ErrSteamAccountNotFound)"
    if "healthy pg"
    using Delete_account_healthy [OF assms(1) that assms(2,3)] assms(4) by simp
qed

definition demo_linked :: Db where
  "demo_linked = snd (SteamAccountStore_Create ref_pg 9 ''u'' ''ann_dota'' demo_db)"

lemma demo_linked_inv: "db_inv ref_pg demo_linked"
  unfolding demo_linked_def by (rule Create_account_inv [OF demo_inv surjective_pairing])

lemma demo_linked_account: "account_of demo_linked ''u'' = Some (fresh_row 9 ''u'' ''ann_dota'' ''ui'')"
  by (simp add: demo_linked_def demo_eq SteamAccountStore_Create_def run_sql_def insert_account_def ref_pg_def Let_def
      account_of_def fresh_row_def)

theorem Delete_only_own_witness:
  "fst (SteamAccountStore_Delete ref_pg ''uiii'' ''ui'' demo_linked) = Fail ErrSteamAccountNotFound
    \<and> account_of (snd (SteamAccountStore_Delete ref_pg ''uiii'' ''ui'' demo_linked)) ''u'' \<noteq> None"
proof -
  have u: "uuid_in ref_pg ''uiii'' = Some ''uiii''" "uuid_in ref_pg ''ui'' = Some ''ui''"
    by (simp_all add: ref_pg_def)
  have "account_of demo_linked ''uiii'' = None"
    by (simp add: demo_linked_def demo_eq SteamAccountStore_Create_def run_sql_def insert_account_def ref_pg_def Let_def
        account_of_def)
  with Delete_only_own [OF demo_linked_inv u surjective_pairing] show ?thesis
    by (simp add: demo_linked_account)
qed

text \<open>
  \<open>SaveRefreshToken\<close> changes the one row its id names: credentials, expiry and Steam id
  are overwritten (an absent expiry too, which clears the column), the Steam user name only
  when the new one is not empty; when the id names no row it answers
  \<open>ErrSteamAccountNotFound\<close> and changes no row.
\<close>

theorem SaveRefreshToken_row:
  assumes "db_inv pg db" "healthy pg" "uuid_in pg accID = Some i"
    and "SaveRefreshToken pg accID sid name tok non ex db = (r, db')"
  shows "case account_by_id db i of
      None \<Rightarrow> r = Fail ErrSteamAccountNotFound \<and> account_of db' = account_of db
    | Some a \<Rightarrow> r = Ok () \<and> account_of db' = (account_of db)(r_user_id a \<mapsto>
        \<lparr>r_id = i, r_user_id = r_user_id a, r_steam_id = Some sid,
         r_steam_username = (if name = '''' then r_steam_username a else Some name),
         r_enc_refresh_token = Some tok, r_enc_refresh_nonce = Some non,
         r_refresh_token_expires = ex, r_created_at = r_created_at a\<rparr>)"
proof (cases "account_by_id db i")
  case None
  have "fst (SaveRefreshToken pg accID sid name tok non ex db) = Fail ErrSteamAccountNotFound"
    unfolding SaveRefreshToken_def update_healthy [OF assms(1-3)] by (simp add: None)
  then have r: "r = Fail ErrSteamAccountNotFound" by (simp add: assms(4))
  moreover have "account_of db' = account_of db"
    by (rule saccts.save_other [OF assms(4)]) (simp add: r)
  ultimately show ?thesis by (simp add: None)
next
  case (Some a)
  have a: "a \<in> set (steam_accounts db)" "r_id a = i" using Some by (simp_all add: account_by_id_mem [OF assms(1)])
  obtain d' where d: "SaveRefreshToken pg accID sid name tok non ex db = (Ok (), d')"
    "account_of d' = (account_of db)(r_user_id a \<mapsto> saved_row sid name tok non ex a)"
    by (rule save_on_healthy [OF assms(1,2) account_of_mem [OF assms(1) a(1)], of accID]) (auto simp: a(2) assms(3))
  moreover have "saved_row sid name tok non ex a = \<lparr>r_id = i, r_user_id = r_user_id a, r_steam_id = Some sid,
         r_steam_username = (if name = '''' then r_steam_username a else Some name),
         r_enc_refresh_token = Some tok, r_enc_refresh_nonce = Some non,
         r_refresh_token_expires = ex, r_created_at = r_created_at a\<rparr>"
    using a(2) by (cases a) (simp add: saved_row_def coalesce_nullif_def)
  ultimately show ?thesis using assms(4) Some by simp
qed

theorem SaveRefreshToken_row_witness:
  "fst (SaveRefreshToken ref_pg ''ui'' ''7'' '''' [1] [2] None demo_linked) = Ok ()"
proof -
  have i: "uuid_in ref_pg ''ui'' = Some ''ui''" by (simp add: ref_pg_def)
  have "account_by_id demo_linked ''ui'' = Some (fresh_row 9 ''u'' ''ann_dota'' ''ui'')"
    using account_by_id_of [OF demo_linked_inv demo_linked_account] by (simp add: fresh_row_def)
  with SaveRefreshToken_row [OF demo_linked_inv ref_pg_healthy i surjective_pairing, of "''7''" "''''" "[1]" "[2]" None]
  show ?thesis by simp
qed

end
