(* ===== verification/Api_Auth.thy ===== *)
theory Api_Auth
  imports Api_Types Key_Cache Password_Hash Token_Manager Steam_Account_Store
begin

text \<open>
  The server of \<open>internal/api\<close>: its state and collaborators (\<open>router.go\<close>), the bearer-token
  middleware (\<open>middleware.go\<close>), and register, login and logout (\<open>auth.go\<close>), each the whole
  handler with every branch.
\<close>

section \<open>State and collaborators\<close>

record FriendStatus =
  fs_SteamID :: string
  fs_PersonaName :: string
  fs_Online :: bool
  fs_InMatch :: bool

record FriendList =
  fl_OwnerSteamID :: string
  fl_Friends :: "FriendStatus list"

text \<open>
  A link handed to \<open>LinkProvider.StartLink\<close>. Its callbacks are closures over the account id
  and the key, so the two are what identifies them.
\<close>

record LinkStart =
  ls_reqID :: string
  ls_username :: string
  ls_password :: string
  ls_accountID :: string
  ls_key :: bytes

text \<open>
  The mutable state behind the handlers, with the log of what they passed to the two worker
  interfaces: links started, guard codes submitted, friends lists asked for.
\<close>

record Api =
  s_db :: Db
  s_keys :: KeyCache
  s_linkReqs :: "string \<rightharpoonup> string"
  s_rand :: rng
  s_hub :: Hub
  s_started :: "LinkStart list"
  s_submitted :: "(string \<times> string) list"
  s_asked :: "string list"

text \<open>
  What does not change: the engine, the libraries, the hasher, the tokens, whether a link
  provider is wired, the answers of the worker interfaces (to the \<open>n\<close>-th call), the sort of
  the standard library, the format of a time in the zone of the process.
\<close>

record Deps =
  d_pg :: pg
  d_crypto :: crypto
  d_jwt :: jwt_lib
  d_hasher :: Hasher
  d_tokens :: TokenManager
  d_links :: bool
  d_submit :: "nat \<Rightarrow> string \<Rightarrow> string \<Rightarrow> unit outcome"
  d_friends :: "nat \<Rightarrow> string \<Rightarrow> FriendList outcome"
  d_sort :: "FriendDTO list \<Rightarrow> FriendDTO list"
  d_format :: "time \<Rightarrow> string"

text \<open>\<open>NewServer\<close>, on a given database, key cache, random source and hub.\<close>

definition NewApiServer :: "Db \<Rightarrow> KeyCache \<Rightarrow> rng \<Rightarrow> Hub \<Rightarrow> Api" where
  "NewApiServer d k r h = \<lparr>s_db = d, s_keys = k, s_linkReqs = Map.empty, s_rand = r, s_hub = h,
     s_started = [], s_submitted = [], s_asked = []\<rparr>"

text \<open>The wiring the handlers rely on.\<close>

definition deps_ok :: "Deps \<Rightarrow> bool" where
  "deps_ok D \<longleftrightarrow> pg_ok (d_pg D) \<and> argon2_ok (d_crypto D) \<and> gcm_ok (d_crypto D) \<and> jwt_ok (d_jwt D)
     \<and> params_ok (hparams (d_hasher D))"

section \<open>Middleware\<close>

text \<open>\<open>strings.EqualFold\<close> with an ASCII text: letters fold, and so do the long s and the Kelvin sign.\<close>

definition EqualFold :: "string \<Rightarrow> string \<Rightarrow> bool" where
  "EqualFold s t \<longleftrightarrow> fold_name s = fold_name t"

definition bearer_prefix :: string where
  "bearer_prefix = ''Bearer ''"

definition bearerToken :: "Request \<Rightarrow> string option" where
  "bearerToken r =
     (let h = rq_Authorization r; n = length bearer_prefix in
      if length h \<le> n \<or> \<not> EqualFold (take n h) bearer_prefix then None else Some (drop n h))"

type_synonym handler = "Request \<Rightarrow> Api \<Rightarrow> Response \<times> Api"

text \<open>
  \<open>requireAuth\<close>: the handler behind it runs with the user id in its context. The first clock
  reading is that of \<open>Verify\<close>.
\<close>

definition requireAuth :: "Deps \<Rightarrow> (string option \<Rightarrow> handler) \<Rightarrow> handler" where
  "requireAuth D next r s =
     (case bearerToken r of
        None \<Rightarrow> (writeError 401 ''missing bearer token'', s)
      | Some token \<Rightarrow>
          (case VerifyToken (d_jwt D) (d_tokens D) (rq_clock r 0) token of
             Ok userID \<Rightarrow> next (Some userID) r s
           | Fail e \<Rightarrow> (writeError 401 ''invalid token'', s)
           | Panic \<Rightarrow> (recovered, s)))"

section \<open>Register, login, logout\<close>

text \<open>\<open>issueToken\<close>; the clock reading is the last of the request.\<close>

definition issueToken :: "Deps \<Rightarrow> time \<Rightarrow> string \<Rightarrow> nat \<Rightarrow> Response" where
  "issueToken D now userID status =
     (case Issue (d_jwt D) (d_tokens D) now userID of
        Ok token \<Rightarrow> writeJSON status (LoginResponse token)
      | Fail e \<Rightarrow> writeError 500 ''could not issue token''
      | Panic \<Rightarrow> recovered)"

text \<open>
  The end both handlers share: derive the credential key, cache it, issue the token. The
  clock is read by \<open>Put\<close> (reading 1) and by \<open>Issue\<close> (reading 2).
\<close>

definition cacheKeyAndIssue :: "Deps \<Rightarrow> Request \<Rightarrow> string \<Rightarrow> string \<Rightarrow> bytes \<Rightarrow> nat \<Rightarrow> Api \<Rightarrow> Response \<times> Api" where
  "cacheKeyAndIssue D r userID password salt status s =
     (case DeriveKey (d_crypto D) password salt of
        Ok key \<Rightarrow>
          (issueToken D (rq_clock r 2) userID status,
           s\<lparr>s_keys := Put (rq_clock r 1) userID key (s_keys s)\<rparr>)
      | _ \<Rightarrow> (recovered, s))"

definition Register :: "Deps \<Rightarrow> handler" where
  "Register D r s =
     (case decodeJSON RegisterRequest r of
        None \<Rightarrow> (writeError 400 ''invalid request body'', s)
      | Some req \<Rightarrow>
          if req ''username'' = '''' \<or> req ''password'' = ''''
          then (writeError 400 ''username and password are required'', s)
          else
            (case Hash (d_crypto D) (d_hasher D) (req ''password'') (s_rand s) of
               (Panic, r1) \<Rightarrow> (recovered, s\<lparr>s_rand := r1\<rparr>)
             | (Fail e, r1) \<Rightarrow> (writeError 500 ''could not hash password'', s\<lparr>s_rand := r1\<rparr>)
             | (Ok hash, r1) \<Rightarrow>
                 (case NewSalt KDFSaltLen r1 of
                    (Panic, r2) \<Rightarrow> (recovered, s\<lparr>s_rand := r2\<rparr>)
                  | (Fail e, r2) \<Rightarrow> (writeError 500 ''could not generate salt'', s\<lparr>s_rand := r2\<rparr>)
                  | (Ok salt, r2) \<Rightarrow>
                      (case UserStore_Create (d_pg D) (rq_clock r 0) (req ''username'') hash salt (s_db s) of
                         (Panic, db') \<Rightarrow> (recovered, s\<lparr>s_rand := r2, s_db := db'\<rparr>)
                       | (Fail e, db') \<Rightarrow>
                           (if errors_Is e ErrUsernameTaken then writeError 409 ''username already taken''
                            else writeError 500 ''could not create user'', s\<lparr>s_rand := r2, s_db := db'\<rparr>)
                       | (Ok i, db') \<Rightarrow>
                           cacheKeyAndIssue D r i (req ''password'') salt 201 (s\<lparr>s_rand := r2, s_db := db'\<rparr>)))))"

definition Login :: "Deps \<Rightarrow> handler" where
  "Login D r s =
     (case decodeJSON LoginRequest r of
        None \<Rightarrow> (writeError 400 ''invalid request body'', s)
      | Some req \<Rightarrow>
          (case UserStore_GetByUsername (d_pg D) (req ''username'') (s_db s) of
             (Panic, db') \<Rightarrow> (recovered, s\<lparr>s_db := db'\<rparr>)
           | (Fail e, db') \<Rightarrow>
               (if errors_Is e ErrUserNotFound then writeError 401 ''invalid credentials''
                else writeError 500 ''login failed'', s\<lparr>s_db := db'\<rparr>)
           | (Ok user, db') \<Rightarrow>
               (case Verify (d_crypto D) (d_hasher D) (req ''password'') (u_PasswordHash user) of
                  Panic \<Rightarrow> (recovered, s\<lparr>s_db := db'\<rparr>)
                | Fail e \<Rightarrow> (writeError 401 ''invalid credentials'', s\<lparr>s_db := db'\<rparr>)
                | Ok good \<Rightarrow>
                    if \<not> good then (writeError 401 ''invalid credentials'', s\<lparr>s_db := db'\<rparr>)
                    else cacheKeyAndIssue D r (u_ID user) (req ''password'') (u_KDFSalt user) 200 (s\<lparr>s_db := db'\<rparr>))))"

definition Logout :: "string option \<Rightarrow> handler" where
  "Logout ctx r s =
     (writeHeader 204,
      case ctx of Some uid \<Rightarrow> s\<lparr>s_keys := Delete uid (s_keys s)\<rparr> | None \<Rightarrow> s)"

end
