(* ===== verification/Api_Steam.thy ===== *)
theory Api_Steam
  imports Api_Auth Go_Base64
begin

text \<open>
  Linking, listing and removing Steam accounts (\<open>steam_accounts.go\<close>), with the callbacks that
  end a link, and the friends list (\<open>friends.go\<close>).
\<close>

section \<open>In-flight links\<close>

definition setLinkReq :: "string \<Rightarrow> string \<Rightarrow> Api \<Rightarrow> Api" where
  "setLinkReq accountID reqID s = s\<lparr>s_linkReqs := (s_linkReqs s)(accountID \<mapsto> reqID)\<rparr>"

definition getLinkReq :: "string \<Rightarrow> Api \<Rightarrow> string option" where
  "getLinkReq accountID s = s_linkReqs s accountID"

definition clearLinkReq :: "string \<Rightarrow> Api \<Rightarrow> Api" where
  "clearLinkReq accountID s = s\<lparr>s_linkReqs := (s_linkReqs s)(accountID := None)\<rparr>"

text \<open>\<open>newRequestID\<close> ignores the error of the read: the buffer then holds zeros.\<close>

definition newLinkID :: "rng \<Rightarrow> string \<times> rng" where
  "newLinkID r =
     (case rand_Read 16 r of
        (None, r') \<Rightarrow> (hex_EncodeToString (replicate 16 0), r')
      | (Some b, r') \<Rightarrow> (hex_EncodeToString b, r'))"

text \<open>Without a link provider nothing happens.\<close>

definition startAccountLink :: "Deps \<Rightarrow> string \<Rightarrow> string \<Rightarrow> string \<Rightarrow> bytes \<Rightarrow> Api \<Rightarrow> Api" where
  "startAccountLink D accountID username password key s =
     (if \<not> d_links D then s
      else (case newLinkID (s_rand s) of (reqID, r') \<Rightarrow>
        let s1 = setLinkReq accountID reqID (s\<lparr>s_rand := r'\<rparr>) in
        s1\<lparr>s_started := s_started s1 @ [\<lparr>ls_reqID = reqID, ls_username = username, ls_password = password,
          ls_accountID = accountID, ls_key = key\<rparr>]\<rparr>))"

definition AddSteamAccount :: "Deps \<Rightarrow> string option \<Rightarrow> handler" where
  "AddSteamAccount D ctx r s =
     (case ctx of
        None \<Rightarrow> (writeError 401 ''unauthorized'', s)
      | Some uid \<Rightarrow>
          (case decodeJSON SteamAccountRequest r of
             None \<Rightarrow> (writeError 400 ''invalid request body'', s)
           | Some req \<Rightarrow>
               if (req ''steam_username'' = '''') \<noteq> (req ''steam_password'' = '''')
               then (writeError 400 ''steam_username and steam_password must be provided together'', s)
               else
                 (case Get (rq_clock r 1) uid (s_keys s) of
                    (None, ks) \<Rightarrow> (writeError 401 ''session expired, please log in again'', s\<lparr>s_keys := ks\<rparr>)
                  | (Some key, ks) \<Rightarrow>
                      (case SteamAccountStore_Create (d_pg D) (rq_clock r 2) uid (req ''steam_username'') (s_db s) of
                         (Panic, db') \<Rightarrow> (recovered, s\<lparr>s_keys := ks, s_db := db'\<rparr>)
                       | (Fail e, db') \<Rightarrow>
                           (if errors_Is e ErrSteamAccountExists then writeError 409 ''a steam account is already linked''
                            else writeError 500 ''could not link steam account'', s\<lparr>s_keys := ks, s_db := db'\<rparr>)
                       | (Ok i, db') \<Rightarrow>
                           (writeJSON 201 (SteamAccountDTO_json \<lparr>dto_ID = i, dto_SteamID = '''',
                              dto_SteamUsername = req ''steam_username'', dto_CreatedAt = ''''\<rparr>),
                            startAccountLink D i (req ''steam_username'') (req ''steam_password'') key
                              (s\<lparr>s_keys := ks, s_db := db'\<rparr>))))))"

section \<open>The end of a link\<close>

text \<open>\<open>splitJWT\<close>: the loop over the bytes with the start of the current segment.\<close>

fun splitJWT_loop :: "string \<Rightarrow> string \<Rightarrow> string list" where
  "splitJWT_loop seg [] = [seg]"
| "splitJWT_loop seg (c # cs) = (if c = CHR ''.'' then seg # splitJWT_loop [] cs else splitJWT_loop (seg @ [c]) cs)"

definition splitJWT :: "string \<Rightarrow> string list" where
  "splitJWT token = splitJWT_loop [] token"

text \<open>A struct with the one field \<open>exp\<close>; other claims are ignored.\<close>

fun exp_claim :: "json \<Rightarrow> int option" where
  "exp_claim (JObj ms) = decode_int ''exp'' ms 0"
| "exp_claim JNull = Some 0"
| "exp_claim j = None"

definition expiryFromJWT :: "string \<Rightarrow> time option" where
  "expiryFromJWT token =
     (case splitJWT token of
        h # p # rest \<Rightarrow>
          (case b64_decode URLAlphabet p of
             None \<Rightarrow> None
           | Some payload \<Rightarrow>
               (case Unmarshal_value (string_of_bytes payload) of
                  None \<Rightarrow> None
                | Some j \<Rightarrow>
                    (case exp_claim j of
                       None \<Rightarrow> None
                     | Some e \<Rightarrow> if e = 0 then None else Some (e * Second))))
      | _ \<Rightarrow> None)"

definition persistRefreshToken :: "Deps \<Rightarrow> string \<Rightarrow> string \<Rightarrow> string \<Rightarrow> bytes \<Rightarrow> Api \<Rightarrow> unit outcome \<times> Api" where
  "persistRefreshToken D accountID ownerSteamID refreshToken key s =
     (case Encrypt (d_crypto D) key (bytes_of_string refreshToken) (s_rand s) of
        (Ok (encToken, encNonce), r') \<Rightarrow>
          (case SaveRefreshToken (d_pg D) accountID ownerSteamID '''' encToken encNonce
                  (expiryFromJWT refreshToken) (s_db s) of
             (res, db') \<Rightarrow> (res, s\<lparr>s_rand := r', s_db := db'\<rparr>))
      | (Fail e, r') \<Rightarrow> (Fail e, s\<lparr>s_rand := r'\<rparr>)
      | (Panic, r') \<Rightarrow> (Panic, s\<lparr>s_rand := r'\<rparr>))"

definition push :: "PushEvent \<Rightarrow> Api \<Rightarrow> Api" where
  "push ev s = s\<lparr>s_hub := Broadcast ev (s_hub s)\<rparr>"

text \<open>
  The callbacks of a link. They run outside the HTTP server, where nothing recovers a panic;
  \<open>None\<close> then stands for the end of the process.
\<close>

datatype LinkCallback =
    OnQrChallenge string
  | OnGuard string
  | OnLinked string string
  | OnError goerror

definition link_callback :: "Deps \<Rightarrow> LinkStart \<Rightarrow> LinkCallback \<Rightarrow> Api \<Rightarrow> Api option" where
  "link_callback D l cb s =
     (case cb of
        OnQrChallenge url \<Rightarrow> Some (push (AccountQrEvent (ls_accountID l) url) s)
      | OnGuard guardType \<Rightarrow> Some (push (AccountGuardEvent (ls_accountID l) guardType) s)
      | OnLinked ownerSteamID refreshToken \<Rightarrow>
          (let s1 = clearLinkReq (ls_accountID l) s in
           case persistRefreshToken D (ls_accountID l) ownerSteamID refreshToken (ls_key l) s1 of
             (Ok u, s2) \<Rightarrow> Some (push (AccountLinkedEvent (ls_accountID l) ownerSteamID) s2)
           | (Fail e, s2) \<Rightarrow>
               Some (push (AccountErrorEvent (ls_accountID l) ''LINK_FAILED'' ''could not store refresh token'') s2)
           | (Panic, s2) \<Rightarrow> None)
      | OnError e \<Rightarrow>
          Some (push (AccountErrorEvent (ls_accountID l) ''LINK_FAILED'' (error_text e)) (clearLinkReq (ls_accountID l) s)))"

section \<open>Guard codes, list, delete\<close>

text \<open>A nil link provider would be dereferenced at the submission.\<close>

definition SubmitAccountSteamGuard :: "Deps \<Rightarrow> string \<Rightarrow> string option \<Rightarrow> handler" where
  "SubmitAccountSteamGuard D accID ctx r s =
     (case ctx of
        None \<Rightarrow> (writeError 401 ''unauthorized'', s)
      | Some uid \<Rightarrow>
          (case decodeJSON SteamGuardRequest r of
             None \<Rightarrow> (writeError 400 ''invalid request body'', s)
           | Some req \<Rightarrow>
               if req ''code'' = '''' then (writeError 400 ''code is required'', s)
               else
                 (case GetByUserID (d_pg D) uid (s_db s) of
                    (Panic, db') \<Rightarrow> (recovered, s\<lparr>s_db := db'\<rparr>)
                  | (Fail e, db') \<Rightarrow>
                      (if errors_Is e ErrSteamAccountNotFound then writeError 404 ''steam account not found''
                       else writeError 500 ''could not load steam account'', s\<lparr>s_db := db'\<rparr>)
                  | (Ok account, db') \<Rightarrow>
                      if sa_ID account \<noteq> accID then (writeError 404 ''steam account not found'', s\<lparr>s_db := db'\<rparr>)
                      else
                        (case getLinkReq accID s of
                           None \<Rightarrow> (writeError 409 ''no steam guard prompt in progress'', s\<lparr>s_db := db'\<rparr>)
                         | Some reqID \<Rightarrow>
                             if \<not> d_links D then (recovered, s\<lparr>s_db := db'\<rparr>)
                             else (case d_submit D (length (s_submitted s)) reqID (req ''code'') of
                                Panic \<Rightarrow> (recovered, s\<lparr>s_db := db', s_submitted := s_submitted s @ [(reqID, req ''code'')]\<rparr>)
                              | Fail e \<Rightarrow> (writeError 502 ''could not submit steam guard code'',
                                  s\<lparr>s_db := db', s_submitted := s_submitted s @ [(reqID, req ''code'')]\<rparr>)
                              | Ok u \<Rightarrow> (writeHeader 204,
                                  s\<lparr>s_db := db', s_submitted := s_submitted s @ [(reqID, req ''code'')]\<rparr>))))))"

definition toSteamAccountDTO :: "Deps \<Rightarrow> SteamAccount \<Rightarrow> SteamAccountDTO" where
  "toSteamAccountDTO D a = \<lparr>dto_ID = sa_ID a, dto_SteamID = sa_SteamID a,
     dto_SteamUsername = sa_SteamUsername a, dto_CreatedAt = d_format D (sa_CreatedAt a)\<rparr>"

definition ListSteamAccounts :: "Deps \<Rightarrow> string option \<Rightarrow> handler" where
  "ListSteamAccounts D ctx r s =
     (case ctx of
        None \<Rightarrow> (writeError 401 ''unauthorized'', s)
      | Some uid \<Rightarrow>
          (case GetByUserID (d_pg D) uid (s_db s) of
             (Panic, db') \<Rightarrow> (recovered, s\<lparr>s_db := db'\<rparr>)
           | (Fail e, db') \<Rightarrow>
               (if errors_Is e ErrSteamAccountNotFound then writeJSON 200 (JArr [])
                else writeError 500 ''could not list steam accounts'', s\<lparr>s_db := db'\<rparr>)
           | (Ok account, db') \<Rightarrow>
               (writeJSON 200 (JArr [SteamAccountDTO_json (toSteamAccountDTO D account)]), s\<lparr>s_db := db'\<rparr>)))"

definition DeleteSteamAccount :: "Deps \<Rightarrow> string \<Rightarrow> string option \<Rightarrow> handler" where
  "DeleteSteamAccount D accID ctx r s =
     (case ctx of
        None \<Rightarrow> (writeError 401 ''unauthorized'', s)
      | Some uid \<Rightarrow>
          (case SteamAccountStore_Delete (d_pg D) uid accID (s_db s) of
             (Panic, db') \<Rightarrow> (recovered, s\<lparr>s_db := db'\<rparr>)
           | (Fail e, db') \<Rightarrow>
               (if errors_Is e ErrSteamAccountNotFound then writeError 404 ''steam account not found''
                else writeError 500 ''could not remove steam account'', s\<lparr>s_db := db'\<rparr>)
           | (Ok u, db') \<Rightarrow> (writeHeader 204, s\<lparr>s_db := db'\<rparr>)))"

section \<open>Friends\<close>

definition toFriendDTO :: "FriendStatus \<Rightarrow> FriendDTO" where
  "toFriendDTO f = \<lparr>f_SteamID = fs_SteamID f, f_PersonaName = fs_PersonaName f,
     f_Online = fs_Online f, f_InMatch = fs_InMatch f\<rparr>"

text \<open>The write-back of the Steam id: its failure is logged and otherwise ignored.\<close>

definition backfill :: "Deps \<Rightarrow> SteamAccount \<Rightarrow> FriendList \<Rightarrow> Api \<Rightarrow> Api" where
  "backfill D account fl s =
     (if sa_SteamID account = '''' \<and> fl_OwnerSteamID fl \<noteq> ''''
      then s\<lparr>s_db := snd (SetSteamID (d_pg D) (sa_ID account) (fl_OwnerSteamID fl) (s_db s))\<rparr> else s)"

definition ListFriends :: "Deps \<Rightarrow> string option \<Rightarrow> handler" where
  "ListFriends D ctx r s =
     (case ctx of
        None \<Rightarrow> (writeError 401 ''unauthorized'', s)
      | Some uid \<Rightarrow>
          (case GetByUserID (d_pg D) uid (s_db s) of
             (Panic, db') \<Rightarrow> (recovered, s\<lparr>s_db := db'\<rparr>)
           | (Fail e, db') \<Rightarrow>
               (if errors_Is e ErrSteamAccountNotFound then writeError 409 ''no steam account linked''
                else writeError 500 ''could not load steam account'', s\<lparr>s_db := db'\<rparr>)
           | (Ok account, db') \<Rightarrow>
               if sa_EncRefreshToken account = [] then (writeError 409 ''steam account link not complete'', s\<lparr>s_db := db'\<rparr>)
               else
                 (case Get (rq_clock r 1) uid (s_keys s) of
                    (None, ks) \<Rightarrow> (writeError 401 ''session expired, please log in again'', s\<lparr>s_db := db', s_keys := ks\<rparr>)
                  | (Some key, ks) \<Rightarrow>
                      (case Decrypt (d_crypto D) key (sa_EncRefreshToken account) (sa_EncRefreshNonce account) of
                         Panic \<Rightarrow> (recovered, s\<lparr>s_db := db', s_keys := ks\<rparr>)
                       | Fail e \<Rightarrow> (writeError 500 ''could not decrypt credentials'', s\<lparr>s_db := db', s_keys := ks\<rparr>)
                       | Ok refreshToken \<Rightarrow>
                           (let s1 = s\<lparr>s_db := db', s_keys := ks, s_asked := s_asked s @ [string_of_bytes refreshToken]\<rparr> in
                            case d_friends D (length (s_asked s)) (string_of_bytes refreshToken) of
                              Panic \<Rightarrow> (recovered, s1)
                            | Fail e \<Rightarrow> (writeError 502 ''could not fetch friends'', s1)
                            | Ok fl \<Rightarrow>
                                (writeJSON 200 (JArr (map FriendDTO_json (d_sort D (map toFriendDTO (fl_Friends fl))))),
                                 backfill D account fl s1))))))"

end
