(* ===== verification/Api_Router.thy ===== *)
theory Api_Router
  imports Api_Steam
begin

text \<open>
  The routes of \<open>Router\<close> (\<open>router.go\<close>) with the stubs of \<open>handlers.go\<close>, the WebSocket endpoint
  (\<open>ws.go\<close>), and the runs of the server: HTTP requests, the callbacks of started links and
  closing connections, in any order.
\<close>

section \<open>Routes\<close>

datatype Endpoint =
    E_Register | E_Login | E_Logout
  | E_ListSteamAccounts | E_AddSteamAccount | E_DeleteSteamAccount string | E_AccountSteamGuard string
  | E_Friends
  | E_CreateSession | E_GetSession string | E_DeleteSession string | E_SessionSteamGuard string
  | E_WebSocket | E_Docs

text \<open>
  The route table over the segments of the path. The root of a mounted subrouter answers with
  and without the final slash; a parameter at the end of a path is not empty.
\<close>

definition GET :: string where "GET = ''GET''"
definition POST :: string where "POST = ''POST''"
definition DELETE :: string where "DELETE = ''DELETE''"

definition route_auth :: "string \<Rightarrow> string list \<Rightarrow> Endpoint option" where
  "route_auth m p =
     (if m = POST \<and> p = [''register''] then Some E_Register
      else if m = POST \<and> p = [''login''] then Some E_Login
      else if m = POST \<and> p = [''logout''] then Some E_Logout else None)"

definition route_accounts :: "string \<Rightarrow> string list \<Rightarrow> Endpoint option" where
  "route_accounts m p =
     (case p of
        [] \<Rightarrow> if m = GET then Some E_ListSteamAccounts else if m = POST then Some E_AddSteamAccount else None
      | [i] \<Rightarrow> if i = '''' then (if m = GET then Some E_ListSteamAccounts else if m = POST then Some E_AddSteamAccount else None)
          else if m = DELETE then Some (E_DeleteSteamAccount i) else None
      | [i, a] \<Rightarrow> if a = ''steamguard'' \<and> m = POST then Some (E_AccountSteamGuard i) else None
      | _ \<Rightarrow> None)"

definition route_sessions :: "string \<Rightarrow> string list \<Rightarrow> Endpoint option" where
  "route_sessions m p =
     (case p of
        [] \<Rightarrow> if m = POST then Some E_CreateSession else None
      | [i] \<Rightarrow> if i = '''' then (if m = POST then Some E_CreateSession else None)
          else if m = GET then Some (E_GetSession i) else if m = DELETE then Some (E_DeleteSession i) else None
      | [i, a] \<Rightarrow> if a = ''steamguard'' \<and> m = POST then Some (E_SessionSteamGuard i) else None
      | _ \<Rightarrow> None)"

definition route :: "string \<Rightarrow> string \<Rightarrow> Endpoint option" where
  "route m path =
     (case split_on CHR ''/'' path of
        e # a # rest \<Rightarrow>
          if e \<noteq> '''' then None
          else if a = ''api'' then
            (case rest of
               b # rest2 \<Rightarrow>
                 if b = ''auth'' then route_auth m rest2
                 else if b = ''steam'' then (case rest2 of c # rest3 \<Rightarrow> if c = ''accounts'' then route_accounts m rest3 else None
                                             | [] \<Rightarrow> None)
                 else if b = ''friends'' \<and> rest2 = [] \<and> m = GET then Some E_Friends
                 else if b = ''sessions'' then route_sessions m rest2 else None
             | [] \<Rightarrow> None)
          else if a = ''ws'' \<and> rest = [] \<and> m = GET then Some E_WebSocket
          else if a = ''docs'' \<and> m = GET then Some E_Docs else None
      | _ \<Rightarrow> None)"

text \<open>\<open>notImplemented\<close>: \<open>http.Error\<close> with a text that looks like an error body.\<close>

definition notImplemented :: handler where
  "notImplemented r s = (\<lparr>rs_status = 501, rs_body = TextBody ''{\"error\":\"not implemented\"}''\<rparr>, s)"

text \<open>The session endpoints are stubs.\<close>

definition CreateSession :: handler where "CreateSession = notImplemented"
definition GetSession :: handler where "GetSession = notImplemented"
definition DeleteSession :: handler where "DeleteSession = notImplemented"
definition SubmitSteamGuard :: handler where "SubmitSteamGuard = notImplemented"

lemmas session_handlers [simp] = CreateSession_def GetSession_def DeleteSession_def SubmitSteamGuard_def

text \<open>
  The answers of the libraries: of chi where no route matches, of the Swagger pages, and of
  \<open>websocket.Accept\<close> when it refuses the upgrade.
\<close>

record Platform =
  chi_unrouted :: "Request \<Rightarrow> Response"
  swagger :: "Request \<Rightarrow> Response"
  ws_refusal :: "Request \<Rightarrow> Response option"

definition switchingProtocols :: Response where
  "switchingProtocols = writeHeader 101"

text \<open>\<open>Hub.ServeHTTP\<close> up to the read loop; its deferred part is \<open>ws_closed\<close>.\<close>

definition ws_open :: "Platform \<Rightarrow> handler" where
  "ws_open P r s =
     (case ws_refusal P r of
        Some resp \<Rightarrow> (resp, s)
      | None \<Rightarrow> (switchingProtocols, s\<lparr>s_hub := hub_add (rq_conn r) (s_hub s)\<rparr>))"

definition ws_closed :: "client \<Rightarrow> Api \<Rightarrow> Api" where
  "ws_closed c s = s\<lparr>s_hub := hub_remove c (s_hub s)\<rparr>"

fun needs_auth :: "Endpoint \<Rightarrow> bool" where
  "needs_auth E_Register = False"
| "needs_auth E_Login = False"
| "needs_auth E_WebSocket = False"
| "needs_auth E_Docs = False"
| "needs_auth _ = True"

fun handler_of :: "Deps \<Rightarrow> Platform \<Rightarrow> Endpoint \<Rightarrow> string option \<Rightarrow> handler" where
  "handler_of D P E_Register ctx = Register D"
| "handler_of D P E_Login ctx = Login D"
| "handler_of D P E_Logout ctx = Logout ctx"
| "handler_of D P E_ListSteamAccounts ctx = ListSteamAccounts D ctx"
| "handler_of D P E_AddSteamAccount ctx = AddSteamAccount D ctx"
| "handler_of D P (E_DeleteSteamAccount i) ctx = DeleteSteamAccount D i ctx"
| "handler_of D P (E_AccountSteamGuard i) ctx = SubmitAccountSteamGuard D i ctx"
| "handler_of D P E_Friends ctx = ListFriends D ctx"
| "handler_of D P E_CreateSession ctx = CreateSession"
| "handler_of D P (E_GetSession i) ctx = GetSession"
| "handler_of D P (E_DeleteSession i) ctx = DeleteSession"
| "handler_of D P (E_SessionSteamGuard i) ctx = SubmitSteamGuard"
| "handler_of D P E_WebSocket ctx = ws_open P"
| "handler_of D P E_Docs ctx = (\<lambda>r s. (swagger P r, s))"

definition serve :: "Deps \<Rightarrow> Platform \<Rightarrow> handler" where
  "serve D P r s =
     (case route (rq_method r) (rq_path r) of
        None \<Rightarrow> (chi_unrouted P r, s)
      | Some e \<Rightarrow> if needs_auth e then requireAuth D (handler_of D P e) r s else handler_of D P e None r s)"

section \<open>Runs\<close>

text \<open>
  A run interleaves requests with the callbacks of links that have been started, in any
  number and order, and with closing WebSocket connections.
\<close>

inductive api_step :: "Deps \<Rightarrow> Platform \<Rightarrow> Api \<Rightarrow> Api \<Rightarrow> bool" for D P where
  http: "serve D P r s = (resp, s') \<Longrightarrow> api_step D P s s'"
| callback: "l \<in> set (s_started s) \<Longrightarrow> link_callback D l cb s = Some s' \<Longrightarrow> api_step D P s s'"
| closed: "api_step D P s (ws_closed c s)"

inductive api_reachable :: "Deps \<Rightarrow> Platform \<Rightarrow> Api \<Rightarrow> bool" for D P where
  api_init: "rand_ok r \<Longrightarrow> api_reachable D P (NewApiServer empty_db (NewKeyCache t) r NewHub)"
| api_next: "api_reachable D P s \<Longrightarrow> api_step D P s s' \<Longrightarrow> api_reachable D P s'"

inductive_cases api_stepE: "api_step D P s s'"

end
