(* ===== verification/Worker_Protocol.thy ===== *)
theory Worker_Protocol
  imports Control_Prelude "HOL-Library.Word"
begin

text \<open>
  The messages of the worker stream (\<open>gen/spectator/v1/worker.pb.go\<close>): the enums at their
  width (an enum of proto3 is open, a worker may send any 32-bit number), the message
  structs and the two oneof payloads. An accessor \<open>GetX\<close> of the generated code is the field
  of the record.
\<close>

section \<open>Enums\<close>

type_synonym WorkerState = "32 word"
type_synonym SteamGuardType = "32 word"

definition SteamGuardType_UNSPECIFIED :: SteamGuardType where "SteamGuardType_UNSPECIFIED = 0"
definition SteamGuardType_EMAIL :: SteamGuardType where "SteamGuardType_EMAIL = 1"
definition SteamGuardType_MOBILE :: SteamGuardType where "SteamGuardType_MOBILE = 2"

section \<open>Events: worker to control plane\<close>

record SteamGuardRequired =
  sg_GuardType :: SteamGuardType
  sg_RequestId :: string

record MatchIdResolved =
  mr_MatchId :: "64 word"
  mr_SteamId :: string

record SteamQrChallenge =
  qr_RequestId :: string
  qr_ChallengeUrl :: string

record ErrorEvent =
  ee_Code :: string
  ee_Message :: string
  ee_Fatal :: bool

record Friend =
  fr_SteamId :: string
  fr_PersonaName :: string
  fr_Online :: bool
  fr_InMatch :: bool

text \<open>A message field is a pointer, nil when the worker did not set it.\<close>

record FriendsResult =
  fres_RequestId :: string
  fres_Friends :: "Friend list"
  fres_OwnerSteamId :: string
  fres_Error :: "ErrorEvent option"

record LinkResult =
  lres_RequestId :: string
  lres_OwnerSteamId :: string
  lres_Error :: "ErrorEvent option"
  lres_RefreshToken :: string

datatype WorkerEvent_Payload =
    Ev_Ready
  | Ev_StatusUpdate WorkerState
  | Ev_SteamGuard SteamGuardRequired
  | Ev_MatchIdResolved MatchIdResolved
  | Ev_StreamStarted string
  | Ev_Error ErrorEvent
  | Ev_FriendsResult FriendsResult
  | Ev_LinkResult LinkResult
  | Ev_QrChallenge SteamQrChallenge

record WorkerEvent =
  ev_WorkerId :: string
  ev_Payload :: "WorkerEvent_Payload option"

section \<open>Commands: control plane to worker\<close>

record LinkAccount =
  la_RequestId :: string
  la_SteamUsername :: string
  la_SteamPassword :: string

record StartSpectate =
  ss_SessionId :: string
  ss_TargetSteamId :: string
  ss_RefreshToken :: string

record ListFriends =
  lf_RequestId :: string
  lf_RefreshToken :: string

record SubmitSteamGuardCode =
  sc_Code :: string
  sc_RequestId :: string

datatype Command =
    Cmd_StartSpectate StartSpectate
  | Cmd_StopSpectate
  | Cmd_SteamGuard SubmitSteamGuardCode
  | Cmd_ListFriends ListFriends
  | Cmd_LinkAccount LinkAccount

text \<open>The request id a command carries, if it is one of those that are answered.\<close>

fun answered_id :: "Command \<Rightarrow> string option" where
  "answered_id (Cmd_ListFriends c) = Some (lf_RequestId c)"
| "answered_id (Cmd_LinkAccount c) = Some (la_RequestId c)"
| "answered_id _ = None"

end
