(* ===== verification/Worker_Server.thy ===== *)
theory Worker_Server
  imports Worker_Protocol Go_Text
begin

text \<open>
  The worker pool (\<open>internal/workers\<close>): the registry of connected workers, the two tables
  that correlate commands with replies by request id, and \<open>Server.handle\<close>, which dispatches
  one worker event. Pointers are references: a \<open>*Worker\<close> is the number of its stream, a
  channel and the callbacks of a call are named by the number of the call that made them.
\<close>

section \<open>Registry\<close>

definition ErrNoWorker :: goerror where
  "ErrNoWorker = ErrorString ''no worker connected''"

type_synonym handle_ref = nat
type_synonym call_ref = nat

record Worker =
  w_ID :: string
  w_send :: "Command list"     \<comment> \<open>the channel, oldest command first\<close>

definition send_cap :: nat where
  "send_cap = 8"

record Registry =
  current :: "handle_ref option"

definition NewRegistry :: Registry where
  "NewRegistry = \<lparr>current = None\<rparr>"

definition register :: "handle_ref \<Rightarrow> Registry \<Rightarrow> Registry" where
  "register w r = r\<lparr>current := Some w\<rparr>"

definition unregister :: "handle_ref \<Rightarrow> Registry \<Rightarrow> Registry" where
  "unregister w r = (if current r = Some w then r\<lparr>current := None\<rparr> else r)"

definition Current :: "Registry \<Rightarrow> handle_ref option" where
  "Current r = current r"

text \<open>A send on a buffered channel: \<open>None\<close> while it blocks.\<close>

definition chan_send :: "nat \<Rightarrow> 'a \<Rightarrow> 'a list \<Rightarrow> 'a list option" where
  "chan_send cap x q = (if length q < cap then Some (q @ [x]) else None)"

text \<open>
  \<open>Registry.Send\<close> reads the current worker, then sends on its channel: two moments between
  which other goroutines run, so two definitions.
\<close>

definition Send_target :: "Registry \<Rightarrow> goerror + handle_ref" where
  "Send_target r = (case Current r of None \<Rightarrow> Inl ErrNoWorker | Some w \<Rightarrow> Inr w)"

definition Send_enqueue :: "Command \<Rightarrow> Worker \<Rightarrow> Worker option" where
  "Send_enqueue cmd w = map_option (\<lambda>q. w\<lparr>w_send := q\<rparr>) (chan_send send_cap cmd (w_send w))"

section \<open>Pending requests\<close>

record pendingFriends =
  pf_chans :: "string \<rightharpoonup> call_ref"

definition newPendingFriends :: pendingFriends where
  "newPendingFriends = \<lparr>pf_chans = Map.empty\<rparr>"

definition pf_add :: "string \<Rightarrow> call_ref \<Rightarrow> pendingFriends \<Rightarrow> pendingFriends" where
  "pf_add reqID ch p = p\<lparr>pf_chans := (pf_chans p)(reqID \<mapsto> ch)\<rparr>"

definition pf_remove :: "string \<Rightarrow> pendingFriends \<Rightarrow> pendingFriends" where
  "pf_remove reqID p = p\<lparr>pf_chans := (pf_chans p)(reqID := None)\<rparr>"

text \<open>\<open>deliver\<close>: the channel the reply is then sent on, outside the lock.\<close>

definition pf_deliver :: "FriendsResult \<Rightarrow> pendingFriends \<Rightarrow> call_ref option" where
  "pf_deliver res p = pf_chans p (fres_RequestId res)"

record pendingLinks =
  pl_chans :: "string \<rightharpoonup> call_ref"
  pl_guards :: "string \<rightharpoonup> call_ref"
  pl_challenges :: "string \<rightharpoonup> call_ref"

definition newPendingLinks :: pendingLinks where
  "newPendingLinks = \<lparr>pl_chans = Map.empty, pl_guards = Map.empty, pl_challenges = Map.empty\<rparr>"

definition pl_add :: "string \<Rightarrow> call_ref \<Rightarrow> call_ref option \<Rightarrow> call_ref option \<Rightarrow> pendingLinks \<Rightarrow> pendingLinks" where
  "pl_add reqID ch onGuard onChallenge p =
     p\<lparr>pl_chans := (pl_chans p)(reqID \<mapsto> ch),
       pl_guards := (case onGuard of None \<Rightarrow> pl_guards p | Some f \<Rightarrow> (pl_guards p)(reqID \<mapsto> f)),
       pl_challenges := (case onChallenge of None \<Rightarrow> pl_challenges p | Some f \<Rightarrow> (pl_challenges p)(reqID \<mapsto> f))\<rparr>"

definition pl_remove :: "string \<Rightarrow> pendingLinks \<Rightarrow> pendingLinks" where
  "pl_remove reqID p =
     p\<lparr>pl_chans := (pl_chans p)(reqID := None), pl_guards := (pl_guards p)(reqID := None),
       pl_challenges := (pl_challenges p)(reqID := None)\<rparr>"

definition pl_deliver :: "LinkResult \<Rightarrow> pendingLinks \<Rightarrow> call_ref option" where
  "pl_deliver res p = pl_chans p (lres_RequestId res)"

definition pl_guard :: "string \<Rightarrow> pendingLinks \<Rightarrow> call_ref option" where
  "pl_guard reqID p = pl_guards p reqID"

definition pl_challenge :: "string \<Rightarrow> pendingLinks \<Rightarrow> call_ref option" where
  "pl_challenge reqID p = pl_challenges p reqID"

section \<open>The contract of a correlation table\<close>

text \<open>
  What a caller and the stream goroutine share: \<open>add\<close> makes an id route to its call, \<open>remove\<close>
  forgets it, and neither touches another id. Both tables of the server, and the callbacks
  of the second, keep it.
\<close>

locale correlation =
  fixes add :: "string \<Rightarrow> call_ref \<Rightarrow> 'p \<Rightarrow> 'p"
    and remove :: "string \<Rightarrow> 'p \<Rightarrow> 'p"
    and route :: "string \<Rightarrow> 'p \<Rightarrow> call_ref option"
    and empty :: 'p
  assumes route_empty: "route r empty = None"
    and route_add: "route r (add r' c p) = (if r = r' then Some c else route r p)"
    and route_remove: "route r (remove r' p) = (if r = r' then None else route r p)"
begin

text \<open>A history of calls: each adds its id or removes it.\<close>

fun replay :: "(string \<times> call_ref option) list \<Rightarrow> 'p \<Rightarrow> 'p" where
  "replay [] p = p"
| "replay ((r, Some c) # h) p = replay h (add r c p)"
| "replay ((r, None) # h) p = replay h (remove r p)"

lemma route_replay:
  "route r (replay h p) = (case filter (\<lambda>e. fst e = r) h of [] \<Rightarrow> route r p | es \<Rightarrow> snd (last es))"
proof (induction h arbitrary: p)
  case (Cons e h)
  obtain r' c where e: "e = (r', c)" by (cases e)
  show ?case
  proof (cases c)
    case None
    then show ?thesis using Cons [of "remove r' p"] by (auto simp: e route_remove split: list.splits)
  next
    case (Some c')
    then show ?thesis using Cons [of "add r' c' p"] by (auto simp: e route_add split: list.splits)
  qed
qed simp

lemma routes_only_to_added:
  assumes "route r (replay h empty) = Some c"
  shows "(r, Some c) \<in> set h"
proof -
  have ne: "filter (\<lambda>e. fst e = r) h \<noteq> []" using assms by (auto simp: route_replay route_empty split: list.splits)
  then have l: "last (filter (\<lambda>e. fst e = r) h) \<in> set h" "fst (last (filter (\<lambda>e. fst e = r) h)) = r"
    using last_in_set [OF ne] by auto
  moreover have "snd (last (filter (\<lambda>e. fst e = r) h)) = Some c"
    using assms ne by (auto simp: route_replay split: list.splits)
  ultimately show ?thesis by (metis prod.collapse)
qed

lemma add_remove_other: "r \<noteq> r' \<Longrightarrow> route r (remove r' (add r' c p)) = route r p"
  by (simp add: route_add route_remove)

end

interpretation friends_table: correlation pf_add pf_remove "\<lambda>r p. pf_chans p r" newPendingFriends
  by unfold_locales (simp_all add: newPendingFriends_def pf_add_def pf_remove_def)

interpretation link_table: correlation "\<lambda>r c. pl_add r c g h" pl_remove "\<lambda>r p. pl_chans p r" newPendingLinks for g h
  by unfold_locales (simp_all add: newPendingLinks_def pl_add_def pl_remove_def)

interpretation guard_table: correlation "\<lambda>r f. pl_add r c (Some f) h" pl_remove pl_guard newPendingLinks for c h
  by unfold_locales (simp_all add: newPendingLinks_def pl_add_def pl_remove_def pl_guard_def)

interpretation challenge_table: correlation "\<lambda>r f. pl_add r c g (Some f)" pl_remove pl_challenge newPendingLinks for c g
  by unfold_locales (simp_all add: newPendingLinks_def pl_add_def pl_remove_def pl_challenge_def)

section \<open>The server\<close>

record Server =
  reg :: Registry
  pending :: pendingFriends
  links :: pendingLinks

definition NewServer :: Server where
  "NewServer = \<lparr>reg = NewRegistry, pending = newPendingFriends, links = newPendingLinks\<rparr>"

datatype reply = FriendsReply FriendsResult | LinkReply LinkResult

fun reply_id :: "reply \<Rightarrow> string" where
  "reply_id (FriendsReply r) = fres_RequestId r"
| "reply_id (LinkReply r) = lres_RequestId r"

text \<open>
  What \<open>handle\<close> does beyond the tables: it puts a reply on the channel of a call (which may
  block), or runs a callback of a call. An event without effect is only logged.
\<close>

datatype effect =
    Logged
  | PutReply call_ref reply
  | RunGuard call_ref SteamGuardType
  | RunChallenge call_ref string

definition handle :: "handle_ref \<Rightarrow> WorkerEvent \<Rightarrow> Worker \<Rightarrow> Server \<Rightarrow> Worker \<times> Server \<times> effect" where
  "handle w ev wk s =
     (case ev_Payload ev of
        Some Ev_Ready \<Rightarrow> (wk\<lparr>w_ID := ev_WorkerId ev\<rparr>, s\<lparr>reg := register w (reg s)\<rparr>, Logged)
      | Some (Ev_StatusUpdate st) \<Rightarrow> (wk, s, Logged)
      | Some (Ev_SteamGuard g) \<Rightarrow>
          (wk, s, case pl_guard (sg_RequestId g) (links s) of None \<Rightarrow> Logged | Some c \<Rightarrow> RunGuard c (sg_GuardType g))
      | Some (Ev_QrChallenge q) \<Rightarrow>
          (wk, s, case pl_challenge (qr_RequestId q) (links s) of None \<Rightarrow> Logged | Some c \<Rightarrow> RunChallenge c (qr_ChallengeUrl q))
      | Some (Ev_MatchIdResolved m) \<Rightarrow> (wk, s, Logged)
      | Some (Ev_StreamStarted u) \<Rightarrow> (wk, s, Logged)
      | Some (Ev_Error e) \<Rightarrow> (wk, s, Logged)
      | Some (Ev_FriendsResult r) \<Rightarrow>
          (wk, s, case pf_deliver r (pending s) of None \<Rightarrow> Logged | Some c \<Rightarrow> PutReply c (FriendsReply r))
      | Some (Ev_LinkResult r) \<Rightarrow>
          (wk, s, case pl_deliver r (links s) of None \<Rightarrow> Logged | Some c \<Rightarrow> PutReply c (LinkReply r))
      | None \<Rightarrow> (wk, s, Logged))"

text \<open>\<open>newRequestID\<close> of the package: 16 random bytes in hexadecimal.\<close>

definition newRequestID :: "rng \<Rightarrow> string outcome \<times> rng" where
  "newRequestID r =
     (case rand_Read 16 r of
        (None, r') \<Rightarrow> (Fail (WrapError ''workers: request id'' rand_error), r')
      | (Some b, r') \<Rightarrow> (Ok (hex_EncodeToString b), r'))"

lemma newRequestID_length: "rand_ok r \<Longrightarrow> newRequestID r = (Ok i, r') \<Longrightarrow> length i = 32"
  by (auto simp: newRequestID_def dest: rand_Read_length
      split: option.splits prod.splits)

end
