(* ===== verification/Worker_Runs.thy ===== *)
theory Worker_Runs
  imports Worker_Server
begin

text \<open>
  The goroutines of \<open>internal/workers\<close> and their interleavings: one stream loop and one pump
  per connected worker (\<open>WorkerSession\<close>), and one goroutine per call of \<open>ListFriends\<close>,
  \<open>Link\<close> or \<open>SubmitGuardCode\<close>. A step is one atomic action of one of them; the \<open>select\<close> of
  a waiting call is a choice between two steps. The worker is the environment: it may send
  any event at any time.
\<close>

section \<open>State\<close>

datatype callback = GuardCallback SteamGuardType | ChallengeCallback string

text \<open>
  A stream loop receives, or is in \<open>handle\<close>: about to send a reply on the channel of a call,
  or about to run a callback of a call, both looked up before and outside the lock.
\<close>

datatype stream_pc = Receiving | Putting call_ref reply | Calling call_ref callback | Ended

datatype request =
    AskFriends string                 \<comment> \<open>\<open>ListFriends(refreshToken)\<close>\<close>
  | AskLink string string bool bool   \<comment> \<open>\<open>Link(username, password)\<close>, callbacks not nil\<close>
  | AskGuard string                   \<comment> \<open>\<open>SubmitGuardCode(code)\<close>\<close>

datatype answer = Failed goerror | Answered reply | Submitted

text \<open>
  Where a call is: after \<open>add\<close>; in \<open>Registry.Send\<close> with the worker it read; in the final
  \<open>select\<close>; in the deferred \<open>remove\<close>; back at its caller.
\<close>

datatype call_pc = Added | Sending handle_ref | Waiting | Leaving answer | Returned answer

record Call =
  c_req :: request
  c_id :: string
  c_pc :: call_pc

fun command_of :: "Call \<Rightarrow> Command" where
  "command_of k = (case c_req k of
     AskFriends tok \<Rightarrow> Cmd_ListFriends \<lparr>lf_RequestId = c_id k, lf_RefreshToken = tok\<rparr>
   | AskLink u p g h \<Rightarrow> Cmd_LinkAccount \<lparr>la_RequestId = c_id k, la_SteamUsername = u, la_SteamPassword = p\<rparr>
   | AskGuard code \<Rightarrow> Cmd_SteamGuard \<lparr>sc_Code = code, sc_RequestId = c_id k\<rparr>)"

record Pool =
  server :: Server
  handles :: "handle_ref \<rightharpoonup> Worker"
  streams :: "handle_ref \<Rightarrow> stream_pc"
  pumping :: "handle_ref \<Rightarrow> bool"
  wire :: "handle_ref \<Rightarrow> Command list"
  calls :: "call_ref \<rightharpoonup> Call"
  chans :: "call_ref \<Rightarrow> reply list"
  ran :: "(call_ref \<times> callback) list"

definition pool_start :: Pool where
  "pool_start = \<lparr>server = NewServer, handles = Map.empty, streams = (\<lambda>w. Ended), pumping = (\<lambda>w. False),
     wire = (\<lambda>w. []), calls = Map.empty, chans = (\<lambda>c. []), ran = []\<rparr>"

section \<open>Steps\<close>

definition chan_cap :: nat where
  "chan_cap = 1"

text \<open>The start of a call: its channel and its entry in the table of its kind.\<close>

definition begin_call :: "call_ref \<Rightarrow> string \<Rightarrow> request \<Rightarrow> Pool \<Rightarrow> Pool" where
  "begin_call c rid q s =
     s\<lparr>calls := (calls s)(c \<mapsto> \<lparr>c_req = q, c_id = rid, c_pc = Added\<rparr>),
       server := (case q of
          AskFriends tok \<Rightarrow> (server s)\<lparr>pending := pf_add rid c (pending (server s))\<rparr>
        | AskLink u p g h \<Rightarrow> (server s)\<lparr>links := pl_add rid c (if g then Some c else None)
            (if h then Some c else None) (links (server s))\<rparr>
        | AskGuard code \<Rightarrow> server s)\<rparr>"

text \<open>The deferred \<open>remove\<close>.\<close>

definition end_call :: "call_ref \<Rightarrow> Call \<Rightarrow> answer \<Rightarrow> Pool \<Rightarrow> Pool" where
  "end_call c k a s =
     s\<lparr>calls := (calls s)(c \<mapsto> k\<lparr>c_pc := Returned a\<rparr>),
       server := (case c_req k of
          AskFriends tok \<Rightarrow> (server s)\<lparr>pending := pf_remove (c_id k) (pending (server s))\<rparr>
        | AskLink u p g h \<Rightarrow> (server s)\<lparr>links := pl_remove (c_id k) (links (server s))\<rparr>
        | AskGuard code \<Rightarrow> server s)\<rparr>"

definition set_pc :: "call_ref \<Rightarrow> Call \<Rightarrow> call_pc \<Rightarrow> Pool \<Rightarrow> Pool" where
  "set_pc c k pc s = s\<lparr>calls := (calls s)(c \<mapsto> k\<lparr>c_pc := pc\<rparr>)\<rparr>"

text \<open>The control flow after the send: a relayed code is not answered.\<close>

fun after_send :: "request \<Rightarrow> call_pc" where
  "after_send (AskGuard code) = Leaving Submitted"
| "after_send q = Waiting"

fun run_effect :: "handle_ref \<Rightarrow> effect \<Rightarrow> Pool \<Rightarrow> Pool" where
  "run_effect w Logged s = s"
| "run_effect w (PutReply c r) s = s\<lparr>streams := (streams s)(w := Putting c r)\<rparr>"
| "run_effect w (RunGuard c t) s = s\<lparr>streams := (streams s)(w := Calling c (GuardCallback t))\<rparr>"
| "run_effect w (RunChallenge c u) s = s\<lparr>streams := (streams s)(w := Calling c (ChallengeCallback u))\<rparr>"

text \<open>\<open>stream.Recv\<close> gave an event: \<open>handle\<close> runs in the stream goroutine.\<close>

definition receive :: "handle_ref \<Rightarrow> WorkerEvent \<Rightarrow> Worker \<Rightarrow> Pool \<Rightarrow> Pool" where
  "receive w ev wk s =
     (case handle w ev wk (server s) of (wk', srv, eff) \<Rightarrow>
        run_effect w eff (s\<lparr>handles := (handles s)(w \<mapsto> wk'), server := srv\<rparr>))"

inductive pool_step :: "Pool \<Rightarrow> Pool \<Rightarrow> bool" where
  connect: "handles s w = None \<Longrightarrow>
     pool_step s (s\<lparr>handles := (handles s)(w \<mapsto> \<lparr>w_ID = '''', w_send = []\<rparr>),
       streams := (streams s)(w := Receiving), pumping := (pumping s)(w := True)\<rparr>)"
| recv: "streams s w = Receiving \<Longrightarrow> handles s w = Some wk \<Longrightarrow> pool_step s (receive w ev wk s)"
| put: "streams s w = Putting c r \<Longrightarrow> chan_send chan_cap r (chans s c) = Some q \<Longrightarrow>
     pool_step s (s\<lparr>chans := (chans s)(c := q), streams := (streams s)(w := Receiving)\<rparr>)"
| call_back: "streams s w = Calling c cb \<Longrightarrow>
     pool_step s (s\<lparr>ran := ran s @ [(c, cb)], streams := (streams s)(w := Receiving)\<rparr>)"
| hangup: "streams s w = Receiving \<Longrightarrow>
     pool_step s (s\<lparr>streams := (streams s)(w := Ended),
       server := (server s)\<lparr>reg := unregister w (reg (server s))\<rparr>\<rparr>)"
| pump: "pumping s w \<Longrightarrow> handles s w = Some wk \<Longrightarrow> w_send wk = cmd # q \<Longrightarrow>
     pool_step s (s\<lparr>handles := (handles s)(w \<mapsto> wk\<lparr>w_send := q\<rparr>), wire := (wire s)(w := wire s w @ [cmd])\<rparr>)"
| pump_failed: "pumping s w \<Longrightarrow> handles s w = Some wk \<Longrightarrow> w_send wk = cmd # q \<Longrightarrow>
     pool_step s (s\<lparr>handles := (handles s)(w \<mapsto> wk\<lparr>w_send := q\<rparr>), pumping := (pumping s)(w := False)\<rparr>)"
| pump_done: "pumping s w \<Longrightarrow> pool_step s (s\<lparr>pumping := (pumping s)(w := False)\<rparr>)"
| begin_it: "calls s c = None \<Longrightarrow> pool_step s (begin_call c rid q s)"
| no_worker: "calls s c = Some k \<Longrightarrow> c_pc k = Added \<Longrightarrow> Send_target (reg (server s)) = Inl e \<Longrightarrow>
     pool_step s (set_pc c k (Leaving (Failed e)) s)"
| pick: "calls s c = Some k \<Longrightarrow> c_pc k = Added \<Longrightarrow> Send_target (reg (server s)) = Inr w \<Longrightarrow>
     pool_step s (set_pc c k (Sending w) s)"
| enqueue: "calls s c = Some k \<Longrightarrow> c_pc k = Sending w \<Longrightarrow> handles s w = Some wk \<Longrightarrow>
     Send_enqueue (command_of k) wk = Some wk' \<Longrightarrow>
     pool_step s (set_pc c k (after_send (c_req k)) (s\<lparr>handles := (handles s)(w \<mapsto> wk')\<rparr>))"
| expire: "calls s c = Some k \<Longrightarrow> c_pc k = Waiting \<Longrightarrow>
     pool_step s (set_pc c k (Leaving (Failed (ExternalError e))) s)"
| wake: "calls s c = Some k \<Longrightarrow> c_pc k = Waiting \<Longrightarrow> chans s c = r # q \<Longrightarrow>
     pool_step s (set_pc c k (Leaving (Answered r)) (s\<lparr>chans := (chans s)(c := q)\<rparr>))"
| leave: "calls s c = Some k \<Longrightarrow> c_pc k = Leaving a \<Longrightarrow> pool_step s (end_call c k a s)"

inductive pool_reachable :: "Pool \<Rightarrow> bool" where
  pool_init: "pool_reachable pool_start"
| pool_next: "pool_reachable s \<Longrightarrow> pool_step s s' \<Longrightarrow> pool_reachable s'"

inductive_cases pool_stepE: "pool_step s s'"

section \<open>What one event can do\<close>

lemma handle_frame:
  assumes "handle w ev wk s = (wk', s', eff)"
  shows "pending s' = pending s" "links s' = links s" "w_send wk' = w_send wk"
    "reg s' = reg s \<or> reg s' = register w (reg s)"
    "eff = PutReply c (FriendsReply fr) \<Longrightarrow> pf_chans (pending s) (fres_RequestId fr) = Some c"
    "eff = PutReply c (LinkReply lr) \<Longrightarrow> pl_chans (links s) (lres_RequestId lr) = Some c"
    "eff = RunGuard c t \<Longrightarrow> \<exists>r. pl_guards (links s) r = Some c"
    "eff = RunChallenge c u \<Longrightarrow> \<exists>r. pl_challenges (links s) r = Some c"
  using assms
  by (auto simp: handle_def pf_deliver_def pl_deliver_def pl_guard_def pl_challenge_def
      split: option.splits WorkerEvent_Payload.splits)

lemma receive_frame [simp]:
  "calls (receive w ev wk s) = calls s" "chans (receive w ev wk s) = chans s"
  "pending (server (receive w ev wk s)) = pending (server s)"
  "links (server (receive w ev wk s)) = links (server s)"
  "wire (receive w ev wk s) = wire s" "pumping (receive w ev wk s) = pumping s"
proof -
  obtain wk' s' eff where h: "handle w ev wk (server s) = (wk', s', eff)" by (rule prod_cases3)
  show "calls (receive w ev wk s) = calls s" "chans (receive w ev wk s) = chans s"
    "pending (server (receive w ev wk s)) = pending (server s)"
    "links (server (receive w ev wk s)) = links (server s)"
    "wire (receive w ev wk s) = wire s" "pumping (receive w ev wk s) = pumping s"
    using handle_frame(1,2) [OF h] by (cases eff; simp add: receive_def h)+
qed

lemma receive_handles:
  "\<exists>wk'. handles (receive w ev wk s) = (handles s)(w \<mapsto> wk') \<and> w_send wk' = w_send wk"
proof -
  obtain wk' s' eff where h: "handle w ev wk (server s) = (wk', s', eff)" by (rule prod_cases3)
  show ?thesis using handle_frame(3) [OF h] by (cases eff) (auto simp: receive_def h)
qed

lemma receive_reg:
  "reg (server (receive w ev wk s)) = reg (server s) \<or>
   reg (server (receive w ev wk s)) = register w (reg (server s))"
proof -
  obtain wk' s' eff where h: "handle w ev wk (server s) = (wk', s', eff)" by (rule prod_cases3)
  show ?thesis using handle_frame(4) [OF h] by (cases eff) (auto simp: receive_def h)
qed

text \<open>What an event routes to a call: a reply by its id, a callback that the call registered.\<close>

fun routed :: "Server \<Rightarrow> stream_pc \<Rightarrow> bool" where
  "routed s (Putting c (FriendsReply fr)) = (pf_chans (pending s) (fres_RequestId fr) = Some c)"
| "routed s (Putting c (LinkReply lr)) = (pl_chans (links s) (lres_RequestId lr) = Some c)"
| "routed s (Calling c (GuardCallback t)) = (\<exists>r. pl_guards (links s) r = Some c)"
| "routed s (Calling c (ChallengeCallback u)) = (\<exists>r. pl_challenges (links s) r = Some c)"
| "routed s pc = False"

lemma receive_streams:
  assumes "streams s w = Receiving"
  shows "\<exists>pc. streams (receive w ev wk s) = (streams s)(w := pc) \<and> (pc = Receiving \<or> routed (server s) pc)"
proof -
  obtain wk' s' eff where h: "handle w ev wk (server s) = (wk', s', eff)" by (rule prod_cases3)
  show ?thesis
  proof (cases eff)
    case Logged
    then show ?thesis using assms by (intro exI [of _ Receiving]) (simp add: receive_def h fun_upd_idem)
  next
    case (PutReply c r)
    then have "routed (server s) (Putting c r)" using handle_frame(5,6) [OF h] by (cases r) auto
    with PutReply show ?thesis by (intro exI [of _ "Putting c r"]) (simp add: receive_def h)
  next
    case (RunGuard c t)
    then show ?thesis using handle_frame(7) [OF h]
      by (intro exI [of _ "Calling c (GuardCallback t)"]) (simp add: receive_def h)
  next
    case (RunChallenge c u)
    then show ?thesis using handle_frame(8) [OF h]
      by (intro exI [of _ "Calling c (ChallengeCallback u)"]) (simp add: receive_def h)
  qed
qed

lemma receive_ran [simp]: "ran (receive w ev wk s) = ran s"
proof -
  obtain wk' s' eff where h: "handle w ev wk (server s) = (wk', s', eff)" by (rule prod_cases3)
  show ?thesis by (cases eff) (simp_all add: receive_def h)
qed

section \<open>Invariants\<close>

fun is_friends :: "request \<Rightarrow> bool" where
  "is_friends (AskFriends tok) = True"
| "is_friends q = False"

fun is_link :: "request \<Rightarrow> bool" where
  "is_link (AskLink u p g h) = True"
| "is_link q = False"

text \<open>The callbacks of a link that are not nil.\<close>

fun wants_guard :: "request \<Rightarrow> bool" where
  "wants_guard (AskLink u p g h) = g"
| "wants_guard q = False"

fun wants_challenge :: "request \<Rightarrow> bool" where
  "wants_challenge (AskLink u p g h) = h"
| "wants_challenge q = False"

fun live :: "call_pc \<Rightarrow> bool" where
  "live (Returned a) = False"
| "live pc = True"

text \<open>A call keeps its request and its id, and is never forgotten; once returned, it stays so.\<close>

lemma step_keeps_call:
  assumes "pool_step s s'" "calls s c = Some k"
  shows "\<exists>k'. calls s' c = Some k' \<and> c_req k' = c_req k \<and> c_id k' = c_id k \<and> (live (c_pc k') \<longrightarrow> live (c_pc k))
    \<and> (\<not> live (c_pc k) \<longrightarrow> k' = k)"
  using assms by (cases rule: pool_step.cases) (auto simp: begin_call_def end_call_def set_pc_def)

text \<open>The four routing tables name live calls of the right kind, under their own id.\<close>

definition table_ok :: "(request \<Rightarrow> bool) \<Rightarrow> (string \<rightharpoonup> call_ref) \<Rightarrow> (call_ref \<rightharpoonup> Call) \<Rightarrow> bool" where
  "table_ok kind m cs \<longleftrightarrow> (\<forall>r c. m r = Some c \<longrightarrow>
     (\<exists>k. cs c = Some k \<and> kind (c_req k) \<and> c_id k = r \<and> live (c_pc k)))"

definition tables_ok :: "Pool \<Rightarrow> bool" where
  "tables_ok s \<longleftrightarrow> table_ok is_friends (pf_chans (pending (server s))) (calls s)
     \<and> table_ok is_link (pl_chans (links (server s))) (calls s)
     \<and> table_ok wants_guard (pl_guards (links (server s))) (calls s)
     \<and> table_ok wants_challenge (pl_challenges (links (server s))) (calls s)"

lemma table_okD: "table_ok kind m cs \<Longrightarrow> m r = Some c \<Longrightarrow>
    \<exists>k. cs c = Some k \<and> kind (c_req k) \<and> c_id k = r \<and> live (c_pc k)"
  by (simp add: table_ok_def)

lemma table_ok_new:
  assumes "table_ok kind m cs" "cs c = None"
  shows "table_ok kind m (cs(c \<mapsto> k))"
  unfolding table_ok_def
proof (intro allI impI)
  fix r c' assume "m r = Some c'"
  from table_okD [OF assms(1) this] assms(2)
  show "\<exists>k'. (cs(c \<mapsto> k)) c' = Some k' \<and> kind (c_req k') \<and> c_id k' = r \<and> live (c_pc k')"
    by (cases "c' = c") auto
qed

lemma table_ok_add:
  assumes "table_ok kind m cs" "cs c = None" "kind (c_req k)" "live (c_pc k)"
  shows "table_ok kind (m(c_id k \<mapsto> c)) (cs(c \<mapsto> k))"
  using table_ok_new [OF assms(1,2), of k] assms(3,4) unfolding table_ok_def by simp

lemma table_ok_move:
  assumes "table_ok kind m cs" "cs c = Some k" "live pc"
  shows "table_ok kind m (cs(c \<mapsto> k\<lparr>c_pc := pc\<rparr>))"
  unfolding table_ok_def
proof (intro allI impI)
  fix r c' assume "m r = Some c'"
  from table_okD [OF assms(1) this] assms(2,3)
  show "\<exists>k'. (cs(c \<mapsto> k\<lparr>c_pc := pc\<rparr>)) c' = Some k' \<and> kind (c_req k') \<and> c_id k' = r \<and> live (c_pc k')"
    by (cases "c' = c") auto
qed

lemma table_ok_remove:
  assumes "table_ok kind m cs" "cs c = Some k"
  shows "table_ok kind (m(c_id k := None)) (cs(c \<mapsto> k'))"
  unfolding table_ok_def
proof (intro allI impI)
  fix r c' assume m: "(m(c_id k := None)) r = Some c'"
  then have "r \<noteq> c_id k" "m r = Some c'" by (auto split: if_splits)
  from table_okD [OF assms(1) this(2)] this(1) assms(2)
  show "\<exists>l. (cs(c \<mapsto> k')) c' = Some l \<and> kind (c_req l) \<and> c_id l = r \<and> live (c_pc l)"
    by (cases "c' = c") auto
qed

lemma table_ok_other:
  assumes "table_ok kind m cs" "cs c = Some k" "\<not> kind (c_req k)"
  shows "table_ok kind m (cs(c \<mapsto> k'))"
  unfolding table_ok_def
proof (intro allI impI)
  fix r c' assume "m r = Some c'"
  from table_okD [OF assms(1) this] assms(2,3)
  show "\<exists>l. (cs(c \<mapsto> k')) c' = Some l \<and> kind (c_req l) \<and> c_id l = r \<and> live (c_pc l)"
    by (cases "c' = c") auto
qed

lemma begin_calls [simp]: "calls (begin_call c rid q s) = (calls s)(c \<mapsto> \<lparr>c_req = q, c_id = rid, c_pc = Added\<rparr>)"
  by (simp add: begin_call_def)

lemma end_calls [simp]: "calls (end_call c k a s) = (calls s)(c \<mapsto> k\<lparr>c_pc := Returned a\<rparr>)"
  by (simp add: end_call_def)

lemma set_pc_simps [simp]: "calls (set_pc c k pc s) = (calls s)(c \<mapsto> k\<lparr>c_pc := pc\<rparr>)"
  "server (set_pc c k pc s) = server s" "handles (set_pc c k pc s) = handles s" "streams (set_pc c k pc s) = streams s"
  "chans (set_pc c k pc s) = chans s" "wire (set_pc c k pc s) = wire s" "pumping (set_pc c k pc s) = pumping s"
  "ran (set_pc c k pc s) = ran s"
  by (simp_all add: set_pc_def)

lemma begin_tables:
  assumes "tables_ok s" "calls s c = None"
  shows "tables_ok (begin_call c rid q s)"
proof -
  note new = table_ok_new [where cs = "calls s" and c = c and k = "\<lparr>c_req = q, c_id = rid, c_pc = Added\<rparr>", OF _ assms(2)]
  have add: "table_ok kind (m(rid \<mapsto> c)) (calls (begin_call c rid q s))" if "table_ok kind m (calls s)" "kind q" for kind m
    using table_ok_add [where cs = "calls s" and c = c and k = "\<lparr>c_req = q, c_id = rid, c_pc = Added\<rparr>", OF that(1) assms(2)] that(2) by simp
  show ?thesis
  proof (cases q)
    case (AskFriends tok)
    then show ?thesis using assms(1) new add [of is_friends] unfolding tables_ok_def
      by (simp add: begin_call_def pf_add_def)
  next
    case (AskLink u p g h)
    then show ?thesis using assms(1) new add [of is_link] add [of wants_guard] add [of wants_challenge] unfolding tables_ok_def
      by (cases g; cases h) (simp_all add: begin_call_def pl_add_def)
  next
    case (AskGuard code)
    then show ?thesis using assms(1) new unfolding tables_ok_def
      by (simp add: begin_call_def)
  qed
qed

lemma end_tables:
  assumes "tables_ok s" "calls s c = Some k"
  shows "tables_ok (end_call c k a s)"
proof -
  note rem = table_ok_remove [where cs = "calls s" and c = c and k = k and k' = "k\<lparr>c_pc := Returned a\<rparr>", OF _ assms(2)]
  note oth = table_ok_other [where cs = "calls s" and c = c and k = k and k' = "k\<lparr>c_pc := Returned a\<rparr>", OF _ assms(2)]
  show ?thesis
  proof (cases "c_req k")
    case (AskFriends tok)
    then show ?thesis using assms(1) rem oth [of is_link] oth [of wants_guard] oth [of wants_challenge] unfolding tables_ok_def
      by (simp add: end_call_def pf_remove_def)
  next
    case (AskLink u p g h)
    then show ?thesis using assms(1) rem oth [of is_friends] unfolding tables_ok_def
      by (simp add: end_call_def pl_remove_def)
  next
    case (AskGuard code)
    then show ?thesis using assms(1) oth unfolding tables_ok_def
      by (simp add: end_call_def)
  qed
qed

lemma after_send_live [simp]: "live (after_send q)"
  by (cases q) auto

lemma step_tables:
  assumes "pool_step s s'" "tables_ok s"
  shows "tables_ok s'"
  using assms
proof (cases rule: pool_step.cases)
  case (begin_it c rid q)
  with assms(2) show ?thesis by (simp add: begin_tables)
next
  case (leave c k a)
  with assms(2) show ?thesis by (simp add: end_tables)
qed (use assms(2) in \<open>auto simp: tables_ok_def table_ok_move\<close>)

text \<open>A reply fits a call when it is of its kind and carries its id.\<close>

fun fits :: "Call \<Rightarrow> reply \<Rightarrow> bool" where
  "fits k (FriendsReply r) = (is_friends (c_req k) \<and> fres_RequestId r = c_id k)"
| "fits k (LinkReply r) = (is_link (c_req k) \<and> lres_RequestId r = c_id k)"

definition fits_call :: "(call_ref \<rightharpoonup> Call) \<Rightarrow> call_ref \<Rightarrow> reply \<Rightarrow> bool" where
  "fits_call cs c r \<longleftrightarrow> (\<exists>k. cs c = Some k \<and> fits k r)"

text \<open>Every reply under way, on a channel, or with its call, fits its call.\<close>

definition replies_ok :: "Pool \<Rightarrow> bool" where
  "replies_ok s \<longleftrightarrow> (\<forall>w c r. streams s w = Putting c r \<longrightarrow> fits_call (calls s) c r)
     \<and> (\<forall>c. \<forall>r \<in> set (chans s c). fits_call (calls s) c r)
     \<and> (\<forall>c k r. calls s c = Some k \<longrightarrow> c_pc k = Leaving (Answered r) \<or> c_pc k = Returned (Answered r) \<longrightarrow> fits k r)"

lemma fits_cong: "c_req k' = c_req k \<Longrightarrow> c_id k' = c_id k \<Longrightarrow> fits k' r = fits k r"
  by (cases r) auto

lemma fits_move [simp]: "fits (k\<lparr>c_pc := pc\<rparr>) r = fits k r"
  by (rule fits_cong) auto

lemma fits_call_step:
  assumes "pool_step s s'" "fits_call (calls s) c r"
  shows "fits_call (calls s') c r"
  using assms(2) step_keeps_call [OF assms(1)] fits_cong unfolding fits_call_def by metis

lemma routed_fits:
  assumes "tables_ok s" "routed (server s) (Putting c r)"
  shows "fits_call (calls s) c r"
proof (cases r)
  case (FriendsReply fr)
  with assms table_okD [of is_friends "pf_chans (pending (server s))" "calls s" "fres_RequestId fr" c]
  show ?thesis by (auto simp: tables_ok_def fits_call_def)
next
  case (LinkReply lr)
  with assms table_okD [of is_link "pl_chans (links (server s))" "calls s" "lres_RequestId lr" c]
  show ?thesis by (auto simp: tables_ok_def fits_call_def)
qed

lemma chan_send_set: "chan_send n r q = Some q' \<Longrightarrow> set q' = insert r (set q) \<and> length q' \<le> n \<and> length q' = Suc (length q)"
  by (auto simp: chan_send_def split: if_splits)

lemma begin_frame [simp]: "streams (begin_call c rid q s) = streams s" "chans (begin_call c rid q s) = chans s"
  "handles (begin_call c rid q s) = handles s" "wire (begin_call c rid q s) = wire s"
  "reg (server (begin_call c rid q s)) = reg (server s)"
  by (cases q; simp add: begin_call_def)+

lemma end_frame [simp]: "streams (end_call c k a s) = streams s" "chans (end_call c k a s) = chans s"
  "handles (end_call c k a s) = handles s" "wire (end_call c k a s) = wire s"
  "reg (server (end_call c k a s)) = reg (server s)"
  by (cases "c_req k"; simp add: end_call_def)+

lemma after_send_cases: "after_send q = Waiting \<or> after_send q = Leaving Submitted"
  by (cases q) auto

text \<open>The three parts, each preserved by a step.\<close>

lemma step_putting:
  assumes st: "pool_step s s'" and t: "tables_ok s"
    and ok: "\<And>w c r. streams s w = Putting c r \<Longrightarrow> fits_call (calls s) c r" and p: "streams s' w = Putting c r"
  shows "fits_call (calls s') c r"
proof -
  have "streams s w = Putting c r \<or> fits_call (calls s) c r"
    using st
  proof (cases rule: pool_step.cases)
    case (recv v wk ev)
    obtain pc where pc: "streams (receive v ev wk s) = (streams s)(v := pc)" "pc = Receiving \<or> routed (server s) pc"
      using receive_streams [OF recv(2), of ev wk] by blast
    show ?thesis using p routed_fits [OF t] pc recv(1) by (auto split: if_splits)
  qed (use p in \<open>auto split: if_splits\<close>)
  with ok fits_call_step [OF st] show ?thesis by blast
qed

lemma step_chans:
  assumes st: "pool_step s s'" and ok: "\<And>c r. r \<in> set (chans s c) \<Longrightarrow> fits_call (calls s) c r"
    and pt: "\<And>w c r. streams s w = Putting c r \<Longrightarrow> fits_call (calls s) c r" and r: "r \<in> set (chans s' c)"
  shows "fits_call (calls s') c r"
proof -
  have "r \<in> set (chans s c) \<or> (\<exists>w. streams s w = Putting c r)"
    using st
  proof (cases rule: pool_step.cases)
    case (put w c' r' q)
    then show ?thesis using r chan_send_set [OF put(3)] by (auto split: if_splits)
  qed (use r in \<open>auto split: if_splits\<close>)
  with ok pt fits_call_step [OF st] show ?thesis by blast
qed

lemma step_answers:
  assumes st: "pool_step s s'" and ch: "\<And>c r. r \<in> set (chans s c) \<Longrightarrow> fits_call (calls s) c r"
    and ok: "\<And>c k r. calls s c = Some k \<Longrightarrow> c_pc k = Leaving (Answered r) \<or> c_pc k = Returned (Answered r) \<Longrightarrow> fits k r"
    and k: "calls s' c = Some k" "c_pc k = Leaving (Answered r) \<or> c_pc k = Returned (Answered r)"
  shows "fits k r"
  using st
proof (cases rule: pool_step.cases)
  case (wake c' k' r' q)
  have "fits_call (calls s) c' r'" by (rule ch) (simp add: wake(4))
  then show ?thesis using k ok [of c k r] wake(1,2) by (auto simp: fits_call_def split: if_splits)
next
  case (enqueue c' k' w wk wk')
  then show ?thesis using k ok [of c k r] after_send_cases [of "c_req k'"] by (auto split: if_splits)
next
  case (leave c' k' a)
  then show ?thesis using k ok [of c k r] ok [OF leave(2), of r] by (auto split: if_splits)
qed (use k ok [of c k r] in \<open>auto split: if_splits\<close>)

lemma step_replies:
  assumes "pool_step s s'" "tables_ok s" "replies_ok s"
  shows "replies_ok s'"
  using step_putting [OF assms(1,2)] step_chans [OF assms(1)] step_answers [OF assms(1)] assms(3)
  unfolding replies_ok_def by blast

text \<open>The current worker has a stream that has not ended; channels keep their capacity.\<close>

definition reg_ok :: "Pool \<Rightarrow> bool" where
  "reg_ok s \<longleftrightarrow> (\<forall>w. streams s w \<noteq> Ended \<longrightarrow> handles s w \<noteq> None)
     \<and> (\<forall>w. Current (reg (server s)) = Some w \<longrightarrow> streams s w \<noteq> Ended)"

definition caps_ok :: "Pool \<Rightarrow> bool" where
  "caps_ok s \<longleftrightarrow> (\<forall>w wk. handles s w = Some wk \<longrightarrow> length (w_send wk) \<le> send_cap)
     \<and> (\<forall>c. length (chans s c) \<le> chan_cap)"

lemma receive_not_ended:
  assumes "streams s w = Receiving"
  shows "streams (receive w ev wk s) v = Ended \<longleftrightarrow> streams s v = Ended"
proof -
  obtain pc where "streams (receive w ev wk s) = (streams s)(w := pc)" "pc = Receiving \<or> routed (server s) pc"
    using receive_streams [OF assms, of ev wk] by blast
  then show ?thesis using assms by (cases pc) (auto split: if_splits)
qed

lemma step_reg:
  assumes "pool_step s s'" "reg_ok s"
  shows "reg_ok s'"
  using assms
proof (cases rule: pool_step.cases)
  case (recv w wk ev)
  obtain wk' where "handles (receive w ev wk s) = (handles s)(w \<mapsto> wk')" using receive_handles by blast
  with recv assms(2) receive_reg [of w ev wk s] show ?thesis
    by (auto simp: reg_ok_def receive_not_ended Current_def register_def)
qed (use assms(2) in \<open>auto simp: reg_ok_def Current_def unregister_def split: if_splits\<close>)

lemma step_caps:
  assumes "pool_step s s'" "caps_ok s"
  shows "caps_ok s'"
  using assms
proof (cases rule: pool_step.cases)
  case (recv w wk ev)
  obtain wk' where "handles (receive w ev wk s) = (handles s)(w \<mapsto> wk') \<and> w_send wk' = w_send wk"
    using receive_handles by blast
  with recv assms(2) show ?thesis by (auto simp: caps_ok_def)
next
  case (put w c r q)
  with assms(2) chan_send_set [OF put(3)] show ?thesis by (auto simp: caps_ok_def)
next
  case (enqueue c k w wk wk')
  from enqueue(5) have "length (w_send wk') \<le> send_cap"
    by (auto simp: Send_enqueue_def dest: chan_send_set)
  with enqueue assms(2) show ?thesis by (auto simp: caps_ok_def)
next
  case (pump w wk cmd q)
  then have "length (w_send wk) \<le> send_cap" using assms(2) unfolding caps_ok_def by blast
  with pump assms(2) show ?thesis by (auto simp: caps_ok_def)
next
  case (pump_failed w wk cmd q)
  then have "length (w_send wk) \<le> send_cap" using assms(2) unfolding caps_ok_def by blast
  with pump_failed assms(2) show ?thesis by (auto simp: caps_ok_def)
next
  case (wake c k r q)
  have "length (chans s c) \<le> chan_cap" using assms(2) unfolding caps_ok_def by blast
  with wake assms(2) show ?thesis by (auto simp: caps_ok_def)
qed (use assms(2) in \<open>auto simp: caps_ok_def\<close>)

text \<open>A callback that runs or ran belongs to a link that passed it: no nil function is called.\<close>

definition passed :: "(call_ref \<rightharpoonup> Call) \<Rightarrow> call_ref \<Rightarrow> callback \<Rightarrow> bool" where
  "passed cs c cb \<longleftrightarrow> (\<exists>k. cs c = Some k \<and>
     (case cb of GuardCallback t \<Rightarrow> wants_guard (c_req k) | ChallengeCallback u \<Rightarrow> wants_challenge (c_req k)))"

definition ran_ok :: "Pool \<Rightarrow> bool" where
  "ran_ok s \<longleftrightarrow> (\<forall>(c, cb) \<in> set (ran s). passed (calls s) c cb)
     \<and> (\<forall>w c cb. streams s w = Calling c cb \<longrightarrow> passed (calls s) c cb)"

lemma passed_step: "pool_step s s' \<Longrightarrow> passed (calls s) c cb \<Longrightarrow> passed (calls s') c cb"
  unfolding passed_def using step_keeps_call by metis

lemma routed_passed:
  assumes "tables_ok s" "routed (server s) (Calling c cb)"
  shows "passed (calls s) c cb"
proof (cases cb)
  case (GuardCallback t)
  then show ?thesis
    using assms table_okD [of wants_guard "pl_guards (links (server s))" "calls s"] by (fastforce simp: passed_def tables_ok_def)
next
  case (ChallengeCallback u)
  then show ?thesis
    using assms table_okD [of wants_challenge "pl_challenges (links (server s))" "calls s"]
    by (fastforce simp: passed_def tables_ok_def)
qed

lemma step_ran:
  assumes st: "pool_step s s'" and t: "tables_ok s" and ok: "ran_ok s"
  shows "ran_ok s'"
proof -
  have frame: "ran (begin_call c' rid q s) = ran s" "ran (end_call c' k a s) = ran s" for c' rid q k a
    by (simp_all add: begin_call_def end_call_def)
  have "passed (calls s) c cb" if "(c, cb) \<in> set (ran s')" for c cb
    using st
  proof (cases rule: pool_step.cases)
    case (call_back w d db)
    then show ?thesis using that ok unfolding ran_ok_def by auto
  qed (use that frame ok in \<open>auto simp: ran_ok_def\<close>)
  moreover have "passed (calls s) c cb" if "streams s' w = Calling c cb" for w c cb
    using st
  proof (cases rule: pool_step.cases)
    case (recv v wk ev)
    obtain pc where pc: "streams (receive v ev wk s) = (streams s)(v := pc)" "pc = Receiving \<or> routed (server s) pc"
      using receive_streams [OF recv(2), of ev wk] by blast
    show ?thesis using that routed_passed [OF t] pc recv(1) ok by (auto simp: ran_ok_def split: if_splits)
  qed (use that ok in \<open>auto simp: ran_ok_def split: if_splits\<close>)
  ultimately show ?thesis unfolding ran_ok_def using passed_step [OF st] by blast
qed

text \<open>Every command on a wire or in a queue is the command of a call.\<close>

definition commands_ok :: "Pool \<Rightarrow> bool" where
  "commands_ok s \<longleftrightarrow> (\<forall>w cmd. cmd \<in> set (wire s w) \<or> (\<exists>wk. handles s w = Some wk \<and> cmd \<in> set (w_send wk)) \<longrightarrow>
     (\<exists>c k. calls s c = Some k \<and> command_of k = cmd))"

lemma command_of_cong: "c_req k' = c_req k \<Longrightarrow> c_id k' = c_id k \<Longrightarrow> command_of k' = command_of k"
  by (cases "c_req k") simp_all

lemma step_commands:
  assumes st: "pool_step s s'" and ok: "commands_ok s"
  shows "commands_ok s'"
  unfolding commands_ok_def
proof (intro allI impI)
  fix w cmd
  assume m: "cmd \<in> set (wire s' w) \<or> (\<exists>wk. handles s' w = Some wk \<and> cmd \<in> set (w_send wk))"
  have "(cmd \<in> set (wire s w) \<or> (\<exists>wk. handles s w = Some wk \<and> cmd \<in> set (w_send wk)))
      \<or> (\<exists>c k. calls s c = Some k \<and> command_of k = cmd)"
    using st
  proof (cases rule: pool_step.cases)
    case (recv v wk ev)
    obtain wk' where "handles (receive v ev wk s) = (handles s)(v \<mapsto> wk') \<and> w_send wk' = w_send wk"
      using receive_handles by blast
    then show ?thesis using m recv by (auto split: if_splits)
  next
    case (enqueue c k v wk wk')
    then have "set (w_send wk') = insert (command_of k) (set (w_send wk))"
      by (auto simp: Send_enqueue_def dest: chan_send_set)
    then show ?thesis using m enqueue by (auto simp del: command_of.simps split: if_splits)
  qed (use m in \<open>auto split: if_splits\<close>)
  then obtain c k where "calls s c = Some k" "command_of k = cmd"
    using ok unfolding commands_ok_def by blast
  moreover from step_keeps_call [OF st this(1)] obtain k' where
    "calls s' c = Some k'" "c_req k' = c_req k" "c_id k' = c_id k" by blast
  ultimately show "\<exists>c k. calls s' c = Some k \<and> command_of k = cmd" using command_of_cong by metis
qed

text \<open>
  As long as no other call uses its id, a live call is routed to: neither another \<open>add\<close> nor
  another \<open>remove\<close> can take its entry.
\<close>

definition sole :: "Pool \<Rightarrow> call_ref \<Rightarrow> Call \<Rightarrow> bool" where
  "sole s c k \<longleftrightarrow> (\<forall>c' k'. calls s c' = Some k' \<longrightarrow> c' \<noteq> c \<longrightarrow>
     is_friends (c_req k') \<or> is_link (c_req k') \<longrightarrow> c_id k' \<noteq> c_id k)"

definition routed_ok :: "Pool \<Rightarrow> bool" where
  "routed_ok s \<longleftrightarrow> (\<forall>c k. calls s c = Some k \<longrightarrow> live (c_pc k) \<longrightarrow> sole s c k \<longrightarrow>
     (is_friends (c_req k) \<longrightarrow> pf_chans (pending (server s)) (c_id k) = Some c)
     \<and> (is_link (c_req k) \<longrightarrow> pl_chans (links (server s)) (c_id k) = Some c))"

lemma soleD: "sole s c k \<Longrightarrow> calls s d = Some l \<Longrightarrow> d \<noteq> c \<Longrightarrow> is_friends (c_req l) \<or> is_link (c_req l) \<Longrightarrow>
    c_id l \<noteq> c_id k"
  unfolding sole_def by blast

lemma sole_before:
  assumes "pool_step s s'" "calls s c = Some k" "calls s' c = Some k'" "sole s' c k'"
  shows "sole s c k"
  unfolding sole_def
proof (intro allI impI)
  fix d l assume d: "calls s d = Some l" "d \<noteq> c" "is_friends (c_req l) \<or> is_link (c_req l)"
  from step_keeps_call [OF assms(1) d(1)] obtain l' where
    "calls s' d = Some l'" "c_id l' = c_id l" "c_req l' = c_req l" by blast
  moreover have "c_id k' = c_id k" using step_keeps_call [OF assms(1,2)] assms(3) by auto
  ultimately show "c_id l \<noteq> c_id k" using assms(4) d(2,3) unfolding sole_def by metis
qed

lemma begin_routes:
  "pf_chans (pending (server (begin_call c rid q s))) =
     (if is_friends q then (pf_chans (pending (server s)))(rid \<mapsto> c) else pf_chans (pending (server s)))"
  "pl_chans (links (server (begin_call c rid q s))) =
     (if is_link q then (pl_chans (links (server s)))(rid \<mapsto> c) else pl_chans (links (server s)))"
  by (cases q; simp add: begin_call_def pf_add_def pl_add_def)+

lemma end_routes:
  "pf_chans (pending (server (end_call c k a s))) =
     (if is_friends (c_req k) then (pf_chans (pending (server s)))(c_id k := None) else pf_chans (pending (server s)))"
  "pl_chans (links (server (end_call c k a s))) =
     (if is_link (c_req k) then (pl_chans (links (server s)))(c_id k := None) else pl_chans (links (server s)))"
  by (cases "c_req k"; simp add: end_call_def pf_remove_def pl_remove_def)+

lemma step_routed:
  assumes st: "pool_step s s'" and ok: "routed_ok s"
  shows "routed_ok s'"
  unfolding routed_ok_def
proof (intro allI impI)
  fix c k assume k: "calls s' c = Some k" "live (c_pc k)" "sole s' c k"
  let ?goal = "(is_friends (c_req k) \<longrightarrow> pf_chans (pending (server s')) (c_id k) = Some c)
     \<and> (is_link (c_req k) \<longrightarrow> pl_chans (links (server s')) (c_id k) = Some c)"
  show ?goal
  proof (cases "calls s c")
    case None
    obtain rid q where "s' = begin_call c rid q s"
      using st None k(1) by (cases rule: pool_step.cases) (auto split: if_splits)
    then show ?thesis using k(1) by (auto simp: begin_routes)
  next
    case (Some k0)
    have k0: "c_req k = c_req k0" "c_id k = c_id k0" "live (c_pc k0)"
      using step_keeps_call [OF st Some] k(1,2) by auto
    have old: "(is_friends (c_req k0) \<longrightarrow> pf_chans (pending (server s)) (c_id k0) = Some c)
       \<and> (is_link (c_req k0) \<longrightarrow> pl_chans (links (server s)) (c_id k0) = Some c)"
      using ok Some k0(3) sole_before [OF st Some k(1,3)] unfolding routed_ok_def by blast
    show ?thesis
      using st
    proof (cases rule: pool_step.cases)
      case (begin_it d rid q)
      then have "d \<noteq> c" using Some by auto
      then have "is_friends q \<or> is_link q \<Longrightarrow> rid \<noteq> c_id k"
        using soleD [OF k(3), of d "\<lparr>c_req = q, c_id = rid, c_pc = Added\<rparr>"] begin_it(1) by auto
      then show ?thesis using old k0 begin_it(1) by (auto simp: begin_routes)
    next
      case (leave d l a)
      have "d \<noteq> c" using k(1,2) leave(1) by auto
      then have "is_friends (c_req l) \<or> is_link (c_req l) \<Longrightarrow> c_id l \<noteq> c_id k"
        using soleD [OF k(3), of d "l\<lparr>c_pc := Returned a\<rparr>"] leave(1) by auto
      then show ?thesis using old k0 leave(1) by (auto simp: end_routes)
    qed (use old k0 in auto)
  qed
qed

section \<open>Reachable states\<close>

definition pool_inv :: "Pool \<Rightarrow> bool" where
  "pool_inv s \<longleftrightarrow> tables_ok s \<and> replies_ok s \<and> reg_ok s \<and> caps_ok s \<and> ran_ok s \<and> commands_ok s \<and> routed_ok s"

lemma pool_inv_start: "pool_inv pool_start"
  by (simp add: pool_inv_def pool_start_def tables_ok_def table_ok_def replies_ok_def reg_ok_def caps_ok_def
      ran_ok_def commands_ok_def routed_ok_def NewServer_def NewRegistry_def newPendingFriends_def
      newPendingLinks_def Current_def chan_cap_def)

lemma pool_inv_step: "pool_inv s \<Longrightarrow> pool_step s s' \<Longrightarrow> pool_inv s'"
  unfolding pool_inv_def
  by (simp add: step_tables step_replies step_reg step_caps step_ran step_commands step_routed)

lemma pool_inv_reachable: "pool_reachable s \<Longrightarrow> pool_inv s"
  by (induction rule: pool_reachable.induct) (auto intro: pool_inv_start pool_inv_step)

section \<open>Runs\<close>

lemma steps_reachable: "pool_step\<^sup>*\<^sup>* s s' \<Longrightarrow> pool_reachable s \<Longrightarrow> pool_reachable s'"
  by (induction rule: rtranclp_induct) (auto intro: pool_next)

fun reply_event :: "reply \<Rightarrow> WorkerEvent" where
  "reply_event (FriendsReply r) = \<lparr>ev_WorkerId = '''', ev_Payload = Some (Ev_FriendsResult r)\<rparr>"
| "reply_event (LinkReply r) = \<lparr>ev_WorkerId = '''', ev_Payload = Some (Ev_LinkResult r)\<rparr>"

text \<open>A reply to a live call that no other call shadows is routed to it.\<close>

lemma receive_reply:
  assumes inv: "pool_inv s" and k: "calls s c = Some k" "live (c_pc k)" "sole s c k" "fits k r"
    and w: "handles s w = Some wk"
  shows "receive w (reply_event r) wk s = s\<lparr>streams := (streams s)(w := Putting c r)\<rparr>"
proof (cases r)
  case (FriendsReply fr)
  then have "pf_chans (pending (server s)) (fres_RequestId fr) = Some c"
    using inv k by (auto simp: pool_inv_def routed_ok_def)
  then show ?thesis using FriendsReply w by (simp add: receive_def handle_def pf_deliver_def fun_upd_idem)
next
  case (LinkReply lr)
  then have "pl_chans (links (server s)) (lres_RequestId lr) = Some c"
    using inv k by (auto simp: pool_inv_def routed_ok_def)
  then show ?thesis using LinkReply w by (simp add: receive_def handle_def pl_deliver_def fun_upd_idem)
qed

lemma reply_routed:
  assumes inv: "pool_inv s" and k: "calls s c = Some k" "live (c_pc k)" "sole s c k" "fits k r"
    and w: "streams s w = Receiving" "handles s w = Some wk"
  shows "pool_step s (s\<lparr>streams := (streams s)(w := Putting c r)\<rparr>)"
  using recv [of s w wk "reply_event r"] w receive_reply [OF inv k w(2)] by simp

lemma reply_put:
  assumes "streams s w = Putting c r" "chans s c = []"
  shows "pool_step s (s\<lparr>chans := (chans s)(c := [r]), streams := (streams s)(w := Receiving)\<rparr>)"
  using put [of s w c r "[r]"] assms by (simp add: chan_send_def chan_cap_def)

text \<open>A connected, idle worker.\<close>

definition ready_pool :: Pool where
  "ready_pool = pool_start\<lparr>handles := [0 \<mapsto> \<lparr>w_ID = ''w1'', w_send = []\<rparr>],
     streams := (\<lambda>w. Ended)(0 := Receiving), pumping := (\<lambda>w. False)(0 := True),
     server := NewServer\<lparr>reg := \<lparr>current = Some 0\<rparr>\<rparr>\<rparr>"

lemma ready_pool_reachable: "pool_reachable ready_pool"
proof -
  let ?s = "pool_start\<lparr>handles := (handles pool_start)(0 \<mapsto> \<lparr>w_ID = '''', w_send = []\<rparr>),
    streams := (streams pool_start)(0 := Receiving), pumping := (pumping pool_start)(0 := True)\<rparr>"
  have "pool_step pool_start ?s" by (rule connect) (simp add: pool_start_def)
  then have "pool_reachable ?s" by (rule pool_next [OF pool_init])
  moreover have "receive 0 \<lparr>ev_WorkerId = ''w1'', ev_Payload = Some Ev_Ready\<rparr> \<lparr>w_ID = '''', w_send = []\<rparr> ?s = ready_pool"
    by (simp add: receive_def handle_def ready_pool_def pool_start_def NewServer_def NewRegistry_def register_def)
  moreover have "pool_step ?s (receive 0 \<lparr>ev_WorkerId = ''w1'', ev_Payload = Some Ev_Ready\<rparr> \<lparr>w_ID = '''', w_send = []\<rparr> ?s)"
    by (rule recv) simp_all
  ultimately show ?thesis using pool_next by metis
qed

lemma call_gets_handle:
  assumes s: "pool_reachable s" and c: "calls s c = None" and w: "Current (reg (server s)) = Some w"
  obtains s' where "pool_reachable s'" "calls s' = (calls s)(c \<mapsto> \<lparr>c_req = q, c_id = rid, c_pc = Sending w\<rparr>)"
    "streams s' = streams s" "chans s' = chans s" "handles s' = handles s" "pumping s' = pumping s"
    "reg (server s') = reg (server s)"
proof -
  let ?s1 = "begin_call c rid q s" and ?k = "\<lparr>c_req = q, c_id = rid, c_pc = Added\<rparr>"
  have "pool_reachable ?s1" by (rule pool_next [OF s begin_it [OF c]])
  moreover have "pool_step ?s1 (set_pc c ?k (Sending w) ?s1)"
    by (rule pick) (simp_all add: Send_target_def w)
  ultimately have "pool_reachable (set_pc c ?k (Sending w) ?s1)" by (rule pool_next)
  moreover have "pumping ?s1 = pumping s" by (simp add: begin_call_def)
  ultimately show ?thesis using that by simp
qed

lemma call_is_sent:
  assumes s: "pool_reachable s" and c: "calls s c = None" and w: "Current (reg (server s)) = Some w"
    and wk: "handles s w = Some wk" "length (w_send wk) < send_cap"
  obtains s' wk' where "pool_reachable s'" "calls s' = (calls s)(c \<mapsto> \<lparr>c_req = q, c_id = rid, c_pc = after_send q\<rparr>)"
    "streams s' = streams s" "chans s' = chans s" "handles s' = (handles s)(w \<mapsto> wk')" "pumping s' = pumping s"
    "length (w_send wk') = Suc (length (w_send wk))" "reg (server s') = reg (server s)"
proof -
  let ?k = "\<lparr>c_req = q, c_id = rid, c_pc = Sending w\<rparr>"
  obtain s1 where s1: "pool_reachable s1" "calls s1 = (calls s)(c \<mapsto> ?k)"
    "streams s1 = streams s" "chans s1 = chans s" "handles s1 = handles s" "pumping s1 = pumping s"
    "reg (server s1) = reg (server s)"
    by (rule call_gets_handle [OF s c w])
  let ?wk = "wk\<lparr>w_send := w_send wk @ [command_of ?k]\<rparr>"
  let ?s2 = "set_pc c ?k (after_send q) (s1\<lparr>handles := (handles s1)(w \<mapsto> ?wk)\<rparr>)"
  have "pool_step s1 (set_pc c ?k (after_send (c_req ?k)) (s1\<lparr>handles := (handles s1)(w \<mapsto> ?wk)\<rparr>))"
    by (rule enqueue [where wk = wk]) (use s1 wk in \<open>simp_all add: Send_enqueue_def chan_send_def del: command_of.simps\<close>)
  then have "pool_reachable ?s2" using pool_next [OF s1(1)] by simp
  with s1 show ?thesis using that [of ?s2 ?wk] by simp
qed

section \<open>Properties\<close>

lemma returned_fits:
  assumes "pool_reachable s" "calls s c = Some k" "c_pc k = Returned (Answered r)"
  shows "fits k r"
  using pool_inv_reachable [OF assms(1)] assms(2,3) unfolding pool_inv_def replies_ok_def by blast

text \<open>
  C17: in every interleaving, a reply that a call returns with is of the call's kind and
  carries the request id of that call: no caller ever gets the friends list or the refresh
  token meant for another request.
\<close>

theorem reply_reaches_only_its_call:
  assumes "pool_reachable s" "calls s c = Some k" "c_pc k = Returned (Answered r)"
  shows "reply_id r = c_id k \<and> (case r of FriendsReply _ \<Rightarrow> is_friends (c_req k) | LinkReply _ \<Rightarrow> is_link (c_req k))"
  using returned_fits [OF assms] by (cases r) auto

text \<open>The rest of a call that waits and whose reply has arrived on its stream.\<close>

lemma waiting_call_returns:
  assumes "calls s c = Some k" "c_pc k = Waiting" "streams s w = Putting c r" "chans s c = []"
  shows "\<exists>s'. pool_step\<^sup>*\<^sup>* s s' \<and> calls s' = (calls s)(c \<mapsto> k\<lparr>c_pc := Returned (Answered r)\<rparr>)"
proof -
  let ?s1 = "s\<lparr>chans := (chans s)(c := [r]), streams := (streams s)(w := Receiving)\<rparr>"
  let ?k = "k\<lparr>c_pc := Leaving (Answered r)\<rparr>"
  let ?s2 = "set_pc c k (Leaving (Answered r)) (?s1\<lparr>chans := (chans ?s1)(c := [])\<rparr>)"
  have "pool_step s ?s1" by (rule reply_put [OF assms(3,4)])
  moreover have "pool_step ?s1 ?s2" by (rule wake) (simp_all add: assms)
  moreover have "pool_step ?s2 (end_call c ?k (Answered r) ?s2)" by (rule leave) simp_all
  moreover have "calls (end_call c ?k (Answered r) ?s2) = (calls s)(c \<mapsto> k\<lparr>c_pc := Returned (Answered r)\<rparr>)" by simp
  ultimately show ?thesis by (meson converse_rtranclp_into_rtranclp rtranclp.rtrancl_refl)
qed

text \<open>A reachable state with a waiting friends call, and the reply that fits it.\<close>

definition demo_call :: "call_pc \<Rightarrow> Call" where
  "demo_call pc = \<lparr>c_req = AskFriends ''tok'', c_id = ''r1'', c_pc = pc\<rparr>"

definition demo_reply :: reply where
  "demo_reply = FriendsReply \<lparr>fres_RequestId = ''r1'', fres_Friends = [], fres_OwnerSteamId = ''7'', fres_Error = None\<rparr>"

lemma demo_waiting:
  obtains s where "pool_reachable s" "calls s = [0 \<mapsto> demo_call Waiting]" "streams s 0 = Receiving"
    "handles s 0 \<noteq> None" "chans s 0 = []"
proof -
  have r: "calls ready_pool = Map.empty" "handles ready_pool 0 = Some \<lparr>w_ID = ''w1'', w_send = []\<rparr>"
    "Current (reg (server ready_pool)) = Some 0" "streams ready_pool 0 = Receiving" "chans ready_pool 0 = []"
    by (simp_all add: ready_pool_def pool_start_def Current_def)
  show ?thesis
    by (rule call_is_sent [OF ready_pool_reachable _ r(3,2), of 0 "AskFriends ''tok''" "''r1''"])
      (use that r in \<open>auto simp: send_cap_def demo_call_def\<close>)
qed

theorem reply_reaches_only_its_call_witness:
  "\<exists>s. pool_reachable s \<and> calls s 0 = Some (demo_call (Returned (Answered demo_reply)))
    \<and> reply_id demo_reply = c_id (demo_call (Returned (Answered demo_reply)))"
proof -
  obtain s where s: "pool_reachable s" "calls s = [0 \<mapsto> demo_call Waiting]" "streams s 0 = Receiving"
    "handles s 0 \<noteq> None" "chans s 0 = []" by (rule demo_waiting)
  let ?s1 = "s\<lparr>streams := (streams s)(0 := Putting 0 demo_reply)\<rparr>"
  obtain wk where "handles s 0 = Some wk" using s(4) by blast
  then have s1: "pool_step s ?s1"
    by (intro reply_routed [OF pool_inv_reachable [OF s(1)], of 0 "demo_call Waiting"])
      (use s in \<open>auto simp: demo_call_def demo_reply_def sole_def\<close>)
  obtain s2 where s2: "pool_step\<^sup>*\<^sup>* ?s1 s2" "calls s2 0 = Some (demo_call (Returned (Answered demo_reply)))"
    using waiting_call_returns [of ?s1 0 "demo_call Waiting" 0 demo_reply] s
    by (fastforce simp: demo_call_def)
  have "pool_reachable s2" by (rule steps_reachable [OF s2(1) pool_next [OF s(1) s1]])
  from reply_reaches_only_its_call [OF this s2(2)] this s2(2) show ?thesis by (auto simp: demo_call_def)
qed

text \<open>
  C18: a reply is not lost: if a call waits, no other call that waits for replies has ever
  used its id, and the stream of a worker is ready to receive, then the arrival of a fitting
  reply lets the call return with exactly this reply.
\<close>

theorem fitting_reply_wakes_call:
  assumes "pool_reachable s" "calls s c = Some k" "c_pc k = Waiting" "sole s c k" "fits k r" "chans s c = []"
    and "streams s w = Receiving"
  shows "\<exists>wk s'. handles s w = Some wk \<and> pool_step\<^sup>*\<^sup>* (receive w (reply_event r) wk s) s'
    \<and> calls s' = (calls s)(c \<mapsto> k\<lparr>c_pc := Returned (Answered r)\<rparr>)"
proof -
  have inv: "pool_inv s" by (rule pool_inv_reachable [OF assms(1)])
  then obtain wk where wk: "handles s w = Some wk"
    using assms(7) unfolding pool_inv_def reg_ok_def by fastforce
  have "receive w (reply_event r) wk s = s\<lparr>streams := (streams s)(w := Putting c r)\<rparr>"
    by (rule receive_reply [OF inv assms(2) _ assms(4,5) wk]) (simp add: assms(3))
  with waiting_call_returns [of "receive w (reply_event r) wk s" c k w r] assms wk show ?thesis by simp
qed

theorem fitting_reply_wakes_call_witness:
  "\<exists>s wk s'. pool_reachable s \<and> calls s 0 = Some (demo_call Waiting)
    \<and> pool_step\<^sup>*\<^sup>* (receive 0 (reply_event demo_reply) wk s) s'
    \<and> calls s' 0 = Some (demo_call (Returned (Answered demo_reply)))"
proof -
  obtain s where s: "pool_reachable s" "calls s = [0 \<mapsto> demo_call Waiting]" "streams s 0 = Receiving"
    "handles s 0 \<noteq> None" "chans s 0 = []" by (rule demo_waiting)
  have "sole s 0 (demo_call Waiting)" "fits (demo_call Waiting) demo_reply" "c_pc (demo_call Waiting) = Waiting"
    using s(2) by (auto simp: sole_def demo_call_def demo_reply_def)
  with fitting_reply_wakes_call [OF s(1) _ _ _ _ s(5,3), of "demo_call Waiting" demo_reply] s
  show ?thesis by (fastforce simp: demo_call_def)
qed

text \<open>
  The registry's worker is one whose stream has not ended, and as long as that stream
  goes on there is a current worker: the end of an older stream does not evict it.
\<close>

theorem current_worker_is_connected:
  assumes "pool_reachable s" "Current (reg (server s)) = Some w"
  shows "streams s w \<noteq> Ended \<and> (\<forall>s'. pool_step s s' \<longrightarrow> streams s' w \<noteq> Ended \<longrightarrow>
    (\<exists>w'. Current (reg (server s')) = Some w' \<and> streams s' w' \<noteq> Ended))"
proof (intro conjI allI impI)
  have inv: "pool_inv s" by (rule pool_inv_reachable [OF assms(1)])
  then show "streams s w \<noteq> Ended" using assms(2) unfolding pool_inv_def reg_ok_def by blast
  fix s' assume st: "pool_step s s'" and w: "streams s' w \<noteq> Ended"
  have "Current (reg (server s')) \<noteq> None"
    using st
  proof (cases rule: pool_step.cases)
    case (recv v wk ev)
    with receive_reg [of v ev wk s] assms(2) show ?thesis by (auto simp: Current_def register_def)
  next
    case (hangup v)
    with assms(2) w show ?thesis by (auto simp: Current_def unregister_def)
  qed (use assms(2) in \<open>auto simp: Current_def\<close>)
  moreover have "reg_ok s'" using pool_inv_step [OF inv st] by (simp add: pool_inv_def)
  ultimately show "\<exists>w'. Current (reg (server s')) = Some w' \<and> streams s' w' \<noteq> Ended"
    unfolding reg_ok_def by blast
qed

theorem current_worker_is_connected_witness: "streams ready_pool 0 \<noteq> Ended"
  using current_worker_is_connected [OF ready_pool_reachable, of 0]
  by (simp add: ready_pool_def Current_def)

text \<open>
  No entry leaks: in a state where every call has returned, by reply, error or timeout,
  all four tables are empty again.
\<close>

theorem idle_server_has_empty_tables:
  assumes "pool_reachable s" "\<forall>c k. calls s c = Some k \<longrightarrow> (\<exists>a. c_pc k = Returned a)"
  shows "pending (server s) = newPendingFriends \<and> links (server s) = newPendingLinks"
proof -
  have t: "tables_ok s" using pool_inv_reachable [OF assms(1)] by (simp add: pool_inv_def)
  have e: "m = Map.empty" if "table_ok kind m (calls s)" for kind m
  proof
    fix r show "m r = None"
      using table_okD [OF that, of r] assms(2) by (cases "m r") (force dest: spec)+
  qed
  show ?thesis
    using t e unfolding tables_ok_def
    by (cases "pending (server s)"; cases "links (server s)") (auto simp: newPendingFriends_def newPendingLinks_def)
qed

theorem idle_server_has_empty_tables_witness: "pending (server ready_pool) = newPendingFriends"
  using idle_server_has_empty_tables [OF ready_pool_reachable] by (simp add: ready_pool_def pool_start_def)

text \<open>
  What goes out and what runs: every command on the wire to a worker is the command of
  some call, with its own request id; no channel exceeds its capacity; and every callback
  that ran belongs to a link that passed one, so no nil function is called.
\<close>

theorem pool_traffic:
  assumes "pool_reachable s"
  shows "(\<forall>w. \<forall>cmd \<in> set (wire s w). \<exists>c k. calls s c = Some k \<and> command_of k = cmd)
    \<and> (\<forall>w wk. handles s w = Some wk \<longrightarrow> length (w_send wk) \<le> 8) \<and> (\<forall>c. length (chans s c) \<le> 1)
    \<and> (\<forall>(c, cb) \<in> set (ran s). \<exists>k. calls s c = Some k \<and>
        (case cb of GuardCallback t \<Rightarrow> wants_guard (c_req k) | ChallengeCallback u \<Rightarrow> wants_challenge (c_req k)))"
  using pool_inv_reachable [OF assms]
  unfolding pool_inv_def passed_def commands_ok_def caps_ok_def ran_ok_def send_cap_def chan_cap_def by blast

theorem pool_traffic_witness: "length (chans ready_pool 0) \<le> 1"
  using pool_traffic [OF ready_pool_reachable] by blast

text \<open>
  \<open>deliver\<close> can block for ever: when a second result for a call arrives while the first
  is still on its channel, and the call leaves without reading (its context ended first), the
  stream goroutine stays in the channel send in every continuation, and handles no further
  event of its worker.
\<close>

theorem duplicate_reply_blocks_stream:
  assumes "pool_reachable s" "streams s w = Putting c r" "chans s c \<noteq> []" "calls s c = Some k"
    and "\<exists>a. c_pc k = Leaving a \<or> c_pc k = Returned a" and "pool_step\<^sup>*\<^sup>* s s'"
  shows "streams s' w = Putting c r"
proof -
  have "streams s' w = Putting c r \<and> chans s' c \<noteq> [] \<and> handles s' w \<noteq> None \<and>
      (\<exists>k a. calls s' c = Some k \<and> (c_pc k = Leaving a \<or> c_pc k = Returned a))"
    using assms(6)
  proof (induction rule: rtranclp_induct)
    case base
    have "handles s w \<noteq> None"
      using pool_inv_reachable [OF assms(1)] assms(2) unfolding pool_inv_def reg_ok_def by fastforce
    then show ?case using assms(2-5) by blast
  next
    case (step t t')
    then obtain k a where t: "streams t w = Putting c r" "chans t c \<noteq> []" "handles t w \<noteq> None"
      "calls t c = Some k" "c_pc k = Leaving a \<or> c_pc k = Returned a" by blast
    have h: "handles t' w \<noteq> None"
      using step.hyps(2)
    proof (cases rule: pool_step.cases)
      case (recv v wk ev)
      then show ?thesis using receive_handles [of v ev wk t] t(3) by auto
    qed (use t(3) in auto)
    show ?case
      using step.hyps(2)
    proof (cases rule: pool_step.cases)
      case (connect v)
      then show ?thesis using t h by auto
    next
      case (recv v wk ev)
      then have "v \<noteq> w" using t(1) by auto
      moreover obtain pc where "streams (receive v ev wk t) = (streams t)(v := pc)"
        using receive_streams [OF recv(2), of ev wk] by blast
      ultimately show ?thesis using t h recv(1) by auto
    next
      case (put v d r' q)
      then show ?thesis using t h by (auto simp: chan_send_def chan_cap_def split: if_splits)
    qed (use t h in auto)
  qed
  then show ?thesis ..
qed

theorem duplicate_reply_blocks_stream_witness:
  "\<exists>s. pool_reachable s \<and> streams s 0 = Putting 0 demo_reply
    \<and> (\<forall>s'. pool_step\<^sup>*\<^sup>* s s' \<longrightarrow> streams s' 0 = Putting 0 demo_reply)"
proof -
  obtain s where s: "pool_reachable s" "calls s = [0 \<mapsto> demo_call Waiting]" "streams s 0 = Receiving"
    "handles s 0 \<noteq> None" "chans s 0 = []" by (rule demo_waiting)
  obtain wk where wk: "handles s 0 = Some wk" using s(4) by blast
  have k: "live (c_pc (demo_call Waiting))" "fits (demo_call Waiting) demo_reply"
    by (simp_all add: demo_call_def demo_reply_def)
  let ?s1 = "s\<lparr>streams := (streams s)(0 := Putting 0 demo_reply)\<rparr>"
  let ?s2 = "?s1\<lparr>chans := (chans ?s1)(0 := [demo_reply]), streams := (streams ?s1)(0 := Receiving)\<rparr>"
  let ?s3 = "?s2\<lparr>streams := (streams ?s2)(0 := Putting 0 demo_reply)\<rparr>"
  let ?s4 = "set_pc 0 (demo_call Waiting) (Leaving (Failed (ExternalError ''context deadline exceeded''))) ?s3"
  have "pool_step s ?s1"
    by (rule reply_routed [OF pool_inv_reachable [OF s(1)] _ k(1) _ k(2) s(3) wk]) (auto simp: s(2) sole_def)
  with s(1) have "pool_reachable ?s1" by (rule pool_next)
  then have r2: "pool_reachable ?s2" by (rule pool_next) (rule reply_put, simp_all add: s(5))
  have "pool_step ?s2 ?s3"
    by (rule reply_routed [OF pool_inv_reachable [OF r2] _ k(1) _ k(2), where wk = wk]) (auto simp: s(2) sole_def wk)
  with r2 have "pool_reachable ?s3" by (rule pool_next)
  then have r4: "pool_reachable ?s4" by (rule pool_next) (rule expire, simp_all add: s(2), simp add: demo_call_def)
  have "\<forall>s'. pool_step\<^sup>*\<^sup>* ?s4 s' \<longrightarrow> streams s' 0 = Putting 0 demo_reply"
  proof (intro allI impI)
    fix s' assume "pool_step\<^sup>*\<^sup>* ?s4 s'"
    then show "streams s' 0 = Putting 0 demo_reply"
      by (rule duplicate_reply_blocks_stream [OF r4, where c = 0 and
            k = "demo_call (Leaving (Failed (ExternalError ''context deadline exceeded'')))", rotated -1])
        (simp_all add: demo_call_def)
  qed
  then show ?thesis by (intro exI [of _ ?s4] conjI r4) simp_all
qed

text \<open>
  \<open>Registry.Send\<close> does not look at the context: once the pump of a worker has stopped
  and eight commands are queued, a call that has picked this worker stays in the channel
  send in every continuation. Neither a timeout nor the end of the stream lets it return.
\<close>

theorem full_queue_blocks_call:
  assumes "calls s c = Some k" "c_pc k = Sending w" "handles s w = Some wk" "length (w_send wk) = 8"
    and "\<not> pumping s w" "pool_step\<^sup>*\<^sup>* s s'"
  shows "calls s' c = Some k"
proof -
  have "calls s' c = Some k \<and> \<not> pumping s' w \<and> (\<exists>wk. handles s' w = Some wk \<and> length (w_send wk) = 8)"
    using assms(6)
  proof (induction rule: rtranclp_induct)
    case base
    then show ?case using assms(1-5) by blast
  next
    case (step t t')
    then obtain wk where t: "calls t c = Some k" "\<not> pumping t w" "handles t w = Some wk" "length (w_send wk) = 8"
      by blast
    have pb: "pumping (begin_call d rid q t) = pumping t" "pumping (end_call d l a t) = pumping t" for d rid q l a
      by (simp_all add: begin_call_def end_call_def)
    show ?case
      using step.hyps(2)
    proof (cases rule: pool_step.cases)
      case (recv v vk ev)
      obtain vk' where "handles (receive v ev vk t) = (handles t)(v \<mapsto> vk') \<and> w_send vk' = w_send vk"
        using receive_handles by blast
      with t recv show ?thesis by auto
    next
      case (enqueue d l v vk vk')
      then have "v \<noteq> w" using t by (auto simp: Send_enqueue_def chan_send_def send_cap_def split: if_splits)
      then show ?thesis using t enqueue assms(2) by auto
    qed (use t assms(2) pb in auto)
  qed
  then show ?thesis by blast
qed

text \<open>Eight relayed codes fill the queue of a worker whose pump has stopped.\<close>

lemma fill_queue:
  "n \<le> 8 \<Longrightarrow> \<exists>s wk. pool_reachable s \<and> handles s 0 = Some wk \<and> length (w_send wk) = n \<and> \<not> pumping s 0
    \<and> Current (reg (server s)) = Some 0 \<and> (\<forall>c \<ge> n. calls s c = None)"
proof (induction n)
  case 0
  let ?s = "ready_pool\<lparr>pumping := (pumping ready_pool)(0 := False)\<rparr>"
  have "pool_reachable ?s"
    by (rule pool_next [OF ready_pool_reachable pump_done]) (simp add: ready_pool_def)
  then show ?case by (intro exI [of _ ?s]) (simp add: ready_pool_def pool_start_def Current_def)
next
  case (Suc n)
  then obtain s wk where s: "pool_reachable s" "handles s 0 = Some wk" "length (w_send wk) = n" "\<not> pumping s 0"
    "Current (reg (server s)) = Some 0" "\<forall>c \<ge> n. calls s c = None" by auto
  have l: "length (w_send wk) < send_cap" using Suc.prems s(3) by (simp add: send_cap_def)
  show ?case
    by (rule call_is_sent [OF s(1) _ s(5,2) l, of n "AskGuard ''12345''" "''r''"])
      (use s in \<open>auto simp: Current_def intro!: exI\<close>)
qed

theorem full_queue_blocks_call_witness:
  "\<exists>s k. pool_reachable s \<and> c_pc k = Sending 0 \<and> (\<forall>s'. pool_step\<^sup>*\<^sup>* s s' \<longrightarrow> calls s' 8 = Some k)"
proof -
  obtain s wk where s: "pool_reachable s" "handles s 0 = Some wk" "length (w_send wk) = 8" "\<not> pumping s 0"
    "Current (reg (server s)) = Some 0" "\<forall>c \<ge> 8. calls s c = None" using fill_queue [of 8] by auto
  let ?k = "\<lparr>c_req = AskFriends ''tok'', c_id = ''r'', c_pc = Sending 0\<rparr>"
  obtain s' where s': "pool_reachable s'" "calls s' = (calls s)(8 \<mapsto> ?k)" "handles s' = handles s"
    "pumping s' = pumping s"
    by (rule call_gets_handle [OF s(1) _ s(5), of 8 "AskFriends ''tok''" "''r''"]) (use s(6) in auto)
  have "calls t 8 = Some ?k" if "pool_step\<^sup>*\<^sup>* s' t" for t
    by (rule full_queue_blocks_call [OF _ _ _ _ _ that]) (use s s' in simp_all)
  with s'(1) show ?thesis by (intro exI [of _ s'] exI [of _ ?k]) simp
qed

text \<open>
  An interim callback of a link can run after the link has returned (and its terminal
  callback with it): the stream loop looks the callback up, the link times out and leaves,
  and only then does the loop run what it found.
\<close>

theorem late_callback_possible:
  "\<exists>s s' c k e cb. pool_reachable s \<and> calls s c = Some k \<and> c_pc k = Returned (Failed e) \<and> ran s = []
     \<and> pool_step s s' \<and> ran s' = [(c, cb)]"
proof -
  let ?q = "AskLink '''' '''' True True" and ?e = "ExternalError ''context deadline exceeded''"
  let ?k = "\<lambda>pc. \<lparr>c_req = ?q, c_id = ''r1'', c_pc = pc\<rparr>"
  let ?s1 = "begin_call 0 ''r1'' ?q ready_pool"
  let ?s2 = "set_pc 0 (?k Added) (Sending 0) ?s1"
  let ?wk = "\<lparr>w_ID = ''w1'', w_send = [command_of (?k (Sending 0))]\<rparr>"
  let ?s3 = "set_pc 0 (?k (Sending 0)) Waiting (?s2\<lparr>handles := (handles ?s2)(0 \<mapsto> ?wk)\<rparr>)"
  let ?ev = "\<lparr>ev_WorkerId = ''w1'', ev_Payload = Some (Ev_QrChallenge \<lparr>qr_RequestId = ''r1'', qr_ChallengeUrl = ''u''\<rparr>)\<rparr>"
  let ?s4 = "receive 0 ?ev ?wk ?s3"
  let ?s5 = "set_pc 0 (?k Waiting) (Leaving (Failed ?e)) ?s4"
  let ?s6 = "end_call 0 (?k (Leaving (Failed ?e))) (Failed ?e) ?s5"
  note defs = ready_pool_def pool_start_def begin_call_def
  have r1: "pool_reachable ?s1" by (rule pool_next [OF ready_pool_reachable begin_it]) (simp add: defs)
  have r2: "pool_reachable ?s2"
    by (rule pool_next [OF r1 pick]) (simp_all add: Send_target_def Current_def ready_pool_def)
  have "pool_step ?s2 (set_pc 0 (?k (Sending 0)) (after_send (c_req (?k (Sending 0)))) (?s2\<lparr>handles := (handles ?s2)(0 \<mapsto> ?wk)\<rparr>))"
    by (rule enqueue [where wk = "\<lparr>w_ID = ''w1'', w_send = []\<rparr>"])
      (simp_all add: ready_pool_def Send_enqueue_def chan_send_def send_cap_def)
  then have r3: "pool_reachable ?s3" using pool_next [OF r2] by simp
  have r4: "pool_reachable ?s4" by (rule pool_next [OF r3 recv]) (simp_all add: ready_pool_def)
  have r5: "pool_reachable ?s5" by (rule pool_next [OF r4 expire]) simp_all
  have r6: "pool_reachable ?s6" by (rule pool_next [OF r5 leave]) simp_all
  have st: "streams ?s4 0 = Calling 0 (ChallengeCallback ''u'')"
    by (simp add: receive_def handle_def pl_challenge_def begin_call_def pl_add_def)
  have "ran ?s6 = []" by (simp add: end_call_def begin_call_def ready_pool_def pool_start_def)
  moreover have "streams ?s6 0 = Calling 0 (ChallengeCallback ''u'')" using st by simp
  ultimately show ?thesis
    using r6 call_back [of ?s6 0 0 "ChallengeCallback ''u''"]
    by (intro exI [of _ ?s6] exI [of _ "?s6\<lparr>ran := ran ?s6 @ [(0, ChallengeCallback ''u'')],
        streams := (streams ?s6)(0 := Receiving)\<rparr>"] exI [of _ 0] exI [of _ "?k (Returned (Failed ?e))"]) simp
qed

end
