(* ===== verification/Control_Wiring.thy ===== *)
theory Control_Wiring
  imports Api_Router Worker_Runs
begin

text \<open>
  The composition root (\<open>cmd/server/main.go\<close>) and the opening of the store (\<open>store.New\<close>): the
  configuration read from the environment, and the two adapters that give the API its view of
  the worker pool.
\<close>

section \<open>Configuration\<close>

text \<open>The environment of the process; \<open>os.Getenv\<close> is empty for a variable that is not set.\<close>

type_synonym environ = "string \<rightharpoonup> string"

definition Getenv :: "environ \<Rightarrow> string \<Rightarrow> string" where
  "Getenv os key = (case os key of None \<Rightarrow> '''' | Some v \<Rightarrow> v)"

definition env :: "environ \<Rightarrow> string \<Rightarrow> string \<Rightarrow> string" where
  "env os key def = (let v = Getenv os key in if v \<noteq> '''' then v else def)"

text \<open>\<open>mustEnv\<close> ends the process with a status when the variable is empty: a left value.\<close>

definition mustEnv :: "environ \<Rightarrow> string \<Rightarrow> nat + string" where
  "mustEnv os key = (let v = Getenv os key in if v = '''' then Inl 1 else Inr v)"

definition sessionTTL :: duration where
  "sessionTTL = 24 * Hour"

record Config =
  cfg_grpcAddr :: string
  cfg_httpAddr :: string
  cfg_databaseURL :: string
  cfg_hasher :: Hasher
  cfg_tokens :: TokenManager
  cfg_keys :: KeyCache

text \<open>The first part of \<open>main\<close>: everything up to the database, or the exit status.\<close>

definition configure :: "environ \<Rightarrow> nat + Config" where
  "configure os =
     (case mustEnv os ''DATABASE_URL'' of Inl n \<Rightarrow> Inl n | Inr databaseURL \<Rightarrow>
     (case mustEnv os ''JWT_SECRET'' of Inl n \<Rightarrow> Inl n | Inr jwtSecret \<Rightarrow>
     (case mustEnv os ''CREDENTIAL_PEPPER'' of Inl n \<Rightarrow> Inl n | Inr credentialPepper \<Rightarrow>
     (case NewHasher (bytes_of_string credentialPepper) of
        Ok hasher \<Rightarrow>
          (case NewTokenManager (bytes_of_string jwtSecret) sessionTTL of
             Ok tokens \<Rightarrow> Inr \<lparr>cfg_grpcAddr = env os ''GRPC_LISTEN_ADDR'' '':42010'',
               cfg_httpAddr = env os ''HTTP_LISTEN_ADDR'' '':42000'', cfg_databaseURL = databaseURL,
               cfg_hasher = hasher, cfg_tokens = tokens, cfg_keys = NewKeyCache sessionTTL\<rparr>
           | _ \<Rightarrow> Inl 1)
      | _ \<Rightarrow> Inl 1))))"

section \<open>Opening the store\<close>

text \<open>
  \<open>store.New\<close> over the driver: what opening a pool and pinging it answer are parameters. The
  list is the calls made on the pool, so that it shows whether it was closed.
\<close>

datatype pool_call = PoolOpened | PoolPinged | PoolClosed

definition store_New :: "(string \<Rightarrow> unit outcome) \<Rightarrow> (string \<Rightarrow> unit outcome) \<Rightarrow> string \<Rightarrow> unit outcome \<times> pool_call list" where
  "store_New open_pool ping databaseURL =
     (case open_pool databaseURL of
        Fail e \<Rightarrow> (Fail (WrapError ''store: open pool'' e), [])
      | Panic \<Rightarrow> (Panic, [])
      | Ok u \<Rightarrow>
          (case ping databaseURL of
             Fail e \<Rightarrow> (Fail (WrapError ''store: ping'' e), [PoolOpened, PoolPinged, PoolClosed])
           | Panic \<Rightarrow> (Panic, [PoolOpened])
           | Ok v \<Rightarrow> (Ok (), [PoolOpened, PoolPinged])))"

text \<open>\<open>Close\<close> releases the pool, after whatever was called on it.\<close>

definition store_Close :: "pool_call list \<Rightarrow> pool_call list" where
  "store_Close made = made @ [PoolClosed]"

text \<open>A failed opening leaves no pool behind.\<close>

lemma store_New_closes:
  assumes "store_New open_pool ping url = (res, made)" "\<And>u. ping u \<noteq> Panic"
  shows "(\<exists>e. res = Fail e) \<Longrightarrow> PoolOpened \<in> set made \<longleftrightarrow> PoolClosed \<in> set made"
    and "res = Ok () \<Longrightarrow> made = [PoolOpened, PoolPinged] \<and> store_Close made = [PoolOpened, PoolPinged, PoolClosed]"
  using assms by (auto simp: store_New_def store_Close_def split: outcome.splits)

section \<open>The adapters\<close>

text \<open>What \<open>workers.Server.ListFriends\<close> and \<open>Link\<close> return for the answer of their call.\<close>

fun friends_result :: "answer \<Rightarrow> (goerror + FriendsResult) option" where
  "friends_result (Failed e) = Some (Inl e)"
| "friends_result (Answered (FriendsReply res)) = Some (Inr res)"
| "friends_result a = None"

fun link_result :: "answer \<Rightarrow> (goerror + LinkResult) option" where
  "link_result (Failed e) = Some (Inl e)"
| "link_result (Answered (LinkReply res)) = Some (Inr res)"
| "link_result a = None"

fun submit_result :: "answer \<Rightarrow> unit outcome option" where
  "submit_result (Failed e) = Some (Fail e)"
| "submit_result Submitted = Some (Ok ())"
| "submit_result a = None"

definition worker_error :: "Worker_Protocol.ErrorEvent \<Rightarrow> string" where
  "worker_error e = ee_Code e @ '': '' @ ee_Message e"

definition toFriendStatus :: "Friend \<Rightarrow> FriendStatus" where
  "toFriendStatus fr = \<lparr>fs_SteamID = fr_SteamId fr, fs_PersonaName = fr_PersonaName fr,
     fs_Online = fr_Online fr, fs_InMatch = fr_InMatch fr\<rparr>"

definition friendsProvider_ListFriends :: "goerror + FriendsResult \<Rightarrow> FriendList outcome" where
  "friendsProvider_ListFriends answer =
     (case answer of
        Inl err \<Rightarrow> Fail err
      | Inr res \<Rightarrow>
          (case fres_Error res of
             Some e \<Rightarrow> Fail (ErrorString (''worker: '' @ worker_error e))
           | None \<Rightarrow> Ok \<lparr>fl_OwnerSteamID = fres_OwnerSteamId res, fl_Friends = map toFriendStatus (fres_Friends res)\<rparr>))"

definition guardTypeString :: "SteamGuardType \<Rightarrow> string" where
  "guardTypeString gt =
     (if gt = SteamGuardType_EMAIL then ''EMAIL'' else if gt = SteamGuardType_MOBILE then ''MOBILE'' else '''')"

text \<open>
  \<open>StartLink\<close>: the call it makes on the pool, the callbacks it passes, and the one callback it
  makes when the call has returned.
\<close>

definition StartLink_request :: "LinkStart \<Rightarrow> request" where
  "StartLink_request l = AskLink (ls_username l) (ls_password l) True True"

fun StartLink_interim :: "callback \<Rightarrow> LinkCallback" where
  "StartLink_interim (GuardCallback gt) = OnGuard (guardTypeString gt)"
| "StartLink_interim (ChallengeCallback url) = OnQrChallenge url"

definition StartLink_end :: "goerror + LinkResult \<Rightarrow> LinkCallback" where
  "StartLink_end answer =
     (case answer of
        Inl err \<Rightarrow> OnError err
      | Inr res \<Rightarrow>
          (case lres_Error res of
             Some e \<Rightarrow> OnError (ErrorString (worker_error e))
           | None \<Rightarrow> OnLinked (lres_OwnerSteamId res) (lres_RefreshToken res)))"

section \<open>Properties\<close>

text \<open>
  The process starts serving only with its three secrets set, whatever else the environment
  holds, and then hashes under the configured pepper and signs under the configured secret, with
  keys that live as long as tokens; with any of the three unset or empty it exits with status 1.
\<close>

theorem configure_needs_secrets:
  "case configure os of
     Inl status \<Rightarrow> status = 1 \<and> (\<exists>key \<in> {''DATABASE_URL'', ''JWT_SECRET'', ''CREDENTIAL_PEPPER''}. Getenv os key = '''')
   | Inr cfg \<Rightarrow> Getenv os ''DATABASE_URL'' \<noteq> '''' \<and> Getenv os ''JWT_SECRET'' \<noteq> '''' \<and> Getenv os ''CREDENTIAL_PEPPER'' \<noteq> ''''
       \<and> cfg_databaseURL cfg = Getenv os ''DATABASE_URL''
       \<and> cfg_hasher cfg = \<lparr>pepper = bytes_of_string (Getenv os ''CREDENTIAL_PEPPER''), hparams = DefaultPasswordParams\<rparr>
       \<and> cfg_tokens cfg = \<lparr>tm_secret = bytes_of_string (Getenv os ''JWT_SECRET''), tm_ttl = 24 * Hour\<rparr>
       \<and> ttl (cfg_keys cfg) = tm_ttl (cfg_tokens cfg)"
proof -
  have "0 < sessionTTL" by (simp add: sessionTTL_def Hour_def Minute_def Second_def)
  then show ?thesis
    by (auto simp: configure_def mustEnv_def Let_def NewHasher_def NewTokenManager_def sessionTTL_def bytes_of_string_def
        split: if_splits)
qed

text \<open>
  C39: how long a credential key outlives the token it was cached with: both are given the same
  lifetime, the key's from the earlier clock reading, but the token's expiry is cut to the whole
  second. So while the key is alive the token is refused for less than one second, and such an
  interval does exist when the lifetime ends within a second.
\<close>

theorem key_outlives_token_under_a_second:
  assumes "jwt_ok L" "clock_ok tm t2" "ascii uid" "uid \<noteq> ''''" "t1 \<le> t2" "ttl kc = tm_ttl tm"
  shows "\<exists>tok. Issue L tm t2 uid = Ok tok
    \<and> (\<forall>now \<ge> t1. fst (Get now uid (Put t1 uid key kc)) = Some key \<and> VerifyToken L tm now tok \<noteq> Ok uid \<longrightarrow>
         now < NewNumericDate (t2 + tm_ttl tm) + Second)
    \<and> (t1 = t2 \<and> (t2 + tm_ttl tm) mod Second \<noteq> 0 \<and> 0 < tm_ttl tm \<longrightarrow>
         (\<exists>now. fst (Get now uid (Put t1 uid key kc)) = Some key \<and> VerifyToken L tm now tok = Fail ErrInvalidToken))"
proof -
  obtain tok where tok: "Issue L tm t2 uid = Ok tok"
    and v: "\<forall>now'. VerifyToken L tm now' tok =
      (if uid \<noteq> '''' \<and> now' < NewNumericDate (t2 + tm_ttl tm) then Ok uid else Fail ErrInvalidToken)"
    using issued_token_verifies [OF assms(1,3,2)] by blast
  have g: "fst (Get now uid (Put t1 uid key kc)) = Some key \<longleftrightarrow> now < t1 + tm_ttl tm" for now
    by (auto simp: fst_Get live_key_Put assms(6))
  have s: "t2 + tm_ttl tm < NewNumericDate (t2 + tm_ttl tm) + Second" "NewNumericDate (t2 + tm_ttl tm) \<le> t2 + tm_ttl tm"
    using NewNumericDate_gt [of "t2 + tm_ttl tm"] by (simp_all add: NewNumericDate_le)
  have less: "NewNumericDate (t2 + tm_ttl tm) < t2 + tm_ttl tm" if "(t2 + tm_ttl tm) mod Second \<noteq> 0"
  proof -
    have "0 \<le> (t2 + tm_ttl tm) mod Second" using Second_pos by simp
    with that show ?thesis unfolding NewNumericDate_def by linarith
  qed
  have "now < NewNumericDate (t2 + tm_ttl tm) + Second" if "fst (Get now uid (Put t1 uid key kc)) = Some key" for now
    using that s(1) assms(5) unfolding g by linarith
  moreover have "\<exists>now. fst (Get now uid (Put t1 uid key kc)) = Some key \<and> VerifyToken L tm now tok = Fail ErrInvalidToken"
    if "t1 = t2" "(t2 + tm_ttl tm) mod Second \<noteq> 0"
  proof (intro exI conjI)
    show "fst (Get (NewNumericDate (t2 + tm_ttl tm)) uid (Put t1 uid key kc)) = Some key"
      using less [OF that(2)] that(1) g by simp
    show "VerifyToken L tm (NewNumericDate (t2 + tm_ttl tm)) tok = Fail ErrInvalidToken"
      using v [rule_format, of "NewNumericDate (t2 + tm_ttl tm)"] by simp
  qed
  ultimately show ?thesis using tok by (intro exI [of _ tok] conjI allI impI) (assumption, blast, metis)
qed

theorem key_outlives_token_under_a_second_witness:
  "let tm = \<lparr>tm_secret = [1], tm_ttl = Hour\<rparr>; kc = NewKeyCache Hour in
     \<exists>tok now. Issue ref_jwt tm 5 ''u'' = Ok tok \<and> fst (Get now ''u'' (Put 5 ''u'' [1] kc)) = Some [1]
       \<and> VerifyToken ref_jwt tm now tok = Fail ErrInvalidToken"
proof -
  let ?tm = "\<lparr>tm_secret = [1 :: byte], tm_ttl = Hour\<rparr>"
  have ck: "clock_ok ?tm 5" "ascii ''u''" "''u'' \<noteq> ''''" "(5 :: int) \<le> 5" "ttl (NewKeyCache Hour) = tm_ttl ?tm"
    by (simp_all add: clock_ok_def Hour_def Minute_def Second_def ascii_def)
  have h: "(5 :: int) = 5 \<and> (5 + tm_ttl ?tm) mod Second \<noteq> 0 \<and> 0 < tm_ttl ?tm"
    by (simp add: Hour_def Minute_def Second_def)
  show ?thesis using key_outlives_token_under_a_second [OF ref_jwt_ok ck, of "[1]"] h by (auto simp: Let_def)
qed

end
