(* ===== verification/Api_Invariant.thy ===== *)
theory Api_Invariant
  imports Api_Router
begin

text \<open>
  What stays true of the server in every run: the schema, the password hashes it can verify,
  cached keys and stored refresh tokens that belong to the user they are filed under, and the
  bookkeeping of links in flight.
\<close>

declare One_nat_def [simp del]

section \<open>The invariant\<close>

definition hash_good :: "Deps \<Rightarrow> User \<Rightarrow> bool" where
  "hash_good D u \<longleftrightarrow> (\<forall>pw. \<exists>b. Verify (d_crypto D) (d_hasher D) pw (u_PasswordHash u) = Ok b)"

text \<open>A credential key of a user: derived, with the user's salt, from a password that logs the user in.\<close>

definition user_key :: "Deps \<Rightarrow> User \<Rightarrow> bytes \<Rightarrow> bool" where
  "user_key D u key \<longleftrightarrow> length key = 32 \<and> (\<exists>pw. Verify (d_crypto D) (d_hasher D) pw (u_PasswordHash u) = Ok True
     \<and> DeriveKey (d_crypto D) pw (u_KDFSalt u) = Ok key)"

definition keys_ok :: "Deps \<Rightarrow> Db \<Rightarrow> KeyCache \<Rightarrow> bool" where
  "keys_ok D d ks \<longleftrightarrow> (\<forall>uid e. entries ks uid = Some e \<longrightarrow>
     (\<exists>u \<in> set (users d). u_ID u = uid \<and> user_key D u (entry_key e)))"

definition links_ok :: "Deps \<Rightarrow> Db \<Rightarrow> LinkStart list \<Rightarrow> bool" where
  "links_ok D d ls \<longleftrightarrow> (\<forall>l \<in> set ls. used_uuid (d_pg D) d (ls_accountID l) \<and>
     (\<exists>u \<in> set (users d). user_key D u (ls_key l) \<and>
        (\<forall>a \<in> set (steam_accounts d). r_id a = ls_accountID l \<longrightarrow> r_user_id a = u_ID u)))"

definition reqs_ok :: "LinkStart list \<Rightarrow> (string \<rightharpoonup> string) \<Rightarrow> bool" where
  "reqs_ok ls m \<longleftrightarrow> (\<forall>a r. m a = Some r \<longrightarrow> (\<exists>l \<in> set ls. ls_accountID l = a \<and> ls_reqID l = r))"

text \<open>A stored credential opens, under a key of the account's owner that a link was started with.\<close>

definition cred_ok :: "Deps \<Rightarrow> Db \<Rightarrow> LinkStart list \<Rightarrow> account_row \<Rightarrow> bool" where
  "cred_ok D d ls a \<longleftrightarrow> (\<forall>ct. r_enc_refresh_token a = Some ct \<longrightarrow>
     (\<exists>u \<in> set (users d). u_ID u = r_user_id a \<and>
        (\<exists>key non tok. r_enc_refresh_nonce a = Some non \<and> user_key D u key \<and>
           Decrypt (d_crypto D) key ct non = Ok tok \<and> (\<exists>l \<in> set ls. ls_accountID l = r_id a \<and> ls_key l = key))))"

definition api_inv :: "Deps \<Rightarrow> Api \<Rightarrow> bool" where
  "api_inv D s \<longleftrightarrow> db_inv (d_pg D) (s_db s) \<and> rand_ok (s_rand s)
     \<and> (\<forall>u \<in> set (users (s_db s)). hash_good D u)
     \<and> keys_ok D (s_db s) (s_keys s) \<and> links_ok D (s_db s) (s_started s) \<and> reqs_ok (s_started s) (s_linkReqs s)
     \<and> (\<forall>a \<in> set (steam_accounts (s_db s)). cred_ok D (s_db s) (s_started s) a)
     \<and> (\<not> d_links D \<longrightarrow> s_started s = [])"

section \<open>Growth of the tables\<close>

definition same_cred :: "account_row \<Rightarrow> account_row \<Rightarrow> bool" where
  "same_cred a b \<longleftrightarrow> r_id a = r_id b \<and> r_user_id a = r_user_id b
     \<and> r_enc_refresh_token a = r_enc_refresh_token b \<and> r_enc_refresh_nonce a = r_enc_refresh_nonce b"

definition db_ext :: "pg \<Rightarrow> Db \<Rightarrow> Db \<Rightarrow> bool" where
  "db_ext pg d d' \<longleftrightarrow> uuids_used d \<le> uuids_used d' \<and> set (users d) \<subseteq> set (users d')
     \<and> (\<forall>a' \<in> set (steam_accounts d'). (\<exists>a \<in> set (steam_accounts d). same_cred a a')
          \<or> (\<not> used_uuid pg d (r_id a') \<and> r_enc_refresh_token a' = None))"

lemma db_ext_same [simp]: "steam_accounts d' = steam_accounts d \<Longrightarrow> users d' = users d \<Longrightarrow> uuids_used d' = uuids_used d
    \<Longrightarrow> db_ext pg d d'"
  by (auto simp: db_ext_def same_cred_def)

lemma keys_ok_ext: "keys_ok D d ks \<Longrightarrow> db_ext pg d d' \<Longrightarrow> keys_ok D d' ks"
  unfolding keys_ok_def db_ext_def by blast

lemma links_ok_ext:
  assumes "links_ok D d ls" "db_ext (d_pg D) d d'"
  shows "links_ok D d' ls"
  unfolding links_ok_def
proof (intro ballI conjI)
  fix l assume l: "l \<in> set ls"
  then have u: "used_uuid (d_pg D) d (ls_accountID l)" using assms(1) unfolding links_ok_def by blast
  then show "used_uuid (d_pg D) d' (ls_accountID l)"
    using assms(2) by (auto simp: db_ext_def intro: used_uuid_mono)
  from l assms(1) obtain v where v: "v \<in> set (users d)" "user_key D v (ls_key l)"
    "\<forall>a \<in> set (steam_accounts d). r_id a = ls_accountID l \<longrightarrow> r_user_id a = u_ID v" unfolding links_ok_def by blast
  have own: "r_user_id a' = u_ID v" if new: "a' \<in> set (steam_accounts d')" "r_id a' = ls_accountID l" for a'
  proof -
    obtain a where "a \<in> set (steam_accounts d)" "same_cred a a'"
      using assms(2) new u unfolding db_ext_def by auto
    then show ?thesis using v(3) new(2) unfolding same_cred_def by auto
  qed
  have "v \<in> set (users d')" using v(1) assms(2) unfolding db_ext_def by blast
  with own show "\<exists>u \<in> set (users d'). user_key D u (ls_key l) \<and>
      (\<forall>a \<in> set (steam_accounts d'). r_id a = ls_accountID l \<longrightarrow> r_user_id a = u_ID u)" using v(2) by blast
qed

lemma cred_ok_ext:
  assumes "cred_ok D d ls a" "db_ext pg d d'" "same_cred a a'"
  shows "cred_ok D d' ls a'"
proof -
  have "set (users d) \<subseteq> set (users d')" using assms(2) by (simp add: db_ext_def)
  moreover have "r_id a' = r_id a" "r_user_id a' = r_user_id a"
    "r_enc_refresh_token a' = r_enc_refresh_token a" "r_enc_refresh_nonce a' = r_enc_refresh_nonce a"
    using assms(3) by (simp_all add: same_cred_def)
  ultimately show ?thesis using assms(1) unfolding cred_ok_def by (simp only:) blast
qed

lemma creds_ok_ext:
  assumes "\<forall>a \<in> set (steam_accounts d). cred_ok D d ls a" "db_ext pg d d'"
  shows "\<forall>a \<in> set (steam_accounts d'). cred_ok D d' ls a"
proof
  fix a' assume "a' \<in> set (steam_accounts d')"
  with assms(2) have "(\<exists>a \<in> set (steam_accounts d). same_cred a a') \<or> r_enc_refresh_token a' = None"
    unfolding db_ext_def by auto
  then consider a where "a \<in> set (steam_accounts d)" "same_cred a a'" | "r_enc_refresh_token a' = None"
    by auto
  then show "cred_ok D d' ls a'"
  proof cases
    case 1
    have "cred_ok D d ls a" using assms(1) 1(1) by (rule bspec)
    then show ?thesis by (rule cred_ok_ext [OF _ assms(2) 1(2)])
  next
    case 2
    then show ?thesis by (simp add: cred_ok_def)
  qed
qed

text \<open>The operations of the store, but for the one that writes credentials, let the tables grow so.\<close>

lemma ext_Create_user: "UserStore_Create pg now n h s d = (c, d') \<Longrightarrow> db_ext pg d d'"
  by (cases "is_Ok c", cases c) (auto dest!: Create_Ok_form Create_other_form simp: db_ext_def same_cred_def)

lemma ext_GetByUsername: "UserStore_GetByUsername pg n d = (q, d') \<Longrightarrow> db_ext pg d d'"
  by (auto dest!: GetByUsername_db)

lemma ext_GetByUserID: "GetByUserID pg n d = (q, d') \<Longrightarrow> db_ext pg d d'"
  by (auto dest!: GetByUserID_db)

lemma ext_Create_account:
  assumes "pg_ok pg" "SteamAccountStore_Create pg now uid name d = (c, d')"
  shows "db_ext pg d d'"
proof (cases c)
  case (Ok i)
  obtain u where "i = gen_uuid pg (uuids_used d)"
    "d' = d\<lparr>queries := Suc (queries d), uuids_used := Suc (uuids_used d),
      steam_accounts := steam_accounts d @ [\<lparr>r_id = i, r_user_id = u, r_steam_id = None,
        r_steam_username = (if name = '''' then None else Some name), r_enc_refresh_token = None,
        r_enc_refresh_nonce = None, r_refresh_token_expires = None, r_created_at = now\<rparr>]\<rparr>"
    by (rule Create_account_Ok [OF assms(2) [unfolded Ok]])
  then show ?thesis using next_uuid_fresh [OF assms(1)] by (auto simp: db_ext_def same_cred_def)
qed (use Create_account_other [OF assms(2)] in auto)

lemma ext_Delete_account: "SteamAccountStore_Delete pg uid accID d = (c, d') \<Longrightarrow> db_ext pg d d'"
  by (cases "is_Ok c", cases c)
    (auto elim!: Delete_account_Ok dest!: Delete_account_other simp: db_ext_def same_cred_def)

lemma ext_SetSteamID:
  assumes "SetSteamID pg accID sid d = (c, d')"
  shows "db_ext pg d d'"
proof (cases c)
  case (Ok x)
  from assms [unfolded Ok SetSteamID_def] show ?thesis
    by (rule exec_update_Ok) (auto simp: db_ext_def same_cred_def)
qed (use exec_update_other [OF assms [unfolded SetSteamID_def]] in auto)

section \<open>Steps that keep the invariant\<close>

lemma api_inv_frame [simp]:
  "api_inv D (s\<lparr>s_hub := h\<rparr>) = api_inv D s" "api_inv D (s\<lparr>s_asked := as\<rparr>) = api_inv D s"
  "api_inv D (s\<lparr>s_submitted := ss\<rparr>) = api_inv D s"
  by (simp_all add: api_inv_def)

lemma api_inv_rand: "api_inv D s \<Longrightarrow> rand_ok r \<Longrightarrow> api_inv D (s\<lparr>s_rand := r\<rparr>)"
  by (simp add: api_inv_def)

lemma api_inv_db:
  assumes "api_inv D s" "db_inv (d_pg D) d'" "db_ext (d_pg D) (s_db s) d'" "\<forall>u \<in> set (users d'). hash_good D u"
  shows "api_inv D (s\<lparr>s_db := d'\<rparr>)"
  using assms keys_ok_ext [OF _ assms(3)] links_ok_ext [OF _ assms(3)] creds_ok_ext [OF _ assms(3)]
  by (simp add: api_inv_def)

lemma users_kept:
  "UserStore_GetByUsername pg n d = (q, d') \<Longrightarrow> users d' = users d"
  "GetByUserID pg uid d = (g, d') \<Longrightarrow> users d' = users d"
  "SteamAccountStore_Create pg now uid name d = (c, d') \<Longrightarrow> users d' = users d"
  "SteamAccountStore_Delete pg uid accID d = (x, d') \<Longrightarrow> users d' = users d"
  "SetSteamID pg accID sid d = (x, d') \<Longrightarrow> users d' = users d"
  "SaveRefreshToken pg accID sid name tok non ex d = (x, d') \<Longrightarrow> users d' = users d"
proof -
  show "UserStore_GetByUsername pg n d = (q, d') \<Longrightarrow> users d' = users d" by (auto dest: GetByUsername_db)
  show "GetByUserID pg uid d = (g, d') \<Longrightarrow> users d' = users d" by (auto dest: GetByUserID_db)
  show "SteamAccountStore_Create pg now uid name d = (c, d') \<Longrightarrow> users d' = users d"
    by (cases c) (auto elim!: Create_account_Ok dest: Create_account_other)
  show "SteamAccountStore_Delete pg uid accID d = (x, d') \<Longrightarrow> users d' = users d"
    by (cases x) (auto elim!: Delete_account_Ok dest: Delete_account_other)
  have u: "exec_one w (run_sql pg (update_accounts pg accID texts f) d) = (x, d') \<Longrightarrow> users d' = users d" for w texts f
    by (cases x) (auto elim!: exec_update_Ok dest: exec_update_other)
  show "SetSteamID pg accID sid d = (x, d') \<Longrightarrow> users d' = users d"
    "SaveRefreshToken pg accID sid name tok non ex d = (x, d') \<Longrightarrow> users d' = users d"
    by (simp_all add: SetSteamID_def SaveRefreshToken_def u)
qed

lemma api_inv_same_users:
  assumes "api_inv D s" "db_inv (d_pg D) d'" "db_ext (d_pg D) (s_db s) d'" "users d' = users (s_db s)"
  shows "api_inv D (s\<lparr>s_db := d'\<rparr>)"
  by (rule api_inv_db [OF assms(1-3)]) (use assms(1,4) in \<open>simp add: api_inv_def\<close>)

lemma api_inv_lookups:
  "api_inv D s \<Longrightarrow> UserStore_GetByUsername (d_pg D) n (s_db s) = (q, d') \<Longrightarrow> api_inv D (s\<lparr>s_db := d'\<rparr>)"
  "api_inv D s \<Longrightarrow> GetByUserID (d_pg D) uid (s_db s) = (g, d') \<Longrightarrow> api_inv D (s\<lparr>s_db := d'\<rparr>)"
  "api_inv D s \<Longrightarrow> SteamAccountStore_Delete (d_pg D) uid accID (s_db s) = (x, d') \<Longrightarrow> api_inv D (s\<lparr>s_db := d'\<rparr>)"
  "api_inv D s \<Longrightarrow> SetSteamID (d_pg D) accID sid (s_db s) = (x, d') \<Longrightarrow> api_inv D (s\<lparr>s_db := d'\<rparr>)"
  "api_inv D s \<Longrightarrow> SteamAccountStore_Create (d_pg D) now uid name (s_db s) = (c, d') \<Longrightarrow> api_inv D (s\<lparr>s_db := d'\<rparr>)"
proof -
  assume inv: "api_inv D s"
  then have d: "db_inv (d_pg D) (s_db s)" by (simp add: api_inv_def)
  note k = api_inv_same_users [OF inv]
  show "api_inv D (s\<lparr>s_db := d'\<rparr>)" if "UserStore_GetByUsername (d_pg D) n (s_db s) = (q, d')"
    by (rule k [OF GetByUsername_inv [OF d that] ext_GetByUsername [OF that] users_kept(1) [OF that]])
  show "api_inv D (s\<lparr>s_db := d'\<rparr>)" if "GetByUserID (d_pg D) uid (s_db s) = (g, d')"
    by (rule k [OF GetByUserID_inv [OF d that] ext_GetByUserID [OF that] users_kept(2) [OF that]])
  show "api_inv D (s\<lparr>s_db := d'\<rparr>)" if "SteamAccountStore_Delete (d_pg D) uid accID (s_db s) = (x, d')"
    by (rule k [OF Delete_account_inv [OF d that] ext_Delete_account [OF that] users_kept(4) [OF that]])
  show "api_inv D (s\<lparr>s_db := d'\<rparr>)" if "SetSteamID (d_pg D) accID sid (s_db s) = (x, d')"
    by (rule k [OF SetSteamID_inv [OF d that] ext_SetSteamID [OF that] users_kept(5) [OF that]])
  show "api_inv D (s\<lparr>s_db := d'\<rparr>)" if "SteamAccountStore_Create (d_pg D) now uid name (s_db s) = (c, d')"
    by (rule k [OF Create_account_inv [OF d that] ext_Create_account [OF db_inv_pg_ok [OF d] that] users_kept(3) [OF that]])
qed

lemma keys_ok_Get: "keys_ok D d ks \<Longrightarrow> keys_ok D d (snd (Get now uid ks))"
  by (auto simp: keys_ok_def Get_def split: option.splits if_splits)

lemma keys_ok_Delete: "keys_ok D d ks \<Longrightarrow> keys_ok D d (Delete uid ks)"
  by (auto simp: keys_ok_def Delete_def)

lemma keys_ok_Put: "keys_ok D d ks \<Longrightarrow> u \<in> set (users d) \<Longrightarrow> user_key D u key \<Longrightarrow> keys_ok D d (Put now (u_ID u) key ks)"
  by (auto simp: keys_ok_def Put_def)

lemma api_inv_keys: "api_inv D s \<Longrightarrow> keys_ok D (s_db s) ks \<Longrightarrow> api_inv D (s\<lparr>s_keys := ks\<rparr>)"
  by (simp add: api_inv_def)

lemma api_inv_Get: "api_inv D s \<Longrightarrow> Get now uid (s_keys s) = (k, ks) \<Longrightarrow> api_inv D (s\<lparr>s_keys := ks\<rparr>)"
  by (rule api_inv_keys) (use keys_ok_Get [of D "s_db s" "s_keys s" now uid] in \<open>simp_all add: api_inv_def\<close>)

lemma Get_user_key:
  assumes "api_inv D s" "Get now uid (s_keys s) = (Some key, ks)"
  obtains u where "u \<in> set (users (s_db s))" "u_ID u = uid" "user_key D u key"
proof -
  obtain e where "entries (s_keys s) uid = Some e" "entry_key e = key"
    using assms(2) by (auto simp: Get_def split: option.splits if_splits)
  with assms(1) that show ?thesis unfolding api_inv_def keys_ok_def by blast
qed

lemma reqs_ok_clear: "reqs_ok ls m \<Longrightarrow> reqs_ok ls (m(a := None))"
  by (auto simp: reqs_ok_def)

lemma api_inv_clear: "api_inv D s \<Longrightarrow> api_inv D (clearLinkReq a s)"
  by (simp add: api_inv_def clearLinkReq_def reqs_ok_clear)

lemma newLinkID_rand: "newLinkID r = (i, r') \<Longrightarrow> rand_ok r \<Longrightarrow> rand_ok r'"
  by (auto simp: newLinkID_def split: option.splits prod.splits dest: rand_Read_keeps_ok)

lemma cred_ok_more: "cred_ok D d ls a \<Longrightarrow> set ls \<subseteq> set ls' \<Longrightarrow> cred_ok D d ls' a"
  unfolding cred_ok_def by (meson subsetD)

lemma api_inv_start:
  assumes inv: "api_inv D s" and u: "u \<in> set (users (s_db s))" "user_key D u key"
    and i: "used_uuid (d_pg D) (s_db s) i" "\<forall>a \<in> set (steam_accounts (s_db s)). r_id a = i \<longrightarrow> r_user_id a = u_ID u"
  shows "api_inv D (startAccountLink D i name pw key s)"
proof (cases "d_links D")
  case True
  obtain q r' where n: "newLinkID (s_rand s) = (q, r')" by (cases "newLinkID (s_rand s)")
  let ?l = "\<lparr>ls_reqID = q, ls_username = name, ls_password = pw, ls_accountID = i, ls_key = key\<rparr>"
  have "rand_ok r'" using newLinkID_rand [OF n] inv by (simp add: api_inv_def)
  moreover have "links_ok D (s_db s) (s_started s @ [?l])"
    using inv u i unfolding api_inv_def links_ok_def by auto
  moreover have "reqs_ok (s_started s @ [?l]) ((s_linkReqs s)(i \<mapsto> q))"
    using inv unfolding api_inv_def reqs_ok_def by auto
  moreover have "\<forall>a \<in> set (steam_accounts (s_db s)). cred_ok D (s_db s) (s_started s @ [?l]) a"
    using inv cred_ok_more [of D "s_db s" "s_started s" _ "s_started s @ [?l]"] unfolding api_inv_def by auto
  ultimately show ?thesis
    using inv True by (simp add: api_inv_def startAccountLink_def n setLinkReq_def Let_def)
qed (use inv in \<open>simp add: startAccountLink_def\<close>)

section \<open>Every handler keeps the invariant\<close>

lemma DeriveKey_32: "argon2_ok C \<Longrightarrow> DeriveKey C pw salt = Ok key \<Longrightarrow> length key = 32"
  by (rule DeriveKey_Ok [of C pw salt]) auto

lemma inv_cacheKeyAndIssue:
  assumes D: "deps_ok D" and inv: "api_inv D s" and u: "u \<in> set (users (s_db s))"
    and v: "Verify (d_crypto D) (d_hasher D) pw (u_PasswordHash u) = Ok True"
  shows "api_inv D (snd (cacheKeyAndIssue D r (u_ID u) pw (u_KDFSalt u) st s))"
proof -
  have a: "argon2_ok (d_crypto D)" using D by (simp add: deps_ok_def)
  obtain key where k: "DeriveKey (d_crypto D) pw (u_KDFSalt u) = Ok key" "length key = 32"
    by (rule DeriveKey_Ok [OF a])
  then have "user_key D u key" using v unfolding user_key_def by blast
  then have "api_inv D (s\<lparr>s_keys := Put (rq_clock r 1) (u_ID u) key (s_keys s)\<rparr>)"
    using inv u by (intro api_inv_keys keys_ok_Put) (simp_all add: api_inv_def)
  then show ?thesis by (simp add: cacheKeyAndIssue_def k)
qed

lemma Hash_keeps_rand: "Hash C h pw r = (c, r') \<Longrightarrow> rand_ok r \<Longrightarrow> rand_ok r'"
  by (auto simp: Hash_def split: option.splits prod.splits dest: rand_Read_keeps_ok)

lemma NewSalt_keeps_rand: "NewSalt n r = (c, r') \<Longrightarrow> rand_ok r \<Longrightarrow> rand_ok r'"
  by (auto simp: NewSalt_def split: option.splits prod.splits dest: rand_Read_keeps_ok)

lemma Hash_verifies:
  assumes D: "deps_ok D" and r: "rand_ok r" and h: "Hash (d_crypto D) (d_hasher D) pw r = (Ok enc, r')"
  shows "Verify (d_crypto D) (d_hasher D) pw enc = Ok True" "\<exists>b. Verify (d_crypto D) (d_hasher D) pw' enc = Ok b"
proof -
  have a: "argon2_ok (d_crypto D)" "params_ok (hparams (d_hasher D))" using D by (simp_all add: deps_ok_def)
  obtain salt key where k: "IDKey (d_crypto D) (pepperedKey (d_crypto D) (d_hasher D) pw) salt (hparams (d_hasher D)) = Ok key"
    "\<forall>h' password'. Verify (d_crypto D) h' password' enc =
        bind_outcome (IDKey (d_crypto D) (pepperedKey (d_crypto D) h' password') salt (hparams (d_hasher D))) (\<lambda>got. Ok (got = key))"
    using Verify_Hash_iff [OF r a h] by blast
  then show "Verify (d_crypto D) (d_hasher D) pw enc = Ok True" by simp
  obtain key' where "IDKey (d_crypto D) (pepperedKey (d_crypto D) (d_hasher D) pw') salt (hparams (d_hasher D)) = Ok key'"
    by (rule IDKey_Ok [OF a])
  with k(2) show "\<exists>b. Verify (d_crypto D) (d_hasher D) pw' enc = Ok b" by simp
qed

text \<open>A user that \<open>Register\<close> stores: the hash of the password and a salt.\<close>

lemma inv_created_user:
  assumes D: "deps_ok D" and inv: "api_inv D s"
    and h: "Hash (d_crypto D) (d_hasher D) pw (s_rand s) = (Ok hash, r1)"
    and c: "UserStore_Create (d_pg D) now n hash salt (s_db s) = (c, d')"
  shows "api_inv D (s\<lparr>s_db := d'\<rparr>)"
proof (rule api_inv_db [OF inv _ ext_Create_user [OF c]])
  have r: "rand_ok (s_rand s)" using inv by (simp add: api_inv_def)
  show "db_inv (d_pg D) d'" by (rule Create_inv [OF _ c]) (use inv in \<open>simp add: api_inv_def\<close>)
  have "hash_good D u" if "u_PasswordHash u = hash" for u
    using Hash_verifies(2) [OF D r h] by (simp add: hash_good_def that)
  moreover have "\<forall>u \<in> set (users (s_db s)). hash_good D u" using inv by (simp add: api_inv_def)
  ultimately show "\<forall>u \<in> set (users d'). hash_good D u"
    using c by (cases c) (auto dest!: Create_Ok_form(3) Create_other_form)
qed

lemma inv_Register:
  assumes D: "deps_ok D" and inv: "api_inv D s"
  shows "api_inv D (snd (Register D r s))"
proof -
  have ro: "rand_ok (s_rand s)" using inv by (simp add: api_inv_def)
  show ?thesis
  proof (cases "decodeJSON RegisterRequest r")
    case None
    then show ?thesis using inv by (simp add: Register_def)
  next
    case (Some req)
    let ?pw = "req ''password''"
    obtain h r1 where h: "Hash (d_crypto D) (d_hasher D) ?pw (s_rand s) = (h, r1)" by (rule prod.exhaust)
    have r1: "rand_ok r1" by (rule Hash_keeps_rand [OF h ro])
    obtain n r2 where n: "NewSalt KDFSaltLen r1 = (n, r2)" by (rule prod.exhaust)
    have r2: "rand_ok r2" by (rule NewSalt_keeps_rand [OF n r1])
    show ?thesis
    proof (cases "\<exists>hash salt. h = Ok hash \<and> n = Ok salt")
      case False
      then show ?thesis
        using inv r1 r2 by (auto simp: Register_def Some h n api_inv_rand split: outcome.splits)
    next
      case True
      then obtain hash salt where hs: "h = Ok hash" "n = Ok salt" by blast
      obtain c d' where c: "UserStore_Create (d_pg D) (rq_clock r 0) (req ''username'') hash salt (s_db s) = (c, d')"
        by (rule prod.exhaust)
      have v1: "api_inv D (s\<lparr>s_rand := r2, s_db := d'\<rparr>)"
        using api_inv_rand [OF inv_created_user [OF D inv h [unfolded hs(1)] c] r2] by (simp add: api_inv_def)
      show ?thesis
      proof (cases c)
        case (Ok i)
        let ?u = "\<lparr>u_ID = i, u_Username = req ''username'', u_PasswordHash = hash, u_KDFSalt = salt, u_CreatedAt = rq_clock r 0\<rparr>"
        have "?u \<in> set (users d')" using Create_Ok_form(3) [OF c [unfolded Ok]] by auto
        then have "api_inv D (snd (cacheKeyAndIssue D r (u_ID ?u) ?pw (u_KDFSalt ?u) 201 (s\<lparr>s_rand := r2, s_db := d'\<rparr>)))"
          using Hash_verifies(1) [OF D ro h [unfolded hs]] by (intro inv_cacheKeyAndIssue [OF D v1]) simp_all
        then show ?thesis using inv by (simp add: Register_def Some h n hs c Ok)
      qed (use inv v1 in \<open>simp_all add: Register_def Some h n hs c\<close>)
    qed
  qed
qed

lemma inv_Login:
  assumes D: "deps_ok D" and inv: "api_inv D s"
  shows "api_inv D (snd (Login D r s))"
proof (cases "decodeJSON LoginRequest r")
  case None
  then show ?thesis using inv by (simp add: Login_def)
next
  case (Some req)
  obtain q d' where q: "UserStore_GetByUsername (d_pg D) (req ''username'') (s_db s) = (q, d')" by (rule prod.exhaust)
  have v: "api_inv D (s\<lparr>s_db := d'\<rparr>)" by (rule api_inv_lookups(1) [OF inv q])
  show ?thesis
  proof (cases "\<exists>u. q = Ok u \<and> Verify (d_crypto D) (d_hasher D) (req ''password'') (u_PasswordHash u) = Ok True")
    case True
    then obtain u where u: "q = Ok u" "Verify (d_crypto D) (d_hasher D) (req ''password'') (u_PasswordHash u) = Ok True" by blast
    have "u \<in> set (users (s_db s))"
      using ustore.lookup_Ok [OF q [unfolded u(1)]] by (auto simp: users_of_def find_Some_iff)
    then have "u \<in> set (users d')" by (simp add: users_kept(1) [OF q])
    then show ?thesis
      using inv_cacheKeyAndIssue [OF D v _ u(2), of r 200] u by (simp add: Login_def Some q)
  qed (use v in \<open>auto simp: Login_def Some q split: outcome.splits\<close>)
qed

lemma inv_Logout: "api_inv D s \<Longrightarrow> api_inv D (snd (Logout ctx r s))"
  by (cases ctx) (auto simp: Logout_def intro!: api_inv_keys keys_ok_Delete, simp add: api_inv_def)

lemma inv_AddSteamAccount:
  assumes D: "deps_ok D" and inv: "api_inv D s"
  shows "api_inv D (snd (AddSteamAccount D ctx r s))"
proof (cases "\<exists>uid req. ctx = Some uid \<and> decodeJSON SteamAccountRequest r = Some req
    \<and> (req ''steam_username'' = '''') = (req ''steam_password'' = '''')")
  case True
  then obtain uid req where ur: "ctx = Some uid" "decodeJSON SteamAccountRequest r = Some req"
    "(req ''steam_username'' = '''') = (req ''steam_password'' = '''')" by blast
  obtain k ks where k: "Get (rq_clock r 1) uid (s_keys s) = (k, ks)" by (rule prod.exhaust)
  have v1: "api_inv D (s\<lparr>s_keys := ks\<rparr>)" by (rule api_inv_Get [OF inv k])
  show ?thesis
  proof (cases k)
    case None
    then show ?thesis using ur v1 by (simp add: AddSteamAccount_def k)
  next
    case (Some key)
    obtain c d' where c: "SteamAccountStore_Create (d_pg D) (rq_clock r 2) uid (req ''steam_username'') (s_db s) = (c, d')"
      by (rule prod.exhaust)
    have v2: "api_inv D (s\<lparr>s_keys := ks, s_db := d'\<rparr>)"
      using api_inv_lookups(5) [OF v1, of _ uid "req ''steam_username''" c d'] c by simp
    have pg: "pg_ok (d_pg D)" using D by (simp add: deps_ok_def)
    show ?thesis
    proof (cases c)
      case (Ok i)
      obtain u where u: "u \<in> set (users (s_db s))" "u_ID u = uid" "user_key D u key"
        by (rule Get_user_key [OF inv k [unfolded Some]])
      have "used_uuid (d_pg D) (s_db s) uid" using inv u(1,2) by (auto simp: api_inv_def db_inv_def)
      then have canon: "uuid_in (d_pg D) uid = Some uid" by (rule used_uuid_canonical [OF pg])
      obtain v where v: "uuid_in (d_pg D) uid = Some v" "i = gen_uuid (d_pg D) (uuids_used (s_db s))"
        "d' = (s_db s)\<lparr>queries := Suc (queries (s_db s)), uuids_used := Suc (uuids_used (s_db s)),
          steam_accounts := steam_accounts (s_db s) @ [\<lparr>r_id = i, r_user_id = v, r_steam_id = None,
            r_steam_username = (if req ''steam_username'' = '''' then None else Some (req ''steam_username'')),
            r_enc_refresh_token = None, r_enc_refresh_nonce = None, r_refresh_token_expires = None,
            r_created_at = rq_clock r 2\<rparr>]\<rparr>"
        by (rule Create_account_Ok [OF c [unfolded Ok]]) blast
      have "r_id a \<noteq> i" if "a \<in> set (steam_accounts (s_db s))" for a
        using inv next_uuid_fresh [OF pg] v(2) that unfolding api_inv_def db_inv_def by blast
      then have "\<forall>a \<in> set (steam_accounts d'). r_id a = i \<longrightarrow> r_user_id a = u_ID u"
        using v canon u(2) by auto
      moreover have "used_uuid (d_pg D) d' i" using v(2,3) by (auto simp: used_uuid_def)
      moreover have "u \<in> set (users d')" using u(1) v(3) by simp
      ultimately have "api_inv D (startAccountLink D i (req ''steam_username'') (req ''steam_password'') key
          (s\<lparr>s_keys := ks, s_db := d'\<rparr>))"
        by (intro api_inv_start [OF v2 _ u(3)]) simp_all
      then show ?thesis using ur Some by (simp add: AddSteamAccount_def k c Ok)
    qed (use ur Some v2 in \<open>simp_all add: AddSteamAccount_def k c\<close>)
  qed
qed (use inv in \<open>auto simp: AddSteamAccount_def split: option.splits\<close>)

lemma inv_SubmitAccountSteamGuard:
  assumes inv: "api_inv D s"
  shows "api_inv D (snd (SubmitAccountSteamGuard D accID ctx r s))"
proof (cases ctx)
  case None
  then show ?thesis using inv by (simp add: SubmitAccountSteamGuard_def)
next
  case (Some uid)
  obtain g d' where g: "GetByUserID (d_pg D) uid (s_db s) = (g, d')" by (rule prod.exhaust)
  have v: "api_inv D (s\<lparr>s_db := d'\<rparr>)" by (rule api_inv_lookups(2) [OF inv g])
  then have w: "api_inv D (s\<lparr>s_db := d', s_submitted := x\<rparr>)" for x by simp
  show ?thesis
    using inv v w by (auto simp: SubmitAccountSteamGuard_def Some g simp del: api_inv_frame
        split: option.splits outcome.splits)
qed

lemma inv_ListSteamAccounts: "api_inv D s \<Longrightarrow> api_inv D (snd (ListSteamAccounts D ctx r s))"
  by (auto simp: ListSteamAccounts_def split: option.splits prod.splits outcome.splits intro: api_inv_lookups(2))

lemma inv_DeleteSteamAccount: "api_inv D s \<Longrightarrow> api_inv D (snd (DeleteSteamAccount D accID ctx r s))"
  by (auto simp: DeleteSteamAccount_def split: option.splits prod.splits outcome.splits intro: api_inv_lookups(3))

lemma inv_backfill: "api_inv D s \<Longrightarrow> api_inv D (backfill D account fl s)"
  by (auto simp: backfill_def intro: api_inv_lookups(4) [OF _ surjective_pairing])

lemma inv_ListFriends:
  assumes inv: "api_inv D s"
  shows "api_inv D (snd (ListFriends D ctx r s))"
proof (cases ctx)
  case None
  then show ?thesis using inv by (simp add: ListFriends_def)
next
  case (Some uid)
  obtain g d' where g: "GetByUserID (d_pg D) uid (s_db s) = (g, d')" by (rule prod.exhaust)
  have v: "api_inv D (s\<lparr>s_db := d'\<rparr>)" by (rule api_inv_lookups(2) [OF inv g])
  obtain k ks where k: "Get (rq_clock r 1) uid (s_keys s) = (k, ks)" by (rule prod.exhaust)
  have w: "api_inv D (s\<lparr>s_db := d', s_keys := ks\<rparr>)"
    using api_inv_Get [OF v, of "rq_clock r 1" uid k ks] k by simp
  then have a: "api_inv D (s\<lparr>s_db := d', s_keys := ks, s_asked := x\<rparr>)" for x by simp
  show ?thesis
    using v w a inv_backfill [OF a] by (auto simp: ListFriends_def Some g k Let_def simp del: api_inv_frame
        split: option.splits outcome.splits)
qed

text \<open>The callback that stores the token: one row of one user gets a credential that opens.\<close>

lemma inv_SaveRefreshToken:
  assumes D: "deps_ok D" and inv: "api_inv D s" and l: "l \<in> set (s_started s)"
    and s: "SaveRefreshToken (d_pg D) (ls_accountID l) sid name ct non ex (s_db s) = (x, d')"
    and dec: "Decrypt (d_crypto D) (ls_key l) ct non = Ok tok"
  shows "api_inv D (s\<lparr>s_db := d'\<rparr>)"
proof (cases x)
  case (Ok y)
  have db: "db_inv (d_pg D) (s_db s)" using inv by (simp add: api_inv_def)
  have pg: "pg_ok (d_pg D)" using D by (simp add: deps_ok_def)
  let ?f = "\<lambda>a. a\<lparr>r_enc_refresh_token := Some ct, r_enc_refresh_nonce := Some non, r_refresh_token_expires := ex,
    r_steam_id := Some sid, r_steam_username := coalesce_nullif name (r_steam_username a)\<rparr>"
  from l inv have used: "used_uuid (d_pg D) (s_db s) (ls_accountID l)" unfolding api_inv_def links_ok_def by blast
  then have canon: "uuid_in (d_pg D) (ls_accountID l) = Some (ls_accountID l)" by (rule used_uuid_canonical [OF pg])
  obtain i where i: "uuid_in (d_pg D) (ls_accountID l) = Some i"
    "d' = (s_db s)\<lparr>queries := Suc (queries (s_db s)),
      steam_accounts := map (\<lambda>a. if r_id a = i then ?f a else a) (steam_accounts (s_db s))\<rparr>"
    by (rule exec_update_Ok [OF s [unfolded Ok SaveRefreshToken_def]])
  have i': "i = ls_accountID l" using i(1) canon by simp
  have us: "users d' = users (s_db s)" "uuids_used d' = uuids_used (s_db s)" by (simp_all add: i(2))
  obtain u where u: "u \<in> set (users (s_db s))" "user_key D u (ls_key l)"
    "\<forall>a \<in> set (steam_accounts (s_db s)). r_id a = ls_accountID l \<longrightarrow> r_user_id a = u_ID u"
    using l inv unfolding api_inv_def links_ok_def by blast
  have acc: "\<exists>a \<in> set (steam_accounts (s_db s)). r_id a' = r_id a \<and> r_user_id a' = r_user_id a \<and>
      (if r_id a = i then r_enc_refresh_token a' = Some ct \<and> r_enc_refresh_nonce a' = Some non else a' = a)"
    if "a' \<in> set (steam_accounts d')" for a'
    using that unfolding i(2) by auto
  have "cred_ok D d' (s_started s) a'" if a': "a' \<in> set (steam_accounts d')" for a'
  proof -
    obtain a where a: "a \<in> set (steam_accounts (s_db s))" "r_id a' = r_id a" "r_user_id a' = r_user_id a"
      "if r_id a = i then r_enc_refresh_token a' = Some ct \<and> r_enc_refresh_nonce a' = Some non else a' = a"
      using acc [OF a'] by blast
    show ?thesis
    proof (cases "r_id a = i")
      case True
      then have "u_ID u = r_user_id a'" using u(3) a i' by auto
      then show ?thesis using True a u l dec i' us unfolding cred_ok_def by fastforce
    next
      case False
      then show ?thesis using a inv us unfolding api_inv_def cred_ok_def by fastforce
    qed
  qed
  moreover have "links_ok D d' (s_started s)"
    unfolding links_ok_def
  proof (intro ballI)
    fix m assume "m \<in> set (s_started s)"
    then obtain w where "used_uuid (d_pg D) (s_db s) (ls_accountID m)" "w \<in> set (users (s_db s))" "user_key D w (ls_key m)"
      "\<forall>a \<in> set (steam_accounts (s_db s)). r_id a = ls_accountID m \<longrightarrow> r_user_id a = u_ID w"
      using inv unfolding api_inv_def links_ok_def by blast
    then show "used_uuid (d_pg D) d' (ls_accountID m) \<and> (\<exists>w \<in> set (users d'). user_key D w (ls_key m) \<and>
        (\<forall>a \<in> set (steam_accounts d'). r_id a = ls_accountID m \<longrightarrow> r_user_id a = u_ID w))"
      using acc us by (auto simp: used_uuid_def) metis+
  qed
  moreover have "keys_ok D d' (s_keys s)" using inv us by (simp add: api_inv_def keys_ok_def)
  ultimately show ?thesis
    using inv us SaveRefreshToken_inv [OF db s] by (simp add: api_inv_def)
next
  case (Fail e)
  then show ?thesis
    using exec_update_other [OF s [unfolded SaveRefreshToken_def]] inv
    by (intro api_inv_same_users [OF inv]) (simp_all add: api_inv_def)
next
  case Panic
  then show ?thesis
    using exec_update_other [OF s [unfolded SaveRefreshToken_def]] inv
    by (intro api_inv_same_users [OF inv]) (simp_all add: api_inv_def)
qed

lemma Encrypt_opens:
  assumes "gcm_ok C" "rand_ok r" "Encrypt C key p r = (Ok (ct, non), r')"
  shows "Decrypt C key ct non = Ok p"
proof -
  have e: "length key = 32" "rand_Read NonceSize r = (Some non, r')" "ct = gcm_Seal C key non p"
    using assms(3) by (simp_all add: Encrypt_Ok)
  then show ?thesis by (simp add: Decrypt_Ok [OF assms(1)] rand_Read_length [OF assms(2)])
qed

lemma inv_persistRefreshToken:
  assumes D: "deps_ok D" and inv: "api_inv D s" and l: "l \<in> set (s_started s)"
  shows "api_inv D (snd (persistRefreshToken D (ls_accountID l) sid tok (ls_key l) s))"
proof -
  obtain e r' where e: "Encrypt (d_crypto D) (ls_key l) (bytes_of_string tok) (s_rand s) = (e, r')" by (rule prod.exhaust)
  have ro: "rand_ok (s_rand s)" using inv by (simp add: api_inv_def)
  have r': "rand_ok r'" by (rule Encrypt_keeps_rand_ok [OF e ro])
  show ?thesis
  proof (cases e)
    case (Ok cn)
    obtain ct non where cn: "cn = (ct, non)" by (cases cn)
    obtain x d' where s: "SaveRefreshToken (d_pg D) (ls_accountID l) sid '''' ct non (expiryFromJWT tok) (s_db s) = (x, d')"
      by (rule prod.exhaust)
    have "Decrypt (d_crypto D) (ls_key l) ct non = Ok (bytes_of_string tok)"
      by (rule Encrypt_opens [OF _ ro e [unfolded Ok cn]]) (use D in \<open>simp add: deps_ok_def\<close>)
    then have "api_inv D (s\<lparr>s_db := d'\<rparr>)" by (rule inv_SaveRefreshToken [OF D inv l s])
    then have "api_inv D (s\<lparr>s_rand := r', s_db := d'\<rparr>)" using r' by (simp add: api_inv_def)
    then show ?thesis by (simp add: persistRefreshToken_def e Ok cn s)
  qed (use api_inv_rand [OF inv r'] in \<open>simp_all add: persistRefreshToken_def e\<close>)
qed

lemma clear_started [simp]: "s_started (clearLinkReq a s) = s_started s"
  by (simp add: clearLinkReq_def)

lemma inv_link_callback:
  assumes D: "deps_ok D" and inv: "api_inv D s" and l: "l \<in> set (s_started s)"
    and c: "link_callback D l cb s = Some s'"
  shows "api_inv D s'"
proof (cases cb)
  case (OnLinked sid tok)
  have "api_inv D (snd (persistRefreshToken D (ls_accountID l) sid tok (ls_key l) (clearLinkReq (ls_accountID l) s)))"
    by (rule inv_persistRefreshToken [OF D api_inv_clear [OF inv]]) (simp add: l)
  then show ?thesis using c OnLinked
    by (auto simp: link_callback_def push_def Let_def split: prod.splits outcome.splits)
qed (use c inv api_inv_clear [OF inv] in \<open>auto simp: link_callback_def push_def\<close>)

lemma inv_handler:
  assumes "deps_ok D" "api_inv D s"
  shows "api_inv D (snd (handler_of D P e ctx r s))"
  using assms
  by (cases e) (auto simp: inv_Register inv_Login inv_Logout inv_ListSteamAccounts inv_AddSteamAccount
      inv_DeleteSteamAccount inv_SubmitAccountSteamGuard inv_ListFriends notImplemented_def ws_open_def split: option.splits)

lemma inv_serve:
  assumes "deps_ok D" "api_inv D s"
  shows "api_inv D (snd (serve D P r s))"
  using assms inv_handler [OF assms]
  by (auto simp: serve_def requireAuth_def split: option.splits outcome.splits)

lemma inv_api_step:
  assumes "deps_ok D" "api_inv D s" "api_step D P s s'"
  shows "api_inv D s'"
  using assms(3)
proof (cases rule: api_step.cases)
  case (http r resp)
  then show ?thesis using inv_serve [OF assms(1,2), of P r] by simp
next
  case (callback l cb)
  then show ?thesis using inv_link_callback [OF assms(1,2)] by blast
next
  case (closed c)
  then show ?thesis using assms(2) by (simp add: ws_closed_def)
qed

lemma api_inv_init:
  assumes "deps_ok D" "rand_ok r"
  shows "api_inv D (NewApiServer empty_db (NewKeyCache t) r NewHub)"
proof -
  have "db_inv (d_pg D) empty_db" by (rule empty_db_inv) (use assms(1) in \<open>simp add: deps_ok_def\<close>)
  then show ?thesis using assms(2)
    by (simp add: api_inv_def NewApiServer_def NewKeyCache_def keys_ok_def links_ok_def reqs_ok_def)
      (simp add: empty_db_def)
qed

lemma api_inv_reachable:
  assumes "deps_ok D" "api_reachable D P s"
  shows "api_inv D s"
  using assms(2) by induction (auto intro: api_inv_init [OF assms(1)] inv_api_step [OF assms(1)])

end
