(* ===== verification/Api_Properties.thy ===== *)
theory Api_Properties
  imports Api_Invariant
begin

text \<open>
  The properties of the HTTP API: who gets in, what each endpoint answers and changes, and what
  holds of the stored credentials in every run of the server.
\<close>

section \<open>A reference server for the witnesses\<close>

definition ref_hasher :: Hasher where
  "ref_hasher = \<lparr>pepper = [7], hparams = DefaultPasswordParams\<rparr>"

definition ref_tokens :: TokenManager where
  "ref_tokens = \<lparr>tm_secret = [1], tm_ttl = 24 * Hour\<rparr>"

definition ref_deps :: Deps where
  "ref_deps = \<lparr>d_pg = ref_pg, d_crypto = ref_crypto, d_jwt = ref_jwt, d_hasher = ref_hasher, d_tokens = ref_tokens,
     d_links = True, d_submit = (\<lambda>n r c. Ok ()),
     d_friends = (\<lambda>n tok. Ok \<lparr>fl_OwnerSteamID = ''7'', fl_Friends = []\<rparr>),
     d_sort = (\<lambda>fs. sort_key f_PersonaName fs), d_format = (\<lambda>t. '''')\<rparr>"

lemma ref_deps_ok [simp]: "deps_ok ref_deps"
  by (simp add: deps_ok_def ref_deps_def ref_hasher_def)

definition ref_platform :: Platform where
  "ref_platform = \<lparr>chi_unrouted = (\<lambda>r. writeHeader 404), swagger = (\<lambda>r. writeHeader 200), ws_refusal = (\<lambda>r. None)\<rparr>"

definition ref_api :: Api where
  "ref_api = NewApiServer empty_db (NewKeyCache (24 * Hour)) ref_rng NewHub"

lemma ref_api_reachable: "api_reachable ref_deps ref_platform ref_api"
  unfolding ref_api_def by (rule api_init) simp

section \<open>Who gets in\<close>

lemma bearerToken_prefix:
  "tok \<noteq> '''' \<Longrightarrow> rq_Authorization r = ''Bearer '' @ tok \<Longrightarrow> bearerToken r = Some tok"
  by (simp add: bearerToken_def bearer_prefix_def EqualFold_def Let_def)

text \<open>
  C13: the routes behind the middleware: without a bearer token that verifies at the time of the
  request the answer is a 401, the state is exactly what it was, and no handler has run; with
  one, the handler runs for the user the token was issued to. A token issued at a time lets
  its user in until the whole second in which its lifetime ends.
\<close>

theorem protected_routes:
  assumes "deps_ok D" "route (rq_method r) (rq_path r) = Some e" "needs_auth e"
  shows "(bearerToken r = None \<longrightarrow> serve D P r s = (writeError 401 ''missing bearer token'', s))
    \<and> (\<forall>tok. bearerToken r = Some tok \<and> \<not> is_Ok (VerifyToken (d_jwt D) (d_tokens D) (rq_clock r 0) tok)
         \<longrightarrow> serve D P r s = (writeError 401 ''invalid token'', s))
    \<and> (\<forall>now uid tok. clock_ok (d_tokens D) now \<and> ascii uid \<and> uid \<noteq> '''' \<and> bearerToken r = Some tok
         \<and> Issue (d_jwt D) (d_tokens D) now uid = Ok tok \<longrightarrow>
         serve D P r s = (if rq_clock r 0 < NewNumericDate (now + tm_ttl (d_tokens D))
           then handler_of D P e (Some uid) r s else (writeError 401 ''invalid token'', s)))"
proof (intro conjI allI impI)
  have j: "jwt_ok (d_jwt D)" using assms(1) by (simp add: deps_ok_def)
  have sv: "serve D P r s = requireAuth D (handler_of D P e) r s" using assms(2,3) by (simp add: serve_def)
  show "serve D P r s = (writeError 401 ''missing bearer token'', s)" if "bearerToken r = None"
    by (simp add: sv requireAuth_def that)
  fix tok
  have np: "VerifyToken (d_jwt D) (d_tokens D) t tok \<noteq> Panic" for t
    using jwt_parse_not_Panic [OF j] by (auto simp: VerifyToken_def split: outcome.splits)
  show "serve D P r s = (writeError 401 ''invalid token'', s)"
    if "bearerToken r = Some tok \<and> \<not> is_Ok (VerifyToken (d_jwt D) (d_tokens D) (rq_clock r 0) tok)"
    using that np by (auto simp: sv requireAuth_def split: outcome.splits)
  fix now uid
  assume a: "clock_ok (d_tokens D) now \<and> ascii uid \<and> uid \<noteq> '''' \<and> bearerToken r = Some tok
    \<and> Issue (d_jwt D) (d_tokens D) now uid = Ok tok"
  then obtain tok' where "Issue (d_jwt D) (d_tokens D) now uid = Ok tok'"
    and v: "\<forall>now'. VerifyToken (d_jwt D) (d_tokens D) now' tok' =
      (if uid \<noteq> '''' \<and> now' < NewNumericDate (now + tm_ttl (d_tokens D)) then Ok uid else Fail ErrInvalidToken)"
    using issued_token_verifies [OF j] by blast
  with a show "serve D P r s = (if rq_clock r 0 < NewNumericDate (now + tm_ttl (d_tokens D))
      then handler_of D P e (Some uid) r s else (writeError 401 ''invalid token'', s))"
    by (simp add: sv requireAuth_def)
qed

definition friends_request :: "string \<Rightarrow> time \<Rightarrow> Request" where
  "friends_request auth t = \<lparr>rq_method = ''GET'', rq_path = ''/api/friends'', rq_Authorization = auth, rq_body = '''',
     rq_clock = (\<lambda>i. t), rq_conn = 0\<rparr>"

lemma friends_route [simp]: "route (rq_method (friends_request auth t)) (rq_path (friends_request auth t)) = Some E_Friends"
  by (simp add: friends_request_def route_def GET_def)

lemma friends_auth: "needs_auth E_Friends"
  by simp

theorem protected_routes_witness:
  "serve ref_deps ref_platform (friends_request '''' 5) ref_api = (writeError 401 ''missing bearer token'', ref_api)
    \<and> (\<exists>tok. serve ref_deps ref_platform (friends_request (''Bearer '' @ tok) 5) ref_api =
         ListFriends ref_deps (Some ''u'') (friends_request (''Bearer '' @ tok) 5) ref_api)"
proof -
  have ck: "clock_ok ref_tokens 5" "ascii ''u''"
    by (simp_all add: clock_ok_def ref_tokens_def Hour_def Minute_def Second_def ascii_def)
  have j: "jwt_ok ref_jwt" by (rule ref_jwt_ok)
  obtain tok where t: "Issue ref_jwt ref_tokens 5 ''u'' = Ok tok"
    and v: "\<forall>now'. VerifyToken ref_jwt ref_tokens now' tok =
      (if ''u'' \<noteq> '''' \<and> now' < NewNumericDate (5 + tm_ttl ref_tokens) then Ok ''u'' else Fail ErrInvalidToken)"
    using issued_token_verifies [OF j ck(2,1)] by blast
  let ?r = "friends_request (''Bearer '' @ tok) 5"
  have e: "(5::int) < NewNumericDate (5 + tm_ttl ref_tokens)"
    by (simp add: NewNumericDate_def ref_tokens_def Hour_def Minute_def Second_def)
  have "VerifyToken ref_jwt ref_tokens 5 tok = Ok ''u''" using v e by simp
  then have tok: "tok \<noteq> []" by (auto simp: VerifyToken_def ref_jwt_def ref_parse_def)
  have b: "bearerToken ?r = Some tok" by (rule bearerToken_prefix [OF tok]) (simp add: friends_request_def)
  have d: "d_jwt ref_deps = ref_jwt" "d_tokens ref_deps = ref_tokens" by (simp_all add: ref_deps_def)
  have "serve ref_deps ref_platform ?r ref_api =
      (if rq_clock ?r 0 < NewNumericDate (5 + tm_ttl (d_tokens ref_deps))
       then handler_of ref_deps ref_platform E_Friends (Some ''u'') ?r ref_api
       else (writeError 401 ''invalid token'', ref_api))"
    using protected_routes [OF ref_deps_ok friends_route friends_auth, of "''Bearer '' @ tok" 5 ref_platform ref_api,
        THEN conjunct2, THEN conjunct2, rule_format, of 5 "''u''" tok] ck t b d by simp
  then have "serve ref_deps ref_platform ?r ref_api = ListFriends ref_deps (Some ''u'') ?r ref_api"
    using e by (simp add: d friends_request_def)
  moreover have "bearerToken (friends_request '''' 5) = None" by (simp add: friends_request_def bearerToken_def bearer_prefix_def)
  then have "serve ref_deps ref_platform (friends_request '''' 5) ref_api = (writeError 401 ''missing bearer token'', ref_api)"
    using protected_routes [OF ref_deps_ok friends_route, of "''''" 5 ref_platform ref_api] by simp
  ultimately show ?thesis by blast
qed

section \<open>Stored and cached secrets\<close>

text \<open>
  In every run, a stored refresh token opens only in the shape it was meant to: it is a
  valid AES-GCM ciphertext under a 32-byte key that derives, with the owner's salt, from a
  password that logs the owner of the account in; and the key a link was started with.
\<close>

theorem stored_tokens_belong_to_owner:
  assumes "deps_ok D" "api_reachable D P s" "a \<in> set (steam_accounts (s_db s))" "r_enc_refresh_token a = Some ct"
  shows "\<exists>u \<in> set (users (s_db s)). u_ID u = r_user_id a \<and> (\<exists>pw key non tok.
    Verify (d_crypto D) (d_hasher D) pw (u_PasswordHash u) = Ok True \<and> DeriveKey (d_crypto D) pw (u_KDFSalt u) = Ok key
    \<and> length key = 32 \<and> r_enc_refresh_nonce a = Some non \<and> Decrypt (d_crypto D) key ct non = Ok tok
    \<and> (\<exists>l \<in> set (s_started s). ls_accountID l = r_id a \<and> ls_key l = key))"
  using api_inv_reachable [OF assms(1,2)] assms(3,4) unfolding api_inv_def cred_ok_def user_key_def by blast

text \<open>
  In every run, a key in the cache is filed under an existing user and derives, with that
  user's salt, from a password that logs this user in: no user is ever handed another's key.
\<close>

theorem cached_keys_belong_to_user:
  assumes "deps_ok D" "api_reachable D P s" "Get now uid (s_keys s) = (Some key, ks)"
  shows "\<exists>u \<in> set (users (s_db s)). u_ID u = uid \<and> (\<exists>pw.
    Verify (d_crypto D) (d_hasher D) pw (u_PasswordHash u) = Ok True \<and> DeriveKey (d_crypto D) pw (u_KDFSalt u) = Ok key)"
  by (rule Get_user_key [OF api_inv_reachable [OF assms(1,2)] assms(3)]) (auto simp: user_key_def)

section \<open>Register and login on a working engine\<close>

definition rand_live :: "rng \<Rightarrow> bool" where
  "rand_live r \<longleftrightarrow> rand_ok r \<and> (\<forall>i n. draw r i n \<noteq> None)"

lemma rand_live_Read:
  assumes "rand_live r"
  obtains b where "rand_Read n r = (Some b, r\<lparr>reads := Suc (reads r)\<rparr>)" "length b = n"
  using assms unfolding rand_live_def rand_ok_def rand_Read_def by fastforce

lemma rand_live_next [simp]: "rand_live (r\<lparr>reads := k\<rparr>) = rand_live r"
  by (simp add: rand_live_def rand_ok_def)

lemma Create_user_healthy:
  "healthy pg \<Longrightarrow> UserStore_Create pg now n h s d =
    (if users_of d n = None then
       (Ok (gen_uuid pg (uuids_used d)), d\<lparr>queries := Suc (queries d), uuids_used := Suc (uuids_used d),
          users := users d @ [\<lparr>u_ID = gen_uuid pg (uuids_used d), u_Username = n, u_PasswordHash = h, u_KDFSalt = s,
            u_CreatedAt = now\<rparr>]\<rparr>)
     else (Fail ErrUsernameTaken, d\<lparr>queries := Suc (queries d)\<rparr>))"
  by (simp add: UserStore_Create_def insert_user_def healthy_def Let_def users_of_def find_None_list_ex)

lemma GetByUsername_healthy:
  "healthy pg \<Longrightarrow> UserStore_GetByUsername pg n d =
    ((case users_of d n of None \<Rightarrow> Fail ErrUserNotFound | Some u \<Rightarrow> Ok u), d\<lparr>queries := Suc (queries d)\<rparr>)"
  by (simp add: UserStore_GetByUsername_def select_user_def healthy_def Let_def users_of_def split: option.splits)

lemma Issue_Ok:
  assumes "jwt_ok L"
  shows "\<exists>tok. Issue L tm now uid = Ok tok"
proof -
  let ?c = "\<lparr>Subject = uid, IssuedAt = Some (NewNumericDate now), ExpiresAt = Some (NewNumericDate (now + tm_ttl tm))\<rparr>"
  have "is_Ok (jwt_sign L ''HS256'' ?c (tm_secret tm))" using assms unfolding jwt_ok_def by blast
  then obtain t where "jwt_sign L ''HS256'' ?c (tm_secret tm) = Ok t"
    by (cases "jwt_sign L ''HS256'' ?c (tm_secret tm)") auto
  then show ?thesis by (simp add: Issue_def signingMethod_def)
qed

definition user_made :: "Deps \<Rightarrow> string \<Rightarrow> string \<Rightarrow> User \<Rightarrow> bytes \<Rightarrow> bool" where
  "user_made D name pw u key \<longleftrightarrow> u_Username u = name \<and> length (u_KDFSalt u) = 16 \<and> length key = 32
     \<and> Verify (d_crypto D) (d_hasher D) pw (u_PasswordHash u) = Ok True \<and> DeriveKey (d_crypto D) pw (u_KDFSalt u) = Ok key"

lemma Register_Ok:
  assumes D: "deps_ok D" "healthy (d_pg D)" and s: "api_inv D s" "rand_live (s_rand s)"
    and req: "decodeJSON RegisterRequest r = Some req" "req ''username'' \<noteq> ''''" "req ''password'' \<noteq> ''''"
    and new: "users_of (s_db s) (req ''username'') = None"
  obtains u key tok s' where "Register D r s = (writeJSON 201 (LoginResponse tok), s')"
    "Issue (d_jwt D) (d_tokens D) (rq_clock r 2) (u_ID u) = Ok tok"
    "user_made D (req ''username'') (req ''password'') u key"
    "users_of (s_db s') = (users_of (s_db s))(req ''username'' \<mapsto> u)" "u_ID u = gen_uuid (d_pg D) (uuids_used (s_db s))"
    "s_keys s' = Put (rq_clock r 1) (u_ID u) key (s_keys s)" "rand_live (s_rand s')"
    "account_of (s_db s') = account_of (s_db s)" "u \<in> set (users (s_db s'))"
    "s_hub s' = s_hub s" "s_started s' = s_started s" "s_linkReqs s' = s_linkReqs s" "s_asked s' = s_asked s"
proof -
  let ?n = "req ''username''" and ?pw = "req ''password''" and ?C = "d_crypto D" and ?h = "d_hasher D"
  have a: "argon2_ok ?C" "params_ok (hparams ?h)" "jwt_ok (d_jwt D)" using D(1) by (simp_all add: deps_ok_def)
  have ro: "rand_ok (s_rand s)" using s(2) by (simp add: rand_live_def)
  obtain b where "rand_Read (unat (pSaltLen (hparams ?h))) (s_rand s) = (Some b, (s_rand s)\<lparr>reads := Suc (reads (s_rand s))\<rparr>)"
    by (rule rand_live_Read [OF s(2)])
  then have "draw (s_rand s) (reads (s_rand s)) (unat (pSaltLen (hparams ?h))) = Some b" by (simp add: rand_Read_def)
  from Hash_succeeds [OF ro a(1,2) this, of ?pw] obtain hash r1 where
    h: "Hash ?C ?h ?pw (s_rand s) = (Ok hash, r1)" and r1: "rand_live r1" using s(2) by auto
  obtain salt where n: "rand_Read KDFSaltLen r1 = (Some salt, r1\<lparr>reads := Suc (reads r1)\<rparr>)" "length salt = KDFSaltLen"
    by (rule rand_live_Read [OF r1])
  obtain r2 where ns: "NewSalt KDFSaltLen r1 = (Ok salt, r2)" and r2: "rand_live r2"
    using n(1) r1 by (simp add: NewSalt_def)
  obtain key where k: "DeriveKey ?C ?pw salt = Ok key" "length key = 32" by (rule DeriveKey_Ok [OF a(1)])
  define u where "u = \<lparr>u_ID = gen_uuid (d_pg D) (uuids_used (s_db s)), u_Username = ?n, u_PasswordHash = hash, u_KDFSalt = salt,
    u_CreatedAt = rq_clock r 0\<rparr>"
  obtain d' where c: "UserStore_Create (d_pg D) (rq_clock r 0) ?n hash salt (s_db s) = (Ok (u_ID u), d')"
    and d': "d' = (s_db s)\<lparr>queries := Suc (queries (s_db s)), uuids_used := Suc (uuids_used (s_db s)), users := users (s_db s) @ [u]\<rparr>"
    using Create_user_healthy [OF D(2), of "rq_clock r 0" ?n hash salt "s_db s"] new by (simp add: u_def)
  obtain tok where tok: "Issue (d_jwt D) (d_tokens D) (rq_clock r 2) (u_ID u) = Ok tok" using Issue_Ok [OF a(3)] by blast
  have db: "db_inv (d_pg D) (s_db s)" using s(1) by (simp add: api_inv_def)
  have "users_of d' = (users_of (s_db s))(?n \<mapsto> u)"
    using Create_Ok_table [OF db c] by (simp add: u_def)
  moreover have "user_made D ?n ?pw u key"
    using k n(2) Hash_verifies(1) [OF D(1) ro h] by (simp add: user_made_def u_def KDFSaltLen_def)
  moreover have "account_of d' = account_of (s_db s)" by (rule ext) (simp add: account_of_def d')
  moreover have "Register D r s = (writeJSON 201 (LoginResponse tok),
      s\<lparr>s_rand := r2, s_db := d', s_keys := Put (rq_clock r 1) (u_ID u) key (s_keys s)\<rparr>)"
    using req h ns c k tok by (simp add: Register_def cacheKeyAndIssue_def issueToken_def)
  ultimately show ?thesis
    using r2 tok by (intro that [of tok "s\<lparr>s_rand := r2, s_db := d', s_keys := Put (rq_clock r 1) (u_ID u) key (s_keys s)\<rparr>" u key])
      (simp_all add: d' u_def)
qed

lemma Login_Ok:
  assumes D: "deps_ok D" "healthy (d_pg D)"
    and req: "decodeJSON LoginRequest r = Some req" "users_of (s_db s) (req ''username'') = Some u"
    and u: "user_made D (req ''username'') (req ''password'') u key"
  obtains tok where "Login D r s = (writeJSON 200 (LoginResponse tok),
      s\<lparr>s_db := (s_db s)\<lparr>queries := Suc (queries (s_db s))\<rparr>, s_keys := Put (rq_clock r 1) (u_ID u) key (s_keys s)\<rparr>)"
    "Issue (d_jwt D) (d_tokens D) (rq_clock r 2) (u_ID u) = Ok tok"
proof -
  have "jwt_ok (d_jwt D)" using D(1) by (simp add: deps_ok_def)
  then obtain tok where "Issue (d_jwt D) (d_tokens D) (rq_clock r 2) (u_ID u) = Ok tok" using Issue_Ok by blast
  then show ?thesis
    using req u that [of tok] GetByUsername_healthy [OF D(2)]
    by (simp add: Login_def cacheKeyAndIssue_def issueToken_def user_made_def)
qed

lemma Register_taken:
  assumes D: "deps_ok D" "healthy (d_pg D)"
    and req: "decodeJSON RegisterRequest r = Some req" "req ''username'' \<noteq> ''''" "req ''password'' \<noteq> ''''"
    and s: "rand_live (s_rand s)" "users_of (s_db s) (req ''username'') \<noteq> None"
  obtains s' where "Register D r s = (writeError 409 ''username already taken'', s')" "users_of (s_db s') = users_of (s_db s)"
proof -
  let ?pw = "req ''password''" and ?C = "d_crypto D" and ?h = "d_hasher D"
  have a: "argon2_ok ?C" "params_ok (hparams ?h)" using D(1) by (simp_all add: deps_ok_def)
  have ro: "rand_ok (s_rand s)" using s(1) by (simp add: rand_live_def)
  obtain b where "rand_Read (unat (pSaltLen (hparams ?h))) (s_rand s) = (Some b, (s_rand s)\<lparr>reads := Suc (reads (s_rand s))\<rparr>)"
    by (rule rand_live_Read [OF s(1)])
  then have "draw (s_rand s) (reads (s_rand s)) (unat (pSaltLen (hparams ?h))) = Some b" by (simp add: rand_Read_def)
  from Hash_succeeds [OF ro a this, of ?pw] obtain hash r1 where
    h: "Hash ?C ?h ?pw (s_rand s) = (Ok hash, r1)" and r1: "rand_live r1" using s(1) by auto
  obtain salt where "rand_Read KDFSaltLen r1 = (Some salt, r1\<lparr>reads := Suc (reads r1)\<rparr>)"
    by (rule rand_live_Read [OF r1])
  then obtain r2 where ns: "NewSalt KDFSaltLen r1 = (Ok salt, r2)" by (simp add: NewSalt_def)
  have c: "UserStore_Create (d_pg D) (rq_clock r 0) (req ''username'') hash salt (s_db s) =
      (Fail ErrUsernameTaken, (s_db s)\<lparr>queries := Suc (queries (s_db s))\<rparr>)"
    using Create_user_healthy [OF D(2), of "rq_clock r 0" "req ''username''" hash salt "s_db s"] s(2) by simp
  have "errors_Is ErrUsernameTaken ErrUsernameTaken" by (simp add: ErrUsernameTaken_def)
  with req h ns c show ?thesis
    by (intro that [of "s\<lparr>s_rand := r2, s_db := (s_db s)\<lparr>queries := Suc (queries (s_db s))\<rparr>\<rparr>"])
      (simp_all add: Register_def)
qed


definition post :: "string \<Rightarrow> string \<Rightarrow> json \<Rightarrow> Request" where
  "post path auth j = \<lparr>rq_method = POST, rq_path = path, rq_Authorization = auth, rq_body = json_encode j,
     rq_clock = (\<lambda>i. 5), rq_conn = 0\<rparr>"

lemma decode_post: "json_plain maxNestingDepth j \<Longrightarrow> decodeJSON tags (post path auth j) = decode_struct tags j"
  using p_value_encode [of maxNestingDepth j "[]"] by (simp add: decodeJSON_def post_def Decode_value_def)

definition ann_body :: json where
  "ann_body = JObj [(''username'', JStr ''ann''), (''password'', JStr ''pw'')]"

lemma ann_plain: "json_plain maxNestingDepth ann_body"
proof -
  have "utf8_ok ''username''" "utf8_ok ''password''" "utf8_ok ''ann''" "utf8_ok ''pw''"
    by (rule ascii_utf8_ok, simp add: code_def)+
  then show ?thesis by (simp add: ann_body_def maxNestingDepth_def)
qed

definition ann_req :: decoded where
  "ann_req = (\<lambda>f. [])(''username'' := ''ann'', ''password'' := ''pw'')"

lemma ann_decoded:
  "decodeJSON RegisterRequest (post p au ann_body) = Some ann_req" "decodeJSON LoginRequest (post p au ann_body) = Some ann_req"
  by (simp_all add: decode_post [OF ann_plain])
    (simp_all add: ann_body_def RegisterRequest_def LoginRequest_def field_for_def ann_req_def)

lemma ref_rand_live [simp]: "rand_live ref_rng"
  using ref_rand_ok by (simp add: rand_live_def ref_rng_def)

lemma ref_deps_healthy [simp]: "healthy (d_pg ref_deps)"
  by (simp add: ref_deps_def)




end
