(* ===== verification/Api_Links.thy ===== *)
theory Api_Links
  imports Api_Properties
begin

text \<open>
  The life of a link over the HTTP API and the worker callbacks: started by a request, ended by
  \<open>OnLinked\<close> or \<open>OnError\<close>, used by the friends list; and what the endpoints never do.
\<close>

section \<open>A link on a working engine\<close>

text \<open>The key a user has in the cache at a time.\<close>

definition has_key :: "Api \<Rightarrow> time \<Rightarrow> string \<Rightarrow> bytes \<Rightarrow> bool" where
  "has_key s now uid key \<longleftrightarrow> live_key (s_keys s) now uid = Some key"

lemma Get_has_key: "has_key s now uid key \<Longrightarrow> \<exists>ks. Get now uid (s_keys s) = (Some key, ks)"
  using fst_Get [of now uid "s_keys s"] unfolding has_key_def by (metis prod.collapse)

lemma Get_live_keeps: "Get now uid ks = (Some key, ks') \<Longrightarrow> ks' = ks"
  by (auto simp: Get_def split: option.splits if_splits)

lemma key_owner_canonical:
  assumes "deps_ok D" "api_inv D s" "Get now uid (s_keys s) = (Some key, ks)"
  shows "uuid_in (d_pg D) uid = Some uid" "uid \<in> u_ID ` set (users (s_db s))" "length key = 32"
proof -
  obtain u where u: "u \<in> set (users (s_db s))" "u_ID u = uid" "user_key D u key"
    by (rule Get_user_key [OF assms(2,3)])
  then have "used_uuid (d_pg D) (s_db s) uid" using assms(2) by (auto simp: api_inv_def db_inv_def)
  then show "uuid_in (d_pg D) uid = Some uid"
    by (rule used_uuid_canonical [rotated]) (use assms(1) in \<open>simp add: deps_ok_def\<close>)
  show "uid \<in> u_ID ` set (users (s_db s))" using u by auto
  show "length key = 32" using u(3) by (simp add: user_key_def)
qed

lemma AddSteamAccount_Ok:
  assumes D: "deps_ok D" "healthy (d_pg D)" "d_links D" and s: "api_inv D s"
    and k: "Get (rq_clock r 1) uid (s_keys s) = (Some key, ks)" and new: "account_of (s_db s) uid = None"
    and req: "decodeJSON SteamAccountRequest r = Some req" "(req ''steam_username'' = '''') = (req ''steam_password'' = '''')"
  obtains i q s' where "AddSteamAccount D (Some uid) r s = (writeJSON 201 (SteamAccountDTO_json \<lparr>dto_ID = i, dto_SteamID = '''',
      dto_SteamUsername = req ''steam_username'', dto_CreatedAt = ''''\<rparr>), s')"
    "s_started s' = s_started s @ [\<lparr>ls_reqID = q, ls_username = req ''steam_username'', ls_password = req ''steam_password'',
      ls_accountID = i, ls_key = key\<rparr>]"
    "account_of (s_db s') = (account_of (s_db s))(uid \<mapsto> fresh_row (rq_clock r 2) uid (req ''steam_username'') i)"
    "uuid_in (d_pg D) i = Some i" "s_linkReqs s' = (s_linkReqs s)(i \<mapsto> q)" "s_keys s' = s_keys s" "s_hub s' = s_hub s"
    "draw (s_rand s') = draw (s_rand s)" "s_asked s' = s_asked s"
proof -
  have db: "db_inv (d_pg D) (s_db s)" using s by (simp add: api_inv_def)
  note own = key_owner_canonical [OF D(1) s k]
  obtain i d1 where c: "SteamAccountStore_Create (d_pg D) (rq_clock r 2) uid (req ''steam_username'') (s_db s) = (Ok i, d1)"
    "uuid_in (d_pg D) i = Some i" "account_of d1 = (account_of (s_db s))(uid \<mapsto> fresh_row (rq_clock r 2) uid (req ''steam_username'') i)"
    by (rule create_on_healthy [OF db D(2) own(1,2) new])
  obtain q r' where n: "newLinkID (s_rand s) = (q, r')" by (cases "newLinkID (s_rand s)")
  then have "draw r' = draw (s_rand s)" by (auto simp: newLinkID_def rand_Read_def split: option.splits)
  then show ?thesis
    using c n k Get_live_keeps [OF k] req D(3)
    by (intro that [of i "startAccountLink D i (req ''steam_username'') (req ''steam_password'') key (s\<lparr>s_keys := ks, s_db := d1\<rparr>)" q])
      (simp_all add: AddSteamAccount_def startAccountLink_def setLinkReq_def Let_def)
qed

lemma OnLinked_Ok:
  assumes D: "deps_ok D" "healthy (d_pg D)" and s: "api_inv D s" "rand_live (s_rand s)" and l: "length (ls_key l) = 32"
    and a: "account_of (s_db s) u = Some a" "uuid_in (d_pg D) (ls_accountID l) = Some (r_id a)" and tok: "length tok \<le> gcm_max"
  obtains ct non s' where "link_callback D l (OnLinked sid tok) s = Some s'"
    "account_of (s_db s') = (account_of (s_db s))(u \<mapsto> saved_row sid '''' ct non (expiryFromJWT tok) a)"
    "Decrypt (d_crypto D) (ls_key l) ct non = Ok (bytes_of_string tok)"
    "s_hub s' = Broadcast (AccountLinkedEvent (ls_accountID l) sid) (s_hub s)"
    "s_linkReqs s' = (s_linkReqs s)(ls_accountID l := None)" "s_keys s' = s_keys s" "s_asked s' = s_asked s"
    "s_started s' = s_started s" "draw (s_rand s') = draw (s_rand s)"
proof -
  have gcm: "gcm_ok (d_crypto D)" and ro: "rand_ok (s_rand s)" using D(1) s(2) by (simp_all add: deps_ok_def rand_live_def)
  have db: "db_inv (d_pg D) (s_db s)" using s(1) by (simp add: api_inv_def)
  obtain non where n: "rand_Read NonceSize (s_rand s) = (Some non, (s_rand s)\<lparr>reads := Suc (reads (s_rand s))\<rparr>)"
    by (rule rand_live_Read [OF s(2)])
  define ct where "ct = gcm_Seal (d_crypto D) (ls_key l) non (bytes_of_string tok)"
  have e: "Encrypt (d_crypto D) (ls_key l) (bytes_of_string tok) (s_rand s) = (Ok (ct, non), (s_rand s)\<lparr>reads := Suc (reads (s_rand s))\<rparr>)"
    using n l tok by (simp add: Encrypt_Ok ct_def bytes_of_string_def)
  obtain d' where d: "SaveRefreshToken (d_pg D) (ls_accountID l) sid '''' ct non (expiryFromJWT tok) (s_db s) = (Ok (), d')"
    "account_of d' = (account_of (s_db s))(u \<mapsto> saved_row sid '''' ct non (expiryFromJWT tok) a)"
    by (rule save_on_healthy [OF db D(2) a])
  show ?thesis
    using e d Encrypt_opens [OF gcm ro e]
    by (intro that [of "push (AccountLinkedEvent (ls_accountID l) sid)
        ((clearLinkReq (ls_accountID l) s)\<lparr>s_rand := (s_rand s)\<lparr>reads := Suc (reads (s_rand s))\<rparr>, s_db := d'\<rparr>)" ct non])
      (simp_all add: link_callback_def persistRefreshToken_def push_def clearLinkReq_def Let_def)
qed

lemma ListFriends_Ok:
  assumes D: "healthy (d_pg D)" and uid: "uuid_in (d_pg D) uid = Some uid" and a: "account_of (s_db s) uid = Some a"
    and ct: "r_enc_refresh_token a = Some ct" "ct \<noteq> []" "r_enc_refresh_nonce a = Some non"
    and k: "Get (rq_clock r 1) uid (s_keys s) = (Some key, ks)" and dec: "Decrypt (d_crypto D) key ct non = Ok (bytes_of_string tok)"
    and fl: "d_friends D (length (s_asked s)) tok = Ok fl"
  shows "fst (ListFriends D (Some uid) r s) = writeJSON 200 (JArr (map FriendDTO_json (d_sort D (map toFriendDTO (fl_Friends fl)))))"
    "s_asked (snd (ListFriends D (Some uid) r s)) = s_asked s @ [tok]"
  using get_on_healthy [OF D uid a] ct k dec fl
  by (simp_all add: ListFriends_def Let_def backfill_def)


text \<open>A run of the reference server in which ann has registered.\<close>

lemma register_route: "serve D P (post ''/api/auth/register'' au j) s = Register D (post ''/api/auth/register'' au j) s"
  by (simp add: serve_def post_def route_def route_auth_def)

lemma post_clock [simp]: "rq_clock (post p au j) i = 5"
  by (simp add: post_def)

text \<open>A token of ann's that lets her in at second 5.\<close>

definition ann_token :: "string \<Rightarrow> bool" where
  "ann_token tok \<longleftrightarrow> tok \<noteq> [] \<and> VerifyToken (d_jwt ref_deps) (d_tokens ref_deps) 5 tok = Ok ''u''"

lemma ann_token_issued:
  assumes "Issue (d_jwt ref_deps) (d_tokens ref_deps) 5 ''u'' = Ok tok"
  shows "ann_token tok"
proof -
  have ck: "clock_ok (d_tokens ref_deps) 5" "ascii ''u''" "jwt_ok (d_jwt ref_deps)"
    by (simp_all add: clock_ok_def ref_deps_def ref_tokens_def Hour_def Minute_def Second_def ascii_def ref_jwt_ok)
  obtain tok' where "Issue (d_jwt ref_deps) (d_tokens ref_deps) 5 ''u'' = Ok tok'"
    "\<forall>now'. VerifyToken (d_jwt ref_deps) (d_tokens ref_deps) now' tok' =
      (if ''u'' \<noteq> '''' \<and> now' < NewNumericDate (5 + tm_ttl (d_tokens ref_deps)) then Ok ''u'' else Fail ErrInvalidToken)"
    using issued_token_verifies [OF ck(3,2,1)] by blast
  moreover have "(5::int) < NewNumericDate (5 + tm_ttl (d_tokens ref_deps))"
    by (simp add: NewNumericDate_def ref_deps_def ref_tokens_def Hour_def Minute_def Second_def)
  ultimately have v: "VerifyToken (d_jwt ref_deps) (d_tokens ref_deps) 5 tok = Ok ''u''" using assms by simp
  then have "tok \<noteq> []" by (auto simp: VerifyToken_def ref_deps_def ref_jwt_def ref_parse_def)
  with v show ?thesis by (simp add: ann_token_def)
qed

text \<open>With such a token, a request behind the middleware runs its handler for ann.\<close>

lemma ann_served:
  assumes "ann_token tok" "route POST p = Some e" "needs_auth e"
  shows "serve ref_deps P (post p (''Bearer '' @ tok) j) s = handler_of ref_deps P e (Some ''u'') (post p (''Bearer '' @ tok) j) s"
proof -
  let ?r = "post p (''Bearer '' @ tok) j"
  have "bearerToken ?r = Some tok" using assms(1) by (intro bearerToken_prefix) (simp_all add: ann_token_def post_def)
  moreover have "route (rq_method ?r) (rq_path ?r) = Some e" using assms(2) by (simp add: post_def)
  ultimately show ?thesis using assms(1,3) by (simp add: serve_def requireAuth_def ann_token_def)
qed

lemma keeps_submitted:
  "s_submitted (snd (Register D r s)) = s_submitted s" "s_submitted (snd (AddSteamAccount D ctx r s)) = s_submitted s"
  by (auto simp: Register_def cacheKeyAndIssue_def AddSteamAccount_def startAccountLink_def setLinkReq_def Let_def
      split: option.splits outcome.splits prod.splits)

lemma ann_registered:
  obtains s key tok where "serve ref_deps ref_platform (post ''/api/auth/register'' [] ann_body) ref_api = (writeJSON 201 (LoginResponse tok), s)"
    "api_reachable ref_deps ref_platform s" "rand_live (s_rand s)" "has_key s 5 ''u'' key" "account_of (s_db s) ''u'' = None"
    "s_asked s = []" "s_submitted s = []" "s_started s = []" "s_hub s = NewHub" "ann_token tok"
proof -
  have new: "rand_live (s_rand ref_api)" "users_of (s_db ref_api) (ann_req ''username'') = None"
    "ann_req ''username'' \<noteq> ''''" "ann_req ''password'' \<noteq> ''''" "uuids_used (s_db ref_api) = 0" "account_of (s_db ref_api) ''u'' = None"
    by (simp_all add: ref_api_def NewApiServer_def users_of_def empty_db_def ann_req_def account_of_def)
  let ?r = "post ''/api/auth/register'' [] ann_body"
  obtain u key tok s where r: "Register ref_deps ?r ref_api = (writeJSON 201 (LoginResponse tok), s)"
    "Issue (d_jwt ref_deps) (d_tokens ref_deps) (rq_clock ?r 2) (u_ID u) = Ok tok"
    "user_made ref_deps (ann_req ''username'') (ann_req ''password'') u key"
    "users_of (s_db s) = (users_of (s_db ref_api))(ann_req ''username'' \<mapsto> u)" "u_ID u = gen_uuid (d_pg ref_deps) (uuids_used (s_db ref_api))"
    "s_keys s = Put (rq_clock ?r 1) (u_ID u) key (s_keys ref_api)" "rand_live (s_rand s)"
    "account_of (s_db s) = account_of (s_db ref_api)" "u \<in> set (users (s_db s))"
    "s_hub s = s_hub ref_api" "s_started s = s_started ref_api" "s_linkReqs s = s_linkReqs ref_api" "s_asked s = s_asked ref_api"
    by (rule Register_Ok [OF ref_deps_ok ref_deps_healthy api_inv_reachable [OF ref_deps_ok ref_api_reachable] new(1)
        ann_decoded(1) [of "''/api/auth/register''" "[]"] new(3,4,2)])
  note s = r(1,5-8,10,11,13)
  have sv: "serve ref_deps ref_platform ?r ref_api = (writeJSON 201 (LoginResponse tok), s)" by (simp add: register_route s(1))
  then have "api_step ref_deps ref_platform ref_api s" by (rule http)
  with ref_api_reachable have "api_reachable ref_deps ref_platform s" by (rule api_next)
  moreover have "u_ID u = ''u''" by (simp add: s(2) new(5) ref_deps_def ref_pg_def)
  then have "has_key s 5 ''u'' key"
    by (simp add: has_key_def s(3) live_key_Put) (simp add: ref_api_def NewApiServer_def Hour_def Minute_def Second_def)
  moreover have "ann_token tok" using r(2) \<open>u_ID u = ''u''\<close> by (intro ann_token_issued) simp
  moreover have "s_submitted s = []"
    using keeps_submitted(1) [of ref_deps ?r ref_api] by (simp add: s(1)) (simp add: ref_api_def NewApiServer_def)
  ultimately show ?thesis using that [OF sv] s new(6) by (simp add: ref_api_def NewApiServer_def)
qed

definition qr_body :: json where
  "qr_body = JObj []"

lemma qr_decoded: "decodeJSON SteamAccountRequest (post p au qr_body) = Some (\<lambda>f. [])"
  by (subst decode_post) (simp_all add: qr_body_def maxNestingDepth_def)

text \<open>The run goes on: ann has linked an account, whose token is stored.\<close>

lemma ann_linking:
  obtains s tok s1 l where "serve ref_deps ref_platform (post ''/api/auth/register'' [] ann_body) ref_api = (writeJSON 201 (LoginResponse tok), s)"
    "s_asked s = []" "s_submitted s = []" "ann_token tok"
    "fst (serve ref_deps ref_platform (post ''/api/steam/accounts'' (''Bearer '' @ tok) qr_body) s)
      = writeJSON 201 (SteamAccountDTO_json \<lparr>dto_ID = ls_accountID l, dto_SteamID = [], dto_SteamUsername = [], dto_CreatedAt = []\<rparr>)"
    "snd (serve ref_deps ref_platform (post ''/api/steam/accounts'' (''Bearer '' @ tok) qr_body) s) = s1"
    "s_asked s1 = []" "s_submitted s1 = []" "s_started s1 = [l]" "api_reachable ref_deps ref_platform s1" "rand_live (s_rand s1)"
    "length (ls_key l) = 32" "has_key s1 5 ''u'' (ls_key l)"
    "account_of (s_db s1) ''u'' = Some (fresh_row 5 ''u'' [] (ls_accountID l))" "uuid_in (d_pg ref_deps) (ls_accountID l) = Some (ls_accountID l)"
proof -
  obtain s key tok where s: "serve ref_deps ref_platform (post ''/api/auth/register'' [] ann_body) ref_api = (writeJSON 201 (LoginResponse tok), s)"
    "api_reachable ref_deps ref_platform s" "rand_live (s_rand s)" "has_key s 5 ''u'' key" "account_of (s_db s) ''u'' = None"
    "s_asked s = []" "s_submitted s = []" "s_started s = []" "s_hub s = NewHub" "ann_token tok" by (rule ann_registered)
  define r where r: "r = post ''/api/steam/accounts'' (''Bearer '' @ tok) qr_body"
  have l: "d_links ref_deps" by (simp add: ref_deps_def)
  have inv: "api_inv ref_deps s" by (rule api_inv_reachable [OF ref_deps_ok s(2)])
  have ck: "rq_clock r i = 5" for i by (simp add: r)
  have qr: "decodeJSON SteamAccountRequest r = Some (\<lambda>f. [])" unfolding r by (rule qr_decoded)
  have "has_key s (rq_clock r 1) ''u'' key" using s(4) by (simp add: ck)
  then obtain ks where k: "Get (rq_clock r 1) ''u'' (s_keys s) = (Some key, ks)" using Get_has_key by blast
  note own = key_owner_canonical [OF ref_deps_ok inv k]
  obtain i q s1 where s1: "AddSteamAccount ref_deps (Some ''u'') r s = (writeJSON 201 (SteamAccountDTO_json \<lparr>dto_ID = i, dto_SteamID = [],
      dto_SteamUsername = [], dto_CreatedAt = []\<rparr>), s1)"
    "s_started s1 = s_started s @ [\<lparr>ls_reqID = q, ls_username = [], ls_password = [], ls_accountID = i, ls_key = key\<rparr>]"
    "account_of (s_db s1) = (account_of (s_db s))(''u'' \<mapsto> fresh_row (rq_clock r 2) ''u'' [] i)"
    "uuid_in (d_pg ref_deps) i = Some i" "s_linkReqs s1 = (s_linkReqs s)(i \<mapsto> q)" "s_keys s1 = s_keys s" "s_hub s1 = s_hub s"
    "draw (s_rand s1) = draw (s_rand s)" "s_asked s1 = s_asked s"
    by (rule AddSteamAccount_Ok [OF ref_deps_ok ref_deps_healthy l inv k s(5) qr refl])
  have "route POST ''/api/steam/accounts'' = Some E_AddSteamAccount"
    by (simp add: route_def route_accounts_def POST_def GET_def)
  then have sv: "serve ref_deps ref_platform r s = AddSteamAccount ref_deps (Some ''u'') r s"
    using ann_served [OF s(10), of "''/api/steam/accounts''" E_AddSteamAccount] unfolding r by simp
  have "api_step ref_deps ref_platform s s1" by (rule http [OF trans [OF sv s1(1)]])
  with s(2) have r1: "api_reachable ref_deps ref_platform s1" by (rule api_next)
  have live: "rand_live (s_rand s1)" using s(3) s1(8) by (simp add: rand_live_def rand_ok_def)
  have "s_submitted s1 = []" using keeps_submitted(2) [of ref_deps "Some ''u''" r s] by (simp add: s1(1) s(7))
  then show ?thesis
    using that [OF s(1,6,7,10), folded r, of "\<lparr>ls_reqID = q, ls_username = [], ls_password = [], ls_accountID = i, ls_key = key\<rparr>" s1]
      s s1 sv r1 live own(3) by (simp add: has_key_def ck)
qed

lemma ann_token_stored:
  assumes "api_reachable ref_deps ref_platform s1" "rand_live (s_rand s1)" "length (ls_key l) = 32"
    "account_of (s_db s1) ''u'' = Some (fresh_row 5 ''u'' [] (ls_accountID l))" "uuid_in (d_pg ref_deps) (ls_accountID l) = Some (ls_accountID l)"
  obtains s2 a ct non where "link_callback ref_deps l (OnLinked ''7'' ''tok'') s1 = Some s2" "a \<in> set (steam_accounts (s_db s2))"
    "r_user_id a = ''u''" "r_enc_refresh_token a = Some ct" "account_of (s_db s2) ''u'' = Some a" "r_enc_refresh_nonce a = Some non"
    "Decrypt (d_crypto ref_deps) (ls_key l) ct non = Ok (bytes_of_string ''tok'')" "s_keys s2 = s_keys s1"
    "s_started s2 = s_started s1" "rand_live (s_rand s2)"
proof -
  let ?a = "fresh_row 5 ''u'' [] (ls_accountID l)"
  have inv1: "api_inv ref_deps s1" by (rule api_inv_reachable [OF ref_deps_ok assms(1)])
  have a: "uuid_in (d_pg ref_deps) (ls_accountID l) = Some (r_id ?a)" using assms(5) by (simp add: fresh_row_def)
  have short: "length ''tok'' \<le> gcm_max" by (simp add: gcm_max_def)
  obtain ct non s2 where s2: "link_callback ref_deps l (OnLinked ''7'' ''tok'') s1 = Some s2"
    "account_of (s_db s2) = (account_of (s_db s1))(''u'' \<mapsto> saved_row ''7'' [] ct non (expiryFromJWT ''tok'') ?a)"
    "Decrypt (d_crypto ref_deps) (ls_key l) ct non = Ok (bytes_of_string ''tok'')" "s_keys s2 = s_keys s1"
    "s_started s2 = s_started s1" "draw (s_rand s2) = draw (s_rand s1)"
    using OnLinked_Ok [OF ref_deps_ok ref_deps_healthy inv1 assms(2,3,4) a short] by metis
  let ?b = "saved_row ''7'' [] ct non (expiryFromJWT ''tok'') ?a"
  have b: "account_of (s_db s2) ''u'' = Some ?b" by (simp add: s2(2))
  then have "?b \<in> set (steam_accounts (s_db s2))" using account_of_user by blast
  moreover have "rand_live (s_rand s2)" using assms(2) s2(6) by (simp add: rand_live_def rand_ok_def)
  ultimately show ?thesis using that [OF s2(1), of ?b ct non] b s2(3-5) by (simp add: saved_row_def fresh_row_def)
qed

lemma ann_linked:
  obtains s a ct where "api_reachable ref_deps ref_platform s" "a \<in> set (steam_accounts (s_db s))" "r_user_id a = ''u''"
    "r_enc_refresh_token a = Some ct"
proof -
  obtain s1 l where s1: "s_started s1 = [l]" "api_reachable ref_deps ref_platform s1" "rand_live (s_rand s1)" "length (ls_key l) = 32"
    "account_of (s_db s1) ''u'' = Some (fresh_row 5 ''u'' [] (ls_accountID l))" "uuid_in (d_pg ref_deps) (ls_accountID l) = Some (ls_accountID l)"
    using ann_linking by metis
  obtain s2 a ct where s2: "link_callback ref_deps l (OnLinked ''7'' ''tok'') s1 = Some s2" "a \<in> set (steam_accounts (s_db s2))"
    "r_user_id a = ''u''" "r_enc_refresh_token a = Some ct"
    using ann_token_stored [OF s1(2-6)] by metis
  have "l \<in> set (s_started s1)" by (simp add: s1(1))
  then have "api_step ref_deps ref_platform s1 s2" using s2(1) by (rule callback)
  with s1(2) have "api_reachable ref_deps ref_platform s2" by (rule api_next)
  then show ?thesis using that s2(2-4) by blast
qed

theorem stored_tokens_belong_to_owner_witness:
  "\<exists>(s :: Api) (a :: account_row) ct (u :: User). u \<in> set (users (s_db s)) \<and> u_ID u = r_user_id a \<and> r_enc_refresh_token a = Some ct \<and> (\<exists>pw key non tok.
    Verify (d_crypto ref_deps) (d_hasher ref_deps) pw (u_PasswordHash u) = Ok True
    \<and> r_enc_refresh_nonce a = Some non \<and> Decrypt (d_crypto ref_deps) key ct non = Ok tok)"
proof -
  obtain s a ct where s: "api_reachable ref_deps ref_platform s" "a \<in> set (steam_accounts (s_db s))"
    "r_enc_refresh_token a = Some ct" by (rule ann_linked)
  obtain u pw key non tok where "u \<in> set (users (s_db s))" "u_ID u = r_user_id a"
    "Verify (d_crypto ref_deps) (d_hasher ref_deps) pw (u_PasswordHash u) = Ok True"
    "r_enc_refresh_nonce a = Some non" "Decrypt (d_crypto ref_deps) key ct non = Ok tok"
    using stored_tokens_belong_to_owner [OF ref_deps_ok s] by blast
  with s(3) show ?thesis by blast
qed

theorem cached_keys_belong_to_user_witness:
  "\<exists>(s :: Api) key (u :: User). Get 5 ''u'' (s_keys s) = (Some key, s_keys s) \<and> u \<in> set (users (s_db s)) \<and> u_ID u = ''u''"
proof -
  obtain s key tok where s: "api_reachable ref_deps ref_platform s" "has_key s 5 ''u'' key"
    using ann_registered by metis
  then obtain ks where k: "Get 5 ''u'' (s_keys s) = (Some key, ks)" using Get_has_key by blast
  obtain u where "u \<in> set (users (s_db s))" "u_ID u = ''u''"
    using cached_keys_belong_to_user [OF ref_deps_ok s(1) k] by blast
  with k Get_live_keeps [OF k] show ?thesis by blast
qed


section \<open>Secrets that are not kept\<close>

text \<open>The state without the Steam passwords that started links carry to the worker.\<close>

definition forget_passwords :: "Api \<Rightarrow> Api" where
  "forget_passwords s = s\<lparr>s_started := map (\<lambda>l. l\<lparr>ls_password := ''''\<rparr>) (s_started s)\<rparr>"

lemma forget_startAccountLink:
  "forget_passwords (startAccountLink D i name pw key s) = forget_passwords (startAccountLink D i name pw' key s)"
  by (simp add: forget_passwords_def startAccountLink_def setLinkReq_def Let_def split: prod.splits)

text \<open>
  C31: the Steam password of a link is only passed on to the worker: for two requests that agree
  but in their non-empty passwords, the answers are the same, and so is the state after them,
  but for the password in the one started link.
\<close>

theorem steam_password_only_forwarded:
  assumes "decodeJSON SteamAccountRequest r = Some req" "decodeJSON SteamAccountRequest r' = Some (req(''steam_password'' := pw'))"
    and "req ''steam_password'' \<noteq> ''''" "pw' \<noteq> ''''" "rq_clock r' = rq_clock r"
  shows "fst (AddSteamAccount D ctx r s) = fst (AddSteamAccount D ctx r' s)
    \<and> forget_passwords (snd (AddSteamAccount D ctx r s)) = forget_passwords (snd (AddSteamAccount D ctx r' s))"
  using assms
  by (auto simp: AddSteamAccount_def forget_startAccountLink [of D _ _ "req ''steam_password''" _ _ pw']
      split: option.splits prod.splits outcome.splits)

definition credentials_body :: "string \<Rightarrow> json" where
  "credentials_body pw = JObj [(''steam_username'', JStr ''ann_dota''), (''steam_password'', JStr pw)]"

lemma credentials_decoded:
  assumes "list_all (\<lambda>c. code c < 128) pw"
  shows "decodeJSON SteamAccountRequest (post p au (credentials_body pw)) =
    Some ((\<lambda>f. [])(''steam_username'' := ''ann_dota'', ''steam_password'' := pw))"
proof -
  have "utf8_ok ''steam_username''" "utf8_ok ''steam_password''" "utf8_ok ''ann_dota''"
    by (rule ascii_utf8_ok, simp add: code_def)+
  then have "json_plain maxNestingDepth (credentials_body pw)"
    using ascii_utf8_ok [OF assms] by (simp add: credentials_body_def maxNestingDepth_def)
  from decode_post [OF this] show ?thesis
    by (simp add: credentials_body_def SteamAccountRequest_def field_for_def)
qed

theorem steam_password_only_forwarded_witness:
  "fst (AddSteamAccount ref_deps (Some ''u'') (post '''' '''' (credentials_body ''a'')) ref_api) =
   fst (AddSteamAccount ref_deps (Some ''u'') (post '''' '''' (credentials_body ''b'')) ref_api)"
proof -
  let ?req = "(\<lambda>f. [])(''steam_username'' := ''ann_dota'', ''steam_password'' := ''a'')"
  have "decodeJSON SteamAccountRequest (post '''' '''' (credentials_body ''a'')) = Some ?req"
    "decodeJSON SteamAccountRequest (post '''' '''' (credentials_body ''b'')) = Some (?req(''steam_password'' := ''b''))"
    by (subst credentials_decoded, simp_all add: code_def)+
  from steam_password_only_forwarded [OF this, of ref_deps "Some ''u''" ref_api] show ?thesis by (simp add: post_def)
qed

end
