(* ===== verification/Control_System.thy ===== *)
theory Control_System
  imports Control_Wiring Api_Links
begin

text \<open>
  The running control plane: the API server and the worker pool side by side, joined by the
  adapters of \<open>main\<close>. A request that needs the worker runs in two parts, before and after its
  call on the pool, and everything else of the system may happen in between; a started link is a
  goroutine whose callbacks run when the pool makes them.
\<close>

declare One_nat_def [simp del]

section \<open>Handlers that wait for the worker\<close>

datatype friends_phase = FriendsDone Response | AskWorker SteamAccount string

text \<open>\<open>ListFriends\<close> up to the call of the provider.\<close>

definition ListFriends_ask :: "Deps \<Rightarrow> string option \<Rightarrow> Request \<Rightarrow> Api \<Rightarrow> friends_phase \<times> Api" where
  "ListFriends_ask D ctx r s =
     (case ctx of
        None \<Rightarrow> (FriendsDone (writeError 401 ''unauthorized''), s)
      | Some uid \<Rightarrow>
          (case GetByUserID (d_pg D) uid (s_db s) of
             (Panic, db') \<Rightarrow> (FriendsDone recovered, s\<lparr>s_db := db'\<rparr>)
           | (Fail e, db') \<Rightarrow>
               (FriendsDone (if errors_Is e ErrSteamAccountNotFound then writeError 409 ''no steam account linked''
                else writeError 500 ''could not load steam account''), s\<lparr>s_db := db'\<rparr>)
           | (Ok account, db') \<Rightarrow>
               if sa_EncRefreshToken account = []
               then (FriendsDone (writeError 409 ''steam account link not complete''), s\<lparr>s_db := db'\<rparr>)
               else
                 (case Get (rq_clock r 1) uid (s_keys s) of
                    (None, ks) \<Rightarrow> (FriendsDone (writeError 401 ''session expired, please log in again''),
                      s\<lparr>s_db := db', s_keys := ks\<rparr>)
                  | (Some key, ks) \<Rightarrow>
                      (case Decrypt (d_crypto D) key (sa_EncRefreshToken account) (sa_EncRefreshNonce account) of
                         Panic \<Rightarrow> (FriendsDone recovered, s\<lparr>s_db := db', s_keys := ks\<rparr>)
                       | Fail e \<Rightarrow> (FriendsDone (writeError 500 ''could not decrypt credentials''), s\<lparr>s_db := db', s_keys := ks\<rparr>)
                       | Ok refreshToken \<Rightarrow> (AskWorker account (string_of_bytes refreshToken),
                           s\<lparr>s_db := db', s_keys := ks, s_asked := s_asked s @ [string_of_bytes refreshToken]\<rparr>)))))"

text \<open>The rest, with what the provider returned: the answer, and the write-back.\<close>

definition friends_response :: "Deps \<Rightarrow> FriendList outcome \<Rightarrow> Response" where
  "friends_response D res =
     (case res of
        Panic \<Rightarrow> recovered
      | Fail e \<Rightarrow> writeError 502 ''could not fetch friends''
      | Ok fl \<Rightarrow> writeJSON 200 (JArr (map FriendDTO_json (d_sort D (map toFriendDTO (fl_Friends fl))))))"

definition friends_writeback :: "Deps \<Rightarrow> SteamAccount \<Rightarrow> FriendList outcome \<Rightarrow> Api \<Rightarrow> Api" where
  "friends_writeback D account res s = (case res of Ok fl \<Rightarrow> backfill D account fl s | _ \<Rightarrow> s)"

lemma ListFriends_phases:
  "ListFriends D ctx r s =
     (case ListFriends_ask D ctx r s of
        (FriendsDone resp, s1) \<Rightarrow> (resp, s1)
      | (AskWorker a tok, s1) \<Rightarrow>
          (let res = d_friends D (length (s_asked s)) tok in (friends_response D res, friends_writeback D a res s1)))"
  by (simp add: ListFriends_def ListFriends_ask_def friends_response_def friends_writeback_def Let_def
      split: option.splits prod.splits outcome.splits)

datatype code_phase = CodeDone Response | SendCode string string

definition SubmitGuard_ask :: "Deps \<Rightarrow> string \<Rightarrow> string option \<Rightarrow> Request \<Rightarrow> Api \<Rightarrow> code_phase \<times> Api" where
  "SubmitGuard_ask D accID ctx r s =
     (case ctx of
        None \<Rightarrow> (CodeDone (writeError 401 ''unauthorized''), s)
      | Some uid \<Rightarrow>
          (case decodeJSON SteamGuardRequest r of
             None \<Rightarrow> (CodeDone (writeError 400 ''invalid request body''), s)
           | Some req \<Rightarrow>
               if req ''code'' = '''' then (CodeDone (writeError 400 ''code is required''), s)
               else
                 (case GetByUserID (d_pg D) uid (s_db s) of
                    (Panic, db') \<Rightarrow> (CodeDone recovered, s\<lparr>s_db := db'\<rparr>)
                  | (Fail e, db') \<Rightarrow>
                      (CodeDone (if errors_Is e ErrSteamAccountNotFound then writeError 404 ''steam account not found''
                       else writeError 500 ''could not load steam account''), s\<lparr>s_db := db'\<rparr>)
                  | (Ok account, db') \<Rightarrow>
                      if sa_ID account \<noteq> accID then (CodeDone (writeError 404 ''steam account not found''), s\<lparr>s_db := db'\<rparr>)
                      else
                        (case getLinkReq accID s of
                           None \<Rightarrow> (CodeDone (writeError 409 ''no steam guard prompt in progress''), s\<lparr>s_db := db'\<rparr>)
                         | Some reqID \<Rightarrow>
                             if \<not> d_links D then (CodeDone recovered, s\<lparr>s_db := db'\<rparr>)
                             else (SendCode reqID (req ''code''),
                               s\<lparr>s_db := db', s_submitted := s_submitted s @ [(reqID, req ''code'')]\<rparr>)))))"

definition code_response :: "unit outcome \<Rightarrow> Response" where
  "code_response res =
     (case res of Panic \<Rightarrow> recovered | Fail e \<Rightarrow> writeError 502 ''could not submit steam guard code'' | Ok u \<Rightarrow> writeHeader 204)"

lemma SubmitAccountSteamGuard_phases:
  "SubmitAccountSteamGuard D accID ctx r s =
     (case SubmitGuard_ask D accID ctx r s of
        (CodeDone resp, s1) \<Rightarrow> (resp, s1)
      | (SendCode reqID cd, s1) \<Rightarrow> (code_response (d_submit D (length (s_submitted s)) reqID cd), s1))"
  by (simp add: SubmitAccountSteamGuard_def SubmitGuard_ask_def code_response_def
      split: option.splits prod.splits outcome.splits)

section \<open>State and steps\<close>

text \<open>
  \<open>y_links\<close>: the calls of the goroutines of \<open>StartLink\<close>, each for one of the started links;
  \<open>y_ended\<close>: the terminal callbacks made; \<open>y_friends\<close>, \<open>y_codes\<close>: the calls of requests that wait;
  \<open>y_answers\<close>: the answers of those requests, with their call and user.
\<close>

record Sys =
  y_api :: Api
  y_pool :: Pool
  y_links :: "call_ref \<rightharpoonup> nat"
  y_ended :: "(nat \<times> LinkCallback) list"
  y_friends :: "call_ref \<rightharpoonup> string \<times> SteamAccount"
  y_codes :: "call_ref \<rightharpoonup> string"
  y_answers :: "(call_ref \<times> string \<times> Response) list"

definition sys_start :: "duration \<Rightarrow> rng \<Rightarrow> Sys" where
  "sys_start t r = \<lparr>y_api = NewApiServer empty_db (NewKeyCache t) r NewHub, y_pool = pool_start, y_links = Map.empty,
     y_ended = [], y_friends = Map.empty, y_codes = Map.empty, y_answers = []\<rparr>"

definition authenticated :: "Deps \<Rightarrow> Request \<Rightarrow> string \<Rightarrow> bool" where
  "authenticated D r uid \<longleftrightarrow>
     (\<exists>token. bearerToken r = Some token \<and> VerifyToken (d_jwt D) (d_tokens D) (rq_clock r 0) token = Ok uid)"

abbreviation link_at :: "Sys \<Rightarrow> nat \<Rightarrow> LinkStart" where
  "link_at y n \<equiv> s_started (y_api y) ! n"

inductive sys_step :: "Deps \<Rightarrow> Platform \<Rightarrow> Sys \<Rightarrow> Sys \<Rightarrow> bool" for D P where
  serve_alone: "serve D P r (y_api y) = (resp, s) \<Longrightarrow> s_asked s = s_asked (y_api y) \<Longrightarrow> s_submitted s = s_submitted (y_api y) \<Longrightarrow>
     sys_step D P y (y\<lparr>y_api := s\<rparr>)"
| ws_close: "sys_step D P y (y\<lparr>y_api := ws_closed c (y_api y)\<rparr>)"
| pool_alone: "pool_step (y_pool y) p \<Longrightarrow> dom (calls p) = dom (calls (y_pool y)) \<Longrightarrow> ran p = ran (y_pool y) \<Longrightarrow>
     sys_step D P y (y\<lparr>y_pool := p\<rparr>)"
| spawn: "n < length (s_started (y_api y)) \<Longrightarrow> (\<forall>d. y_links y d \<noteq> Some n) \<Longrightarrow> calls (y_pool y) c = None \<Longrightarrow>
     sys_step D P y (y\<lparr>y_pool := begin_call c (ls_reqID (link_at y n)) (StartLink_request (link_at y n)) (y_pool y),
       y_links := (y_links y)(c \<mapsto> n)\<rparr>)"
| interim: "pool_step (y_pool y) p \<Longrightarrow> ran p = ran (y_pool y) @ [(c, cb)] \<Longrightarrow> y_links y c = Some n \<Longrightarrow>
     link_callback D (link_at y n) (StartLink_interim cb) (y_api y) = Some s \<Longrightarrow>
     sys_step D P y (y\<lparr>y_api := s, y_pool := p\<rparr>)"
| link_end: "y_links y c = Some n \<Longrightarrow> calls (y_pool y) c = Some k \<Longrightarrow> c_pc k = Returned a \<Longrightarrow> link_result a = Some res \<Longrightarrow>
     n \<notin> fst ` set (y_ended y) \<Longrightarrow> link_callback D (link_at y n) (StartLink_end res) (y_api y) = Some s \<Longrightarrow>
     sys_step D P y (y\<lparr>y_api := s, y_ended := y_ended y @ [(n, StartLink_end res)]\<rparr>)"
| friends_ask: "route (rq_method r) (rq_path r) = Some E_Friends \<Longrightarrow> authenticated D r uid \<Longrightarrow>
     ListFriends_ask D (Some uid) r (y_api y) = (AskWorker a tok, s) \<Longrightarrow> newRequestID (s_rand s) = (Ok rid, g) \<Longrightarrow>
     calls (y_pool y) c = None \<Longrightarrow>
     sys_step D P y (y\<lparr>y_api := s\<lparr>s_rand := g\<rparr>, y_pool := begin_call c rid (AskFriends tok) (y_pool y),
       y_friends := (y_friends y)(c \<mapsto> (uid, a))\<rparr>)"
| friends_no_id: "route (rq_method r) (rq_path r) = Some E_Friends \<Longrightarrow> authenticated D r uid \<Longrightarrow>
     ListFriends_ask D (Some uid) r (y_api y) = (AskWorker a tok, s) \<Longrightarrow> newRequestID (s_rand s) = (Fail e, g) \<Longrightarrow>
     sys_step D P y (y\<lparr>y_api := s\<lparr>s_rand := g\<rparr>\<rparr>)"
| friends_tell: "y_friends y c = Some (uid, a) \<Longrightarrow> calls (y_pool y) c = Some k \<Longrightarrow> c_pc k = Returned ans \<Longrightarrow>
     friends_result ans = Some res \<Longrightarrow>
     sys_step D P y (y\<lparr>y_api := friends_writeback D a (friendsProvider_ListFriends res) (y_api y),
       y_friends := (y_friends y)(c := None),
       y_answers := y_answers y @ [(c, uid, friends_response D (friendsProvider_ListFriends res))]\<rparr>)"
| code_ask: "route (rq_method r) (rq_path r) = Some (E_AccountSteamGuard i) \<Longrightarrow> authenticated D r uid \<Longrightarrow>
     SubmitGuard_ask D i (Some uid) r (y_api y) = (SendCode q cd, s) \<Longrightarrow> calls (y_pool y) c = None \<Longrightarrow>
     sys_step D P y (y\<lparr>y_api := s, y_pool := begin_call c q (AskGuard cd) (y_pool y), y_codes := (y_codes y)(c \<mapsto> uid)\<rparr>)"
| code_tell: "y_codes y c = Some uid \<Longrightarrow> calls (y_pool y) c = Some k \<Longrightarrow> c_pc k = Returned ans \<Longrightarrow> submit_result ans = Some res \<Longrightarrow>
     sys_step D P y (y\<lparr>y_codes := (y_codes y)(c := None),
       y_answers := y_answers y @ [(c, uid, code_response res)]\<rparr>)"

inductive sys_reachable :: "Deps \<Rightarrow> Platform \<Rightarrow> Sys \<Rightarrow> bool" for D P where
  sys_init: "rand_ok r \<Longrightarrow> sys_reachable D P (sys_start t r)"
| sys_next: "sys_reachable D P y \<Longrightarrow> sys_step D P y y' \<Longrightarrow> sys_reachable D P y'"

inductive_cases sys_stepE: "sys_step D P y y'"

section \<open>How the API moves\<close>

text \<open>
  Every move keeps the invariant of the API and lets the tables grow; a link is started for a
  new account, which then has a guard prompt, and nothing else touches links or prompts.
\<close>

definition api_moves :: "Deps \<Rightarrow> Api \<Rightarrow> Api \<Rightarrow> bool" where
  "api_moves D s s' \<longleftrightarrow> api_inv D s' \<and> db_ext (d_pg D) (s_db s) (s_db s')
     \<and> (s_started s' = s_started s \<and> s_linkReqs s' = s_linkReqs s
        \<or> (\<exists>l. s_started s' = s_started s @ [l] \<and> s_linkReqs s' = (s_linkReqs s)(ls_accountID l \<mapsto> ls_reqID l)
             \<and> \<not> used_uuid (d_pg D) (s_db s) (ls_accountID l)))"

lemma api_moves_quiet:
  "api_inv D s' \<Longrightarrow> db_ext (d_pg D) (s_db s) (s_db s') \<Longrightarrow> s_started s' = s_started s \<Longrightarrow> s_linkReqs s' = s_linkReqs s
    \<Longrightarrow> api_moves D s s'"
  by (simp add: api_moves_def)

lemma quiet_cacheKeyAndIssue:
  "s_started (snd (cacheKeyAndIssue D r i pw salt st s)) = s_started s"
  "s_linkReqs (snd (cacheKeyAndIssue D r i pw salt st s)) = s_linkReqs s"
  "s_db (snd (cacheKeyAndIssue D r i pw salt st s)) = s_db s"
  by (simp_all add: cacheKeyAndIssue_def split: outcome.splits)

lemma moves_Register:
  assumes "deps_ok D" "api_inv D s"
  shows "api_moves D s (snd (Register D r s))"
  using inv_Register [OF assms]
  by (intro api_moves_quiet) (auto simp: Register_def quiet_cacheKeyAndIssue ext_Create_user
      split: option.splits outcome.splits prod.splits)

lemma moves_Login:
  assumes "deps_ok D" "api_inv D s"
  shows "api_moves D s (snd (Login D r s))"
  using inv_Login [OF assms]
  by (intro api_moves_quiet) (auto simp: Login_def quiet_cacheKeyAndIssue ext_GetByUsername
      split: option.splits outcome.splits prod.splits)

lemma moves_Logout: "api_inv D s \<Longrightarrow> api_moves D s (snd (Logout ctx r s))"
  using inv_Logout [of D s ctx r] by (intro api_moves_quiet) (auto simp: Logout_def split: option.splits)

lemma moves_ListSteamAccounts: "api_inv D s \<Longrightarrow> api_moves D s (snd (ListSteamAccounts D ctx r s))"
  using inv_ListSteamAccounts [of D s ctx r]
  by (intro api_moves_quiet) (auto simp: ListSteamAccounts_def ext_GetByUserID split: option.splits outcome.splits prod.splits)

lemma moves_DeleteSteamAccount: "api_inv D s \<Longrightarrow> api_moves D s (snd (DeleteSteamAccount D i ctx r s))"
  using inv_DeleteSteamAccount [of D s i ctx r]
  by (intro api_moves_quiet) (auto simp: DeleteSteamAccount_def ext_Delete_account split: option.splits outcome.splits prod.splits)

lemma quiet_startAccountLink:
  assumes "startAccountLink D i name pw key s = s'"
  shows "s_db s' = s_db s" "s_started s' = s_started s \<and> s_linkReqs s' = s_linkReqs s
    \<or> (\<exists>l. s_started s' = s_started s @ [l] \<and> s_linkReqs s' = (s_linkReqs s)(ls_accountID l \<mapsto> ls_reqID l) \<and> ls_accountID l = i)"
  using assms by (auto simp: startAccountLink_def setLinkReq_def Let_def split: prod.splits if_splits)

lemma moves_AddSteamAccount:
  assumes D: "deps_ok D" and inv: "api_inv D s"
  shows "api_moves D s (snd (AddSteamAccount D ctx r s))"
proof (cases "\<exists>uid req key ks i d'. ctx = Some uid \<and> decodeJSON SteamAccountRequest r = Some req
    \<and> (req ''steam_username'' = '''') = (req ''steam_password'' = '''') \<and> Get (rq_clock r 1) uid (s_keys s) = (Some key, ks)
    \<and> SteamAccountStore_Create (d_pg D) (rq_clock r 2) uid (req ''steam_username'') (s_db s) = (Ok i, d')")
  case True
  then obtain uid req key ks i d' where u: "ctx = Some uid" "decodeJSON SteamAccountRequest r = Some req"
    "(req ''steam_username'' = '''') = (req ''steam_password'' = '''')" "Get (rq_clock r 1) uid (s_keys s) = (Some key, ks)"
    and c: "SteamAccountStore_Create (d_pg D) (rq_clock r 2) uid (req ''steam_username'') (s_db s) = (Ok i, d')" by blast
  have pg: "pg_ok (d_pg D)" using D by (simp add: deps_ok_def)
  let ?s1 = "startAccountLink D i (req ''steam_username'') (req ''steam_password'') key (s\<lparr>s_keys := ks, s_db := d'\<rparr>)"
  have e: "snd (AddSteamAccount D ctx r s) = ?s1" using u c by (simp add: AddSteamAccount_def)
  note q = quiet_startAccountLink [OF refl, of D i "req ''steam_username''" "req ''steam_password''" key "s\<lparr>s_keys := ks, s_db := d'\<rparr>"]
  have "i = gen_uuid (d_pg D) (uuids_used (s_db s))" by (rule Create_account_Ok [OF c])
  then have "\<not> used_uuid (d_pg D) (s_db s) i" using next_uuid_fresh [OF pg] by blast
  then show ?thesis
    using q inv_AddSteamAccount [OF D inv, of ctx r] ext_Create_account [OF pg c] unfolding e api_moves_def by auto
next
  case False
  then have "s_started (snd (AddSteamAccount D ctx r s)) = s_started s" "s_linkReqs (snd (AddSteamAccount D ctx r s)) = s_linkReqs s"
    by (auto simp: AddSteamAccount_def split: option.splits outcome.splits prod.splits)
  moreover have "db_ext (d_pg D) (s_db s) (s_db (snd (AddSteamAccount D ctx r s)))"
    using False D by (auto simp: AddSteamAccount_def deps_ok_def intro: ext_Create_account
        split: option.splits outcome.splits prod.splits)
  ultimately show ?thesis by (intro api_moves_quiet inv_AddSteamAccount [OF D inv])
qed

lemma db_ext_queries [simp]: "db_ext pg (d\<lparr>queries := n\<rparr>) d' = db_ext pg d d'"
  by (simp add: db_ext_def)

lemma ask_quiet:
  assumes "ListFriends_ask D ctx r s = (ph, s')"
  shows "s_started s' = s_started s" "s_linkReqs s' = s_linkReqs s" "\<exists>n. s_db s' = (s_db s)\<lparr>queries := n\<rparr>"
  using assms by (auto simp: ListFriends_ask_def dest!: GetByUserID_db split: option.splits outcome.splits prod.splits if_splits
      intro: exI [of _ "queries (s_db s)"])

lemma ask_inv:
  assumes inv: "api_inv D s" and a: "ListFriends_ask D ctx r s = (ph, s')"
  shows "api_inv D s'"
proof (cases ctx)
  case None
  then show ?thesis using assms by (simp add: ListFriends_ask_def)
next
  case (Some uid)
  obtain g d' where g: "GetByUserID (d_pg D) uid (s_db s) = (g, d')" by (rule prod.exhaust)
  have v: "api_inv D (s\<lparr>s_db := d'\<rparr>)" by (rule api_inv_lookups(2) [OF inv g])
  obtain k ks where k: "Get (rq_clock r 1) uid (s_keys s) = (k, ks)" by (rule prod.exhaust)
  have w: "api_inv D (s\<lparr>s_db := d', s_keys := ks\<rparr>)"
    using api_inv_Get [OF v, of "rq_clock r 1" uid k ks] k by simp
  then have "api_inv D (s\<lparr>s_db := d', s_keys := ks, s_asked := x\<rparr>)" for x by simp
  then show ?thesis using a v w by (auto simp: ListFriends_ask_def Some g k simp del: api_inv_frame
        split: option.splits outcome.splits if_splits)
qed

lemma moves_ask:
  assumes "api_inv D s" "ListFriends_ask D ctx r s = (ph, s')"
  shows "api_moves D s s'"
proof -
  obtain n where "s_db s' = (s_db s)\<lparr>queries := n\<rparr>" using ask_quiet(3) [OF assms(2)] by blast
  then show ?thesis using ask_quiet(1,2) [OF assms(2)] by (intro api_moves_quiet ask_inv [OF assms]) simp_all
qed

lemma moves_writeback: "api_inv D s \<Longrightarrow> api_moves D s (friends_writeback D a res s)"
proof -
  assume inv: "api_inv D s"
  have "s_started (backfill D a fl s) = s_started s" "s_linkReqs (backfill D a fl s) = s_linkReqs s"
    "db_ext (d_pg D) (s_db s) (s_db (backfill D a fl s))" for fl
    by (simp_all add: backfill_def ext_SetSteamID [OF surjective_pairing])
  then show ?thesis using inv_backfill [OF inv] inv
    by (intro api_moves_quiet) (simp_all add: friends_writeback_def split: outcome.splits)
qed

lemma moves_code_ask:
  assumes inv: "api_inv D s" and a: "SubmitGuard_ask D i ctx r s = (ph, s')"
  shows "api_moves D s s'"
proof (cases ctx)
  case None
  then show ?thesis using assms by (intro api_moves_quiet) (simp_all add: SubmitGuard_ask_def)
next
  case (Some uid)
  obtain g d' where g: "GetByUserID (d_pg D) uid (s_db s) = (g, d')" by (rule prod.exhaust)
  have v: "api_inv D (s\<lparr>s_db := d'\<rparr>)" by (rule api_inv_lookups(2) [OF inv g])
  then have w: "api_inv D (s\<lparr>s_db := d', s_submitted := x\<rparr>)" for x by simp
  have e: "db_ext (d_pg D) (s_db s) d'" by (rule ext_GetByUserID [OF g])
  show ?thesis using inv v w e a
    by (intro api_moves_quiet) (auto simp: SubmitGuard_ask_def Some g simp del: api_inv_frame
        split: option.splits outcome.splits if_splits)
qed

lemma moves_ListFriends:
  assumes inv: "api_inv D s"
  shows "api_moves D s (snd (ListFriends D ctx r s))"
proof -
  obtain ph s1 where a: "ListFriends_ask D ctx r s = (ph, s1)" by (rule prod.exhaust)
  have m: "api_moves D s s1" by (rule moves_ask [OF inv a])
  show ?thesis
  proof (cases ph)
    case (AskWorker acc tok)
    let ?res = "d_friends D (length (s_asked s)) tok"
    have i: "api_inv D s1" by (rule ask_inv [OF inv a])
    have "api_moves D s1 (friends_writeback D acc ?res s1)" by (rule moves_writeback [OF i])
    moreover have "s_started (friends_writeback D acc ?res s1) = s_started s1" "s_linkReqs (friends_writeback D acc ?res s1) = s_linkReqs s1"
      by (simp_all add: friends_writeback_def backfill_def split: outcome.splits)
    ultimately have "api_moves D s (friends_writeback D acc ?res s1)"
      using ask_quiet [OF a] by (auto simp: api_moves_def)
    then show ?thesis by (simp add: ListFriends_phases a AskWorker Let_def)
  qed (use m in \<open>simp add: ListFriends_phases a\<close>)
qed

lemma moves_SubmitAccountSteamGuard:
  assumes inv: "api_inv D s"
  shows "api_moves D s (snd (SubmitAccountSteamGuard D i ctx r s))"
proof -
  obtain ph s1 where a: "SubmitGuard_ask D i ctx r s = (ph, s1)" by (rule prod.exhaust)
  show ?thesis using moves_code_ask [OF inv a] by (cases ph) (simp_all add: SubmitAccountSteamGuard_phases a)
qed

lemma moves_serve:
  assumes "deps_ok D" "api_inv D s"
  shows "api_moves D s (snd (serve D P r s))"
proof -
  have q: "api_moves D s s" using assms(2) by (intro api_moves_quiet) simp_all
  have "api_moves D s (snd (handler_of D P e ctx r s))" for e ctx
    using q assms moves_Register [OF assms] moves_Login [OF assms] moves_AddSteamAccount [OF assms]
    by (cases e) (auto simp: moves_Logout moves_ListSteamAccounts moves_DeleteSteamAccount moves_ListFriends
        moves_SubmitAccountSteamGuard notImplemented_def ws_open_def split: option.splits intro!: api_moves_quiet)
  then show ?thesis using q by (auto simp: serve_def requireAuth_def split: option.splits outcome.splits)
qed

section \<open>What the callbacks do\<close>

lemma interim_callback:
  "link_callback D l (StartLink_interim cb) s = Some s' \<Longrightarrow> api_inv D s \<Longrightarrow> api_moves D s s'"
  by (cases cb) (auto simp: link_callback_def push_def intro!: api_moves_quiet)

text \<open>A terminal callback ends the prompt of its account; only one that brings a token writes it, to one account.\<close>

definition token_written :: "Deps \<Rightarrow> LinkStart \<Rightarrow> LinkCallback \<Rightarrow> account_row \<Rightarrow> bool" where
  "token_written D l cb a \<longleftrightarrow> r_id a = ls_accountID l \<and> (\<exists>sid tok ct non. cb = OnLinked sid tok
     \<and> r_enc_refresh_token a = Some ct \<and> r_enc_refresh_nonce a = Some non
     \<and> Decrypt (d_crypto D) (ls_key l) ct non = Ok (bytes_of_string tok))"

lemma SaveRefreshToken_rows:
  assumes D: "deps_ok D" and inv: "api_inv D s" and l: "l \<in> set (s_started s)"
    and s: "SaveRefreshToken (d_pg D) (ls_accountID l) sid name ct non ex (s_db s) = (x, d')" and a: "a' \<in> set (steam_accounts d')"
  shows "(\<exists>a \<in> set (steam_accounts (s_db s)). same_cred a a')
    \<or> (r_id a' = ls_accountID l \<and> r_enc_refresh_token a' = Some ct \<and> r_enc_refresh_nonce a' = Some non)"
proof (cases x)
  case (Ok y)
  have pg: "pg_ok (d_pg D)" using D by (simp add: deps_ok_def)
  let ?f = "\<lambda>a. a\<lparr>r_enc_refresh_token := Some ct, r_enc_refresh_nonce := Some non, r_refresh_token_expires := ex,
    r_steam_id := Some sid, r_steam_username := coalesce_nullif name (r_steam_username a)\<rparr>"
  from l inv have "used_uuid (d_pg D) (s_db s) (ls_accountID l)" unfolding api_inv_def links_ok_def by blast
  then have canon: "uuid_in (d_pg D) (ls_accountID l) = Some (ls_accountID l)" by (rule used_uuid_canonical [OF pg])
  obtain i where i: "uuid_in (d_pg D) (ls_accountID l) = Some i"
    "d' = (s_db s)\<lparr>queries := Suc (queries (s_db s)),
      steam_accounts := map (\<lambda>a. if r_id a = i then ?f a else a) (steam_accounts (s_db s))\<rparr>"
    by (rule exec_update_Ok [OF s [unfolded Ok SaveRefreshToken_def]])
  then show ?thesis using a canon by (auto simp: same_cred_def)
qed (use a exec_update_other [OF s [unfolded SaveRefreshToken_def]] in \<open>auto simp: same_cred_def\<close>)

lemma link_end_moves:
  assumes D: "deps_ok D" and inv: "api_inv D s" and l: "l \<in> set (s_started s)"
    and c: "link_callback D l (StartLink_end res) s = Some s'"
  shows "api_inv D s'" "s_started s' = s_started s" "s_linkReqs s' = (s_linkReqs s)(ls_accountID l := None)"
    "\<forall>u \<in> set (users (s_db s)). u \<in> set (users (s_db s'))"
    "\<forall>a' \<in> set (steam_accounts (s_db s')). (\<exists>a \<in> set (steam_accounts (s_db s)). same_cred a a') \<or> token_written D l (StartLink_end res) a'"
proof -
  show "api_inv D s'" by (rule inv_link_callback [OF D inv l c])
  obtain cb where cb: "cb = StartLink_end res" by simp
  then have "(\<exists>e. cb = OnError e) \<or> (\<exists>sid tok. cb = OnLinked sid tok)"
    by (auto simp: StartLink_end_def split: sum.splits option.splits)
  then consider (err) e where "cb = OnError e" | (ok) sid tok where "cb = OnLinked sid tok" by blast
  then have "s_started s' = s_started s \<and> s_linkReqs s' = (s_linkReqs s)(ls_accountID l := None)
    \<and> set (users (s_db s)) \<subseteq> set (users (s_db s')) \<and> (\<forall>a' \<in> set (steam_accounts (s_db s')).
        (\<exists>a \<in> set (steam_accounts (s_db s)). same_cred a a') \<or> token_written D l cb a')"
  proof cases
    case err
    then show ?thesis using c by (auto simp: cb [symmetric] link_callback_def push_def clearLinkReq_def same_cred_def)
  next
    case ok
    obtain e r' where e: "Encrypt (d_crypto D) (ls_key l) (bytes_of_string tok) (s_rand s) = (e, r')" by (rule prod.exhaust)
    show ?thesis
    proof (cases e)
      case (Ok cn)
      obtain ct non where cn: "cn = (ct, non)" by (cases cn)
      obtain x d' where s: "SaveRefreshToken (d_pg D) (ls_accountID l) sid '''' ct non (expiryFromJWT tok) (s_db s) = (x, d')"
        by (rule prod.exhaust)
      have ro: "rand_ok (s_rand s)" using inv by (simp add: api_inv_def)
      have dec: "Decrypt (d_crypto D) (ls_key l) ct non = Ok (bytes_of_string tok)"
        by (rule Encrypt_opens [OF _ ro e [unfolded Ok cn]]) (use D in \<open>simp add: deps_ok_def\<close>)
      have "s_db s' = d' \<and> s_started s' = s_started s \<and> s_linkReqs s' = (s_linkReqs s)(ls_accountID l := None)"
        using c ok s by (auto simp: cb [symmetric] link_callback_def persistRefreshToken_def e Ok cn push_def Let_def
            clearLinkReq_def split: outcome.splits)
      moreover have "set (users d') = set (users (s_db s))" using users_kept(6) [OF s] by simp
      moreover note SaveRefreshToken_rows [OF D inv l s]
      ultimately show ?thesis using dec ok by (fastforce simp: token_written_def)
    qed (use c ok in \<open>auto simp: cb [symmetric] link_callback_def persistRefreshToken_def e push_def Let_def
        clearLinkReq_def same_cred_def\<close>)
  qed
  then show "s_started s' = s_started s" "s_linkReqs s' = (s_linkReqs s)(ls_accountID l := None)"
    "\<forall>u \<in> set (users (s_db s)). u \<in> set (users (s_db s'))"
    "\<forall>a' \<in> set (steam_accounts (s_db s')). (\<exists>a \<in> set (steam_accounts (s_db s)). same_cred a a') \<or> token_written D l (StartLink_end res) a'"
    unfolding cb by auto
qed

section \<open>The invariant of the system\<close>

definition links_wired :: "LinkStart list \<Rightarrow> (call_ref \<rightharpoonup> nat) \<Rightarrow> (call_ref \<rightharpoonup> Call) \<Rightarrow> bool" where
  "links_wired ls m cs \<longleftrightarrow> (\<forall>c n. m c = Some n \<longrightarrow> n < length ls \<and>
     (\<exists>k. cs c = Some k \<and> c_id k = ls_reqID (ls ! n) \<and> c_req k = StartLink_request (ls ! n)))"

definition ended_by :: "(call_ref \<rightharpoonup> nat) \<Rightarrow> (call_ref \<rightharpoonup> Call) \<Rightarrow> nat \<Rightarrow> LinkCallback \<Rightarrow> bool" where
  "ended_by m cs n cb \<longleftrightarrow> (\<exists>c k a res. m c = Some n \<and> cs c = Some k \<and> c_pc k = Returned a
     \<and> link_result a = Some res \<and> cb = StartLink_end res)"

definition ends_wired :: "(nat \<times> LinkCallback) list \<Rightarrow> (call_ref \<rightharpoonup> nat) \<Rightarrow> (call_ref \<rightharpoonup> Call) \<Rightarrow> bool" where
  "ends_wired es m cs \<longleftrightarrow> distinct (map fst es) \<and> (\<forall>(n, cb) \<in> set es. ended_by m cs n cb)"

definition in_flight :: "LinkStart list \<Rightarrow> (nat \<times> LinkCallback) list \<Rightarrow> string \<Rightarrow> string \<Rightarrow> bool" where
  "in_flight ls es a q \<longleftrightarrow> (\<exists>n < length ls. n \<notin> fst ` set es \<and> ls_accountID (ls ! n) = a \<and> ls_reqID (ls ! n) = q)"

definition prompts_ok :: "LinkStart list \<Rightarrow> (nat \<times> LinkCallback) list \<Rightarrow> (string \<rightharpoonup> string) \<Rightarrow> bool" where
  "prompts_ok ls es reqs \<longleftrightarrow> distinct (map ls_accountID ls) \<and> fst ` set es \<subseteq> {..< length ls}
     \<and> (\<forall>a q. reqs a = Some q \<longleftrightarrow> in_flight ls es a q)"

definition tokens_ok :: "Deps \<Rightarrow> Db \<Rightarrow> LinkStart list \<Rightarrow> (nat \<times> LinkCallback) list \<Rightarrow> bool" where
  "tokens_ok D d ls es \<longleftrightarrow> (\<forall>a \<in> set (steam_accounts d). r_enc_refresh_token a \<noteq> None \<longrightarrow>
     (\<exists>n cb. n < length ls \<and> (n, cb) \<in> set es \<and> token_written D (ls ! n) cb a))"

text \<open>
  A link of a user: its key is one of that user's. What a key of the user opens where the token
  that the worker reported for such a link was sealed (and so that token, if the keys are the same).
\<close>

definition own_link :: "Deps \<Rightarrow> Db \<Rightarrow> LinkStart list \<Rightarrow> string \<Rightarrow> nat \<Rightarrow> bool" where
  "own_link D d ls uid n \<longleftrightarrow> n < length ls \<and> (\<exists>u \<in> set (users d). u_ID u = uid \<and> user_key D u (ls_key (ls ! n)))"

definition reported :: "Deps \<Rightarrow> Db \<Rightarrow> LinkStart list \<Rightarrow> (nat \<times> LinkCallback) list \<Rightarrow> string \<Rightarrow> string \<Rightarrow> bool" where
  "reported D d ls es uid tok \<longleftrightarrow> (\<exists>n sid tok' ct non u key. (n, OnLinked sid tok') \<in> set es \<and> own_link D d ls uid n
     \<and> Decrypt (d_crypto D) (ls_key (ls ! n)) ct non = Ok (bytes_of_string tok')
     \<and> u \<in> set (users d) \<and> u_ID u = uid \<and> user_key D u key \<and> Decrypt (d_crypto D) key ct non = Ok (bytes_of_string tok))"

definition friends_call :: "Deps \<Rightarrow> Sys \<Rightarrow> string \<Rightarrow> Call \<Rightarrow> bool" where
  "friends_call D y uid k \<longleftrightarrow> (\<exists>tok. c_req k = AskFriends tok \<and> reported D (s_db (y_api y)) (s_started (y_api y)) (y_ended y) uid tok)"

definition code_call :: "Deps \<Rightarrow> Sys \<Rightarrow> string \<Rightarrow> Call \<Rightarrow> bool" where
  "code_call D y uid k \<longleftrightarrow> (\<exists>cd u n. c_req k = AskGuard cd \<and> uuid_in (d_pg D) uid = Some u
     \<and> own_link D (s_db (y_api y)) (s_started (y_api y)) u n \<and> c_id k = ls_reqID (link_at y n))"

definition waits_ok :: "Deps \<Rightarrow> Sys \<Rightarrow> bool" where
  "waits_ok D y \<longleftrightarrow>
     (\<forall>c uid a. y_friends y c = Some (uid, a) \<longrightarrow> (\<exists>k. calls (y_pool y) c = Some k \<and> friends_call D y uid k))
     \<and> (\<forall>c uid. y_codes y c = Some uid \<longrightarrow> (\<exists>k. calls (y_pool y) c = Some k \<and> code_call D y uid k))"

definition answered :: "Deps \<Rightarrow> Sys \<Rightarrow> call_ref \<Rightarrow> string \<Rightarrow> Response \<Rightarrow> bool" where
  "answered D y c uid resp \<longleftrightarrow> (\<exists>k a. calls (y_pool y) c = Some k \<and> c_pc k = Returned a \<and>
     ((\<exists>res. friends_call D y uid k \<and> friends_result a = Some res \<and> resp = friends_response D (friendsProvider_ListFriends res))
      \<or> (\<exists>res. code_call D y uid k \<and> submit_result a = Some res \<and> resp = code_response res)))"

definition sys_inv :: "Deps \<Rightarrow> Sys \<Rightarrow> bool" where
  "sys_inv D y \<longleftrightarrow> api_inv D (y_api y) \<and> pool_reachable (y_pool y)
     \<and> links_wired (s_started (y_api y)) (y_links y) (calls (y_pool y))
     \<and> ends_wired (y_ended y) (y_links y) (calls (y_pool y))
     \<and> prompts_ok (s_started (y_api y)) (y_ended y) (s_linkReqs (y_api y))
     \<and> tokens_ok D (s_db (y_api y)) (s_started (y_api y)) (y_ended y)
     \<and> waits_ok D y \<and> (\<forall>(c, uid, resp) \<in> set (y_answers y). answered D y c uid resp)"

section \<open>Growth keeps it\<close>

definition calls_grow :: "(call_ref \<rightharpoonup> Call) \<Rightarrow> (call_ref \<rightharpoonup> Call) \<Rightarrow> bool" where
  "calls_grow cs cs' \<longleftrightarrow> (\<forall>c k. cs c = Some k \<longrightarrow>
     (\<exists>k'. cs' c = Some k' \<and> c_req k' = c_req k \<and> c_id k' = c_id k \<and> (\<forall>a. c_pc k = Returned a \<longrightarrow> k' = k)))"

lemma calls_grow_refl [simp]: "calls_grow cs cs"
  by (simp add: calls_grow_def)

lemma calls_grow_step: "pool_step p p' \<Longrightarrow> calls_grow (calls p) (calls p')"
  unfolding calls_grow_def using step_keeps_call by fastforce

lemma links_wired_mono: "links_wired ls m cs \<Longrightarrow> calls_grow cs cs' \<Longrightarrow> links_wired (ls @ x) m cs'"
  unfolding links_wired_def calls_grow_def by (fastforce simp: nth_append)

lemma ended_by_mono: "ended_by m cs n cb \<Longrightarrow> calls_grow cs cs' \<Longrightarrow> ended_by m cs' n cb"
  unfolding ended_by_def calls_grow_def by metis

lemma ends_wired_mono: "ends_wired es m cs \<Longrightarrow> calls_grow cs cs' \<Longrightarrow> ends_wired es m cs'"
  unfolding ends_wired_def using ended_by_mono by fastforce

lemma own_link_mono: "own_link D d ls uid n \<Longrightarrow> set (users d) \<subseteq> set (users d') \<Longrightarrow> own_link D d' (ls @ x) uid n"
  unfolding own_link_def by (auto simp: nth_append)

lemma reported_mono:
  "reported D d ls es uid tok \<Longrightarrow> set (users d) \<subseteq> set (users d') \<Longrightarrow> reported D d' (ls @ x) (es @ e) uid tok"
proof -
  assume r: "reported D d ls es uid tok" and u: "set (users d) \<subseteq> set (users d')"
  then obtain n sid tok' ct non v key where n: "(n, OnLinked sid tok') \<in> set es" "own_link D d ls uid n"
    "Decrypt (d_crypto D) (ls_key (ls ! n)) ct non = Ok (bytes_of_string tok')"
    "v \<in> set (users d)" "u_ID v = uid" "user_key D v key" "Decrypt (d_crypto D) key ct non = Ok (bytes_of_string tok)"
    unfolding reported_def by blast
  have "(ls @ x) ! n = ls ! n" using n(2) by (simp add: own_link_def nth_append)
  moreover have "own_link D d' (ls @ x) uid n" by (rule own_link_mono [OF n(2) u])
  moreover have "v \<in> set (users d')" using n(4) u by blast
  ultimately show "reported D d' (ls @ x) (es @ e) uid tok" using n(1,3,5-7) unfolding reported_def
    by (intro exI [of _ n] exI [of _ sid] exI [of _ tok'] exI [of _ ct] exI [of _ non] exI [of _ v] exI [of _ key]) simp
qed

text \<open>Growth of the whole system, as far as calls and their users are concerned.\<close>

definition sys_grows :: "Sys \<Rightarrow> Sys \<Rightarrow> bool" where
  "sys_grows y y' \<longleftrightarrow> calls_grow (calls (y_pool y)) (calls (y_pool y'))
     \<and> set (users (s_db (y_api y))) \<subseteq> set (users (s_db (y_api y')))
     \<and> (\<exists>x. s_started (y_api y') = s_started (y_api y) @ x) \<and> (\<exists>e. y_ended y' = y_ended y @ e)"

lemma friends_call_mono:
  assumes "sys_grows y y'" "friends_call D y uid k" "c_req k' = c_req k"
  shows "friends_call D y' uid k'"
  using assms reported_mono unfolding sys_grows_def friends_call_def by metis

lemma code_call_mono:
  assumes "sys_grows y y'" "code_call D y uid k" "c_req k' = c_req k" "c_id k' = c_id k"
  shows "code_call D y' uid k'"
proof -
  obtain cd u n where n: "c_req k = AskGuard cd" "own_link D (s_db (y_api y)) (s_started (y_api y)) u n"
    "c_id k = ls_reqID (link_at y n)" "uuid_in (d_pg D) uid = Some u" using assms(2) unfolding code_call_def by blast
  obtain x where x: "s_started (y_api y') = s_started (y_api y) @ x" using assms(1) unfolding sys_grows_def by blast
  have "own_link D (s_db (y_api y')) (s_started (y_api y')) u n"
    using own_link_mono [OF n(2)] assms(1) unfolding sys_grows_def x by blast
  moreover have "link_at y' n = link_at y n" using n(2) by (simp add: x nth_append own_link_def)
  ultimately show ?thesis using n assms(3,4) unfolding code_call_def by auto
qed

lemma answered_mono:
  assumes "sys_grows y y'" "answered D y c uid resp"
  shows "answered D y' c uid resp"
proof -
  obtain k a where k: "calls (y_pool y) c = Some k" "c_pc k = Returned a"
    and r: "(\<exists>res. friends_call D y uid k \<and> friends_result a = Some res \<and> resp = friends_response D (friendsProvider_ListFriends res))
      \<or> (\<exists>res. code_call D y uid k \<and> submit_result a = Some res \<and> resp = code_response res)"
    using assms(2) unfolding answered_def by blast
  have "calls (y_pool y') c = Some k" using k assms(1) unfolding sys_grows_def calls_grow_def by blast
  then show ?thesis
    using k r friends_call_mono [OF assms(1), of D uid k k] code_call_mono [OF assms(1), of D uid k k]
    unfolding answered_def by blast
qed

lemma waits_mono:
  assumes "sys_grows y y'" "waits_ok D y" "y_friends y' = y_friends y" "y_codes y' = y_codes y"
  shows "waits_ok D y'"
  unfolding waits_ok_def assms(3,4)
proof (intro conjI allI impI)
  have keep: "\<exists>k'. calls (y_pool y') c = Some k' \<and> c_req k' = c_req k \<and> c_id k' = c_id k" if "calls (y_pool y) c = Some k" for c k
    using assms(1) that unfolding sys_grows_def calls_grow_def by blast
  fix c uid
  show "\<exists>k. calls (y_pool y') c = Some k \<and> friends_call D y' uid k" if "y_friends y c = Some (uid, a)" for a
    using assms(2) that keep friends_call_mono [OF assms(1)] unfolding waits_ok_def by metis
  show "\<exists>k. calls (y_pool y') c = Some k \<and> code_call D y' uid k" if "y_codes y c = Some uid"
    using assms(2) that keep code_call_mono [OF assms(1)] unfolding waits_ok_def by metis
qed

lemma same_cred_written: "same_cred a a' \<Longrightarrow> token_written D l cb a \<Longrightarrow> token_written D l cb a'"
  unfolding same_cred_def token_written_def by simp

lemma tokens_ok_mono:
  assumes "tokens_ok D d ls es" "db_ext pg d d'"
  shows "tokens_ok D d' (ls @ x) (es @ e)"
  unfolding tokens_ok_def
proof (intro ballI impI)
  fix a' assume a': "a' \<in> set (steam_accounts d')" "r_enc_refresh_token a' \<noteq> None"
  have "\<forall>a' \<in> set (steam_accounts d'). (\<exists>a \<in> set (steam_accounts d). same_cred a a') \<or> r_enc_refresh_token a' = None"
    using assms(2) by (auto simp: db_ext_def)
  from bspec [OF this a'(1)] a'(2) obtain a where a: "a \<in> set (steam_accounts d)" "same_cred a a'" by auto
  with a'(2) have "r_enc_refresh_token a \<noteq> None" by (simp add: same_cred_def)
  from bspec [OF assms(1) [unfolded tokens_ok_def] a(1)] this
  obtain n cb where n: "n < length ls" "(n, cb) \<in> set es" "token_written D (ls ! n) cb a" by blast
  have "token_written D ((ls @ x) ! n) cb a'"
    using n(1,3) same_cred_written [OF a(2)] by (simp add: nth_append)
  then show "\<exists>n cb. n < length (ls @ x) \<and> (n, cb) \<in> set (es @ e) \<and> token_written D ((ls @ x) ! n) cb a'"
    using n(1,2) by (intro exI [of _ n] exI [of _ cb]) simp
qed

lemma in_flight_new:
  assumes "fst ` set es \<subseteq> {..< length ls}"
  shows "in_flight (ls @ [l]) es a q \<longleftrightarrow> in_flight ls es a q \<or> (a = ls_accountID l \<and> q = ls_reqID l)"
proof -
  have "length ls \<notin> fst ` set es" using assms by auto
  then show ?thesis unfolding in_flight_def by (auto simp: nth_append less_Suc_eq)
qed

lemma in_flight_account: "in_flight ls es a q \<Longrightarrow> a \<in> ls_accountID ` set ls"
  unfolding in_flight_def by force

lemma prompts_move:
  assumes inv: "api_inv D s" and p: "prompts_ok (s_started s) es (s_linkReqs s)" and m: "api_moves D s s'"
  shows "prompts_ok (s_started s') es (s_linkReqs s')"
proof (cases "s_started s' = s_started s \<and> s_linkReqs s' = s_linkReqs s")
  case False
  then obtain l where l: "s_started s' = s_started s @ [l]" "s_linkReqs s' = (s_linkReqs s)(ls_accountID l \<mapsto> ls_reqID l)"
    "\<not> used_uuid (d_pg D) (s_db s) (ls_accountID l)" using m unfolding api_moves_def by blast
  have new: "ls_accountID l \<notin> ls_accountID ` set (s_started s)"
    using l(3) inv unfolding api_inv_def links_ok_def by auto
  have es: "fst ` set es \<subseteq> {..< length (s_started s)}" using p by (simp add: prompts_ok_def)
  have "s_linkReqs s' a = Some q \<longleftrightarrow> in_flight (s_started s') es a q" for a q
    using p new in_flight_account [of "s_started s" es "ls_accountID l" q]
    unfolding l(1,2) in_flight_new [OF es] prompts_ok_def by auto
  moreover have "distinct (map ls_accountID (s_started s'))" using p new by (simp add: prompts_ok_def l(1))
  moreover have "fst ` set es \<subseteq> {..< length (s_started s')}" using es by (auto simp: l(1))
  ultimately show ?thesis by (simp add: prompts_ok_def)
qed (use p in simp)

lemma moves_grow:
  assumes "api_moves D (y_api y) s"
  shows "sys_grows y (y\<lparr>y_api := s\<rparr>)" "db_ext (d_pg D) (s_db (y_api y)) (s_db s)" "\<exists>x. s_started s = s_started (y_api y) @ x"
  using assms by (auto simp: api_moves_def sys_grows_def db_ext_def)

lemma sys_api_move:
  assumes inv: "sys_inv D y" and m: "api_moves D (y_api y) s"
  shows "sys_inv D (y\<lparr>y_api := s\<rparr>)"
proof -
  obtain x where x: "s_started s = s_started (y_api y) @ x" using moves_grow(3) [OF m] by blast
  note g = moves_grow(1) [OF m]
  have i: "api_inv D s" using m by (simp add: api_moves_def)
  have t: "tokens_ok D (s_db s) (s_started s) (y_ended y)"
    using tokens_ok_mono [OF _ moves_grow(2) [OF m], of D _ "y_ended y" x "[]"] inv by (simp add: sys_inv_def x)
  have w: "links_wired (s_started s) (y_links y) (calls (y_pool y))"
    using links_wired_mono [OF _ calls_grow_refl] inv unfolding sys_inv_def x by blast
  have p: "prompts_ok (s_started s) (y_ended y) (s_linkReqs s)"
    using inv prompts_move [OF _ _ m] by (simp add: sys_inv_def)
  have a: "\<forall>(c, uid, resp) \<in> set (y_answers y). answered D (y\<lparr>y_api := s\<rparr>) c uid resp"
    using inv answered_mono [OF g] unfolding sys_inv_def by fastforce
  have "waits_ok D (y\<lparr>y_api := s\<rparr>)" by (rule waits_mono [OF g]) (use inv in \<open>simp_all add: sys_inv_def\<close>)
  then show ?thesis using inv i t w p a by (simp add: sys_inv_def)
qed

lemma sys_pool_move:
  assumes inv: "sys_inv D y" and p: "pool_step (y_pool y) p"
  shows "sys_inv D (y\<lparr>y_pool := p\<rparr>)"
proof -
  have c: "calls_grow (calls (y_pool y)) (calls p)" by (rule calls_grow_step [OF p])
  then have g: "sys_grows y (y\<lparr>y_pool := p\<rparr>)" by (simp add: sys_grows_def)
  have r: "pool_reachable p" using inv p pool_next by (auto simp: sys_inv_def)
  have w: "links_wired (s_started (y_api y)) (y_links y) (calls p)"
    using links_wired_mono [OF _ c, of _ _ "[]"] inv by (simp add: sys_inv_def)
  have e: "ends_wired (y_ended y) (y_links y) (calls p)" using ends_wired_mono [OF _ c] inv by (simp add: sys_inv_def)
  have a: "\<forall>(c, uid, resp) \<in> set (y_answers y). answered D (y\<lparr>y_pool := p\<rparr>) c uid resp"
    using inv answered_mono [OF g] unfolding sys_inv_def by fastforce
  have "waits_ok D (y\<lparr>y_pool := p\<rparr>)" by (rule waits_mono [OF g]) (use inv in \<open>simp_all add: sys_inv_def\<close>)
  then show ?thesis using inv r w e a by (simp add: sys_inv_def)
qed

lemma in_flight_end:
  assumes "distinct (map ls_accountID ls)" "n < length ls"
  shows "in_flight ls (es @ [(n, cb)]) a q \<longleftrightarrow> in_flight ls es a q \<and> a \<noteq> ls_accountID (ls ! n)"
proof -
  have "m = n" if "m < length ls" "ls_accountID (ls ! m) = ls_accountID (ls ! n)" for m
    using assms that nth_eq_iff_index_eq [of "map ls_accountID ls" m n] by simp
  then show ?thesis unfolding in_flight_def by auto
qed

lemma sys_link_end:
  assumes D: "deps_ok D" and inv: "sys_inv D y" and c: "y_links y c = Some n" "calls (y_pool y) c = Some k" "c_pc k = Returned a"
    "link_result a = Some res" "n \<notin> fst ` set (y_ended y)" "link_callback D (link_at y n) (StartLink_end res) (y_api y) = Some s"
  shows "sys_inv D (y\<lparr>y_api := s, y_ended := y_ended y @ [(n, StartLink_end res)]\<rparr>)" (is "sys_inv D ?y")
proof -
  let ?ls = "s_started (y_api y)" and ?es = "y_ended y @ [(n, StartLink_end res)]"
  have n: "n < length ?ls" using inv c(1) unfolding sys_inv_def links_wired_def by blast
  then have l: "link_at y n \<in> set ?ls" by simp
  have i: "api_inv D (y_api y)" using inv by (simp add: sys_inv_def)
  note m = link_end_moves [OF D i l c(6)]
  have g: "sys_grows y ?y" using m(2,4) by (auto simp: sys_grows_def)
  have p: "prompts_ok ?ls ?es (s_linkReqs s)"
  proof -
    have p0: "prompts_ok ?ls (y_ended y) (s_linkReqs (y_api y))" using inv by (simp add: sys_inv_def)
    then have d: "distinct (map ls_accountID ?ls)" by (simp add: prompts_ok_def)
    have "s_linkReqs s a = Some q \<longleftrightarrow> in_flight ?ls ?es a q" for a q
      using p0 unfolding in_flight_end [OF d n] m(3) prompts_ok_def by auto
    then show ?thesis using p0 n by (simp add: prompts_ok_def)
  qed
  have "ended_by (y_links y) (calls (y_pool y)) n (StartLink_end res)" using c by (auto simp: ended_by_def)
  then have e: "ends_wired ?es (y_links y) (calls (y_pool y))" using inv c(5) by (auto simp: sys_inv_def ends_wired_def)
  have t: "tokens_ok D (s_db s) ?ls ?es"
    unfolding tokens_ok_def
  proof (intro ballI impI)
    fix a' assume a': "a' \<in> set (steam_accounts (s_db s))" "r_enc_refresh_token a' \<noteq> None"
    from bspec [OF m(5) a'(1)] show "\<exists>i cb. i < length ?ls \<and> (i, cb) \<in> set ?es \<and> token_written D (?ls ! i) cb a'"
    proof
      assume "\<exists>b \<in> set (steam_accounts (s_db (y_api y))). same_cred b a'"
      then obtain b where b: "b \<in> set (steam_accounts (s_db (y_api y)))" "same_cred b a'" by blast
      then have "r_enc_refresh_token b \<noteq> None" using a'(2) by (simp add: same_cred_def)
      then obtain i cb where "i < length ?ls" "(i, cb) \<in> set (y_ended y)" "token_written D (?ls ! i) cb b"
        using inv b(1) unfolding sys_inv_def tokens_ok_def by blast
      then show ?thesis using same_cred_written [OF b(2)] by (intro exI [of _ i] exI [of _ cb]) simp
    next
      assume "token_written D (link_at y n) (StartLink_end res) a'"
      then show ?thesis using n by (intro exI [of _ n] exI [of _ "StartLink_end res"]) simp
    qed
  qed
  have w: "waits_ok D ?y" by (rule waits_mono [OF g]) (use inv in \<open>simp_all add: sys_inv_def\<close>)
  have "\<forall>(c, uid, resp) \<in> set (y_answers y). answered D ?y c uid resp"
    using inv answered_mono [OF g] unfolding sys_inv_def by fastforce
  then show ?thesis using inv m(1,2) p e t w by (simp add: sys_inv_def)
qed

text \<open>A new call: a pool move, and then an entry for it.\<close>

lemma sys_begin:
  assumes "sys_inv D y" "calls (y_pool y) c = None"
  shows "sys_inv D (y\<lparr>y_pool := begin_call c q rq (y_pool y)\<rparr>)"
  by (rule sys_pool_move [OF assms(1) begin_it [OF assms(2)]])

lemma links_wired_add:
  assumes "links_wired ls m cs" "n < length ls" "cs c = Some k" "c_id k = ls_reqID (ls ! n)" "c_req k = StartLink_request (ls ! n)"
  shows "links_wired ls (m(c \<mapsto> n)) cs"
  using assms by (auto simp: links_wired_def)

lemma sys_spawn:
  assumes inv: "sys_inv D y" and n: "n < length (s_started (y_api y))" and c: "calls (y_pool y) c = None"
  shows "sys_inv D (y\<lparr>y_pool := begin_call c (ls_reqID (link_at y n)) (StartLink_request (link_at y n)) (y_pool y),
    y_links := (y_links y)(c \<mapsto> n)\<rparr>)" (is "sys_inv D ?z")
proof -
  let ?y = "y\<lparr>y_pool := begin_call c (ls_reqID (link_at y n)) (StartLink_request (link_at y n)) (y_pool y)\<rparr>"
  have i: "sys_inv D ?y" by (rule sys_begin [OF inv c])
  have new: "y_links y c = None" using inv c unfolding sys_inv_def links_wired_def by (metis option.distinct(1) not_None_eq)
  have w: "links_wired (s_started (y_api y)) ((y_links y)(c \<mapsto> n)) (calls (y_pool ?y))"
    by (rule links_wired_add [where k = "\<lparr>c_req = StartLink_request (link_at y n), c_id = ls_reqID (link_at y n), c_pc = Added\<rparr>"])
      (use i n in \<open>simp_all add: sys_inv_def\<close>)
  have "ended_by ((y_links y)(c \<mapsto> n)) cs m cb" if "ended_by (y_links y) cs m cb" for cs m cb
    using that new unfolding ended_by_def by (metis fun_upd_apply option.distinct(1))
  then have e: "ends_wired (y_ended y) ((y_links y)(c \<mapsto> n)) (calls (y_pool ?y))"
    using i unfolding sys_inv_def ends_wired_def by fastforce
  have g: "sys_grows ?y ?z" by (simp add: sys_grows_def)
  have a: "\<forall>(c, uid, resp) \<in> set (y_answers y). answered D ?z c uid resp"
    using i answered_mono [OF g] unfolding sys_inv_def by fastforce
  have "waits_ok D ?z" by (rule waits_mono [OF g]) (use i in \<open>simp_all add: sys_inv_def\<close>)
  then show ?thesis using i w e a by (simp add: sys_inv_def)
qed

text \<open>What a friends request asks the worker for, and where a guard code goes.\<close>

lemma row_own_link:
  assumes inv: "sys_inv D y" and row: "row \<in> set (steam_accounts (s_db (y_api y)))" "r_id row = ls_accountID (link_at y n)"
    and n: "n < length (s_started (y_api y))"
  shows "own_link D (s_db (y_api y)) (s_started (y_api y)) (r_user_id row) n"
proof -
  have "link_at y n \<in> set (s_started (y_api y))" using n by simp
  with inv obtain u where u: "u \<in> set (users (s_db (y_api y)))" "user_key D u (ls_key (link_at y n))"
    "\<forall>a \<in> set (steam_accounts (s_db (y_api y))). r_id a = ls_accountID (link_at y n) \<longrightarrow> r_user_id a = u_ID u"
    unfolding sys_inv_def api_inv_def links_ok_def by blast
  then show ?thesis using row n by (auto simp: own_link_def)
qed

lemma ask_reported:
  assumes D: "deps_ok D" and inv: "sys_inv D y"
    and a: "ListFriends_ask D (Some uid) r (y_api y) = (AskWorker acc tok, s)"
  shows "reported D (s_db (y_api y)) (s_started (y_api y)) (y_ended y) uid tok"
proof -
  let ?s = "y_api y"
  have i: "api_inv D ?s" using inv by (simp add: sys_inv_def)
  obtain d' key ks t where g: "GetByUserID (d_pg D) uid (s_db ?s) = (Ok acc, d')" "sa_EncRefreshToken acc \<noteq> []"
    and k: "Get (rq_clock r 1) uid (s_keys ?s) = (Some key, ks)"
    and dec: "Decrypt (d_crypto D) key (sa_EncRefreshToken acc) (sa_EncRefreshNonce acc) = Ok t" "tok = string_of_bytes t"
    using a by (auto simp: ListFriends_ask_def split: outcome.splits prod.splits if_splits option.splits)
  obtain u row where row: "uuid_in (d_pg D) uid = Some u" "account_of (s_db ?s) u = Some row" "acc = scan_account row"
    by (rule GetByUserID_Ok [OF g(1)])
  have uid: "u = uid" using key_owner_canonical(1) [OF D i k] row(1) by simp
  obtain v where v: "v \<in> set (users (s_db ?s))" "u_ID v = uid" "user_key D v key" by (rule Get_user_key [OF i k])
  have mem: "row \<in> set (steam_accounts (s_db ?s))" "r_user_id row = uid"
    using account_of_user [OF row(2)] uid by auto
  have enc: "r_enc_refresh_token row \<noteq> None" using g(2) by (cases "r_enc_refresh_token row") (auto simp: row(3))
  then obtain n cb where n: "n < length (s_started ?s)" "(n, cb) \<in> set (y_ended y)" "token_written D (link_at y n) cb row"
    using inv mem(1) unfolding sys_inv_def tokens_ok_def by blast
  then obtain sid tok' ct non where w: "cb = OnLinked sid tok'" "r_enc_refresh_token row = Some ct" "r_enc_refresh_nonce row = Some non"
    "Decrypt (d_crypto D) (ls_key (link_at y n)) ct non = Ok (bytes_of_string tok')" "r_id row = ls_accountID (link_at y n)"
    unfolding token_written_def by blast
  have "Decrypt (d_crypto D) key ct non = Ok (bytes_of_string tok)" using dec w(2,3) by (simp add: row(3))
  moreover have "own_link D (s_db ?s) (s_started ?s) uid n" using row_own_link [OF inv mem(1) w(5) n(1)] mem(2) by simp
  ultimately show ?thesis using n(2) w(1,4) v unfolding reported_def by blast
qed

lemma code_ask_own:
  assumes D: "deps_ok D" and inv: "sys_inv D y"
    and a: "SubmitGuard_ask D i (Some uid) r (y_api y) = (SendCode q cd, s)"
  shows "\<exists>u n. uuid_in (d_pg D) uid = Some u \<and> own_link D (s_db (y_api y)) (s_started (y_api y)) u n \<and> ls_reqID (link_at y n) = q \<and> ls_accountID (link_at y n) = i
    \<and> n \<notin> fst ` set (y_ended y)"
proof -
  let ?s = "y_api y"
  obtain d' acc where g: "GetByUserID (d_pg D) uid (s_db ?s) = (Ok acc, d')" "sa_ID acc = i" "s_linkReqs ?s i = Some q"
    using a by (auto simp: SubmitGuard_ask_def getLinkReq_def split: outcome.splits prod.splits if_splits option.splits)
  obtain u row where row: "uuid_in (d_pg D) uid = Some u" "account_of (s_db ?s) u = Some row" "acc = scan_account row"
    by (rule GetByUserID_Ok [OF g(1)])
  have mem: "row \<in> set (steam_accounts (s_db ?s))" "r_user_id row = u" "r_id row = i"
    using g(2) account_of_user [OF row(2)] by (auto simp: row(3))
  obtain n where n: "n < length (s_started ?s)" "n \<notin> fst ` set (y_ended y)" "ls_accountID (link_at y n) = i" "ls_reqID (link_at y n) = q"
    using inv g(3) unfolding sys_inv_def prompts_ok_def in_flight_def by blast
  then show ?thesis using row_own_link [OF inv mem(1) _ n(1)] mem row(1) by auto
qed

lemma newRequestID_keeps: "newRequestID r = (x, r') \<Longrightarrow> rand_ok r \<Longrightarrow> rand_ok r'"
  by (auto simp: newRequestID_def split: option.splits prod.splits dest: rand_Read_keeps_ok)

lemma moves_rand: "api_moves D s s' \<Longrightarrow> rand_ok g \<Longrightarrow> api_moves D s (s'\<lparr>s_rand := g\<rparr>)"
  by (auto simp: api_moves_def intro: api_inv_rand)

text \<open>The bookkeeping of waiting requests and of their answers.\<close>

lemma book_simps [simp]:
  "friends_call D (y\<lparr>y_friends := f\<rparr>) = friends_call D y" "friends_call D (y\<lparr>y_codes := g\<rparr>) = friends_call D y"
  "friends_call D (y\<lparr>y_answers := as\<rparr>) = friends_call D y"
  "code_call D (y\<lparr>y_friends := f\<rparr>) = code_call D y" "code_call D (y\<lparr>y_codes := g\<rparr>) = code_call D y"
  "code_call D (y\<lparr>y_answers := as\<rparr>) = code_call D y"
  "answered D (y\<lparr>y_friends := f\<rparr>) = answered D y" "answered D (y\<lparr>y_codes := g\<rparr>) = answered D y"
  "answered D (y\<lparr>y_answers := as\<rparr>) = answered D y"
  by (simp_all add: fun_eq_iff friends_call_def code_call_def answered_def)

lemma sys_wait_friends:
  assumes "sys_inv D y" "calls (y_pool y) c = Some k" "friends_call D y uid k"
  shows "sys_inv D (y\<lparr>y_friends := (y_friends y)(c \<mapsto> (uid, a))\<rparr>)"
  using assms by (simp add: sys_inv_def waits_ok_def)

lemma sys_wait_code:
  assumes "sys_inv D y" "calls (y_pool y) c = Some k" "code_call D y uid k"
  shows "sys_inv D (y\<lparr>y_codes := (y_codes y)(c \<mapsto> uid)\<rparr>)"
  using assms by (simp add: sys_inv_def waits_ok_def)

lemma sys_answer:
  assumes "sys_inv D y" "answered D y c uid resp"
  shows "sys_inv D (y\<lparr>y_friends := (y_friends y)(c := None), y_answers := y_answers y @ [(c, uid, resp)]\<rparr>)"
    "sys_inv D (y\<lparr>y_codes := (y_codes y)(c := None), y_answers := y_answers y @ [(c, uid, resp)]\<rparr>)"
  using assms by (simp_all add: sys_inv_def waits_ok_def)

lemma sys_friends_ask:
  assumes D: "deps_ok D" and inv: "sys_inv D y"
    and a: "ListFriends_ask D (Some uid) r (y_api y) = (AskWorker acc tok, s)" "newRequestID (s_rand s) = (Ok rid, g)"
    and c: "calls (y_pool y) c = None"
  shows "sys_inv D (y\<lparr>y_api := s\<lparr>s_rand := g\<rparr>, y_pool := begin_call c rid (AskFriends tok) (y_pool y),
    y_friends := (y_friends y)(c \<mapsto> (uid, acc))\<rparr>)"
proof -
  have i: "api_inv D (y_api y)" using inv by (simp add: sys_inv_def)
  have m: "api_moves D (y_api y) (s\<lparr>s_rand := g\<rparr>)"
    using moves_ask [OF i a(1)] newRequestID_keeps [OF a(2)] ask_inv [OF i a(1)] by (intro moves_rand) (auto simp: api_inv_def)
  let ?y = "y\<lparr>y_api := s\<lparr>s_rand := g\<rparr>, y_pool := begin_call c rid (AskFriends tok) (y_pool y)\<rparr>"
  have "sys_inv D ?y" using sys_begin [OF sys_api_move [OF inv m], of c rid "AskFriends tok"] c by simp
  moreover have "reported D (s_db s) (s_started s) (y_ended y) uid tok"
    using reported_mono [OF ask_reported [OF D inv a(1)], of "s_db s" "[]" "[]"] ask_quiet [OF a(1)] by auto
  then have "friends_call D ?y uid \<lparr>c_req = AskFriends tok, c_id = rid, c_pc = Added\<rparr>" by (simp add: friends_call_def)
  ultimately show ?thesis
    using sys_wait_friends [of D ?y c "\<lparr>c_req = AskFriends tok, c_id = rid, c_pc = Added\<rparr>" uid acc] by simp
qed

lemma sys_code_ask:
  assumes D: "deps_ok D" and inv: "sys_inv D y"
    and a: "SubmitGuard_ask D i (Some uid) r (y_api y) = (SendCode q cd, s)" and c: "calls (y_pool y) c = None"
  shows "sys_inv D (y\<lparr>y_api := s, y_pool := begin_call c q (AskGuard cd) (y_pool y), y_codes := (y_codes y)(c \<mapsto> uid)\<rparr>)"
proof -
  have i: "api_inv D (y_api y)" using inv by (simp add: sys_inv_def)
  have m: "api_moves D (y_api y) s" by (rule moves_code_ask [OF i a])
  let ?y = "y\<lparr>y_api := s, y_pool := begin_call c q (AskGuard cd) (y_pool y)\<rparr>" and ?k = "\<lparr>c_req = AskGuard cd, c_id = q, c_pc = Added\<rparr>"
  have y: "sys_inv D ?y" using sys_begin [OF sys_api_move [OF inv m], of c q "AskGuard cd"] c by simp
  have own: "code_call D y uid ?k" using code_ask_own [OF D inv a] unfolding code_call_def by auto
  have "sys_grows y ?y" using moves_grow [OF m] begin_it [OF c, THEN calls_grow_step, of q "AskGuard cd"]
    by (auto simp: sys_grows_def db_ext_def)
  from code_call_mono [OF this own, of ?k] have "code_call D ?y uid ?k" by simp
  then show ?thesis using sys_wait_code [OF y, of c ?k uid] by simp
qed

lemma sys_inv_step:
  assumes D: "deps_ok D" and inv: "sys_inv D y" and st: "sys_step D P y y'"
  shows "sys_inv D y'"
  using st
proof (cases rule: sys_step.cases)
  case (serve_alone r resp s)
  have "api_moves D (y_api y) s" using moves_serve [OF D, of "y_api y" P r] inv serve_alone(2) by (simp add: sys_inv_def)
  then show ?thesis using sys_api_move [OF inv] serve_alone(1) by blast
next
  case (ws_close c)
  have "api_moves D (y_api y) (ws_closed c (y_api y))"
    using inv by (intro api_moves_quiet) (simp_all add: ws_closed_def sys_inv_def)
  then show ?thesis using sys_api_move [OF inv] ws_close by blast
next
  case (pool_alone p)
  then show ?thesis using sys_pool_move [OF inv] by blast
next
  case (spawn n c)
  then show ?thesis using sys_spawn [OF inv] by blast
next
  case (interim p c cb n s)
  have "api_moves D (y_api y) s" using interim_callback [OF interim(5)] inv by (simp add: sys_inv_def)
  from sys_pool_move [OF sys_api_move [OF inv this], of p] show ?thesis using interim(1,2) by simp
next
  case (link_end c n k a res s)
  then show ?thesis using sys_link_end [OF D inv] by blast
next
  case (friends_ask r uid a tok s rid g c)
  then show ?thesis using sys_friends_ask [OF D inv] by blast
next
  case (friends_no_id r uid a tok s e g)
  have "api_moves D (y_api y) (s\<lparr>s_rand := g\<rparr>)"
    using moves_ask [OF _ friends_no_id(4)] newRequestID_keeps [OF friends_no_id(5)] ask_inv [OF _ friends_no_id(4)] inv
    by (intro moves_rand) (auto simp: api_inv_def sys_inv_def)
  then show ?thesis using sys_api_move [OF inv] friends_no_id(1) by blast
next
  case (friends_tell c uid a k ans res)
  let ?s = "friends_writeback D a (friendsProvider_ListFriends res) (y_api y)"
  have m: "api_moves D (y_api y) ?s" by (rule moves_writeback) (use inv in \<open>simp add: sys_inv_def\<close>)
  have "friends_call D y uid k" using inv friends_tell(2,3) unfolding sys_inv_def waits_ok_def by fastforce
  then have "answered D y c uid (friends_response D (friendsProvider_ListFriends res))"
    using friends_tell(3-5) unfolding answered_def by blast
  from sys_answer(1) [OF sys_api_move [OF inv m] answered_mono [OF moves_grow(1) [OF m] this]]
  show ?thesis using friends_tell(1) by simp
next
  case (code_ask r i uid q cd s c)
  then show ?thesis using sys_code_ask [OF D inv] by blast
next
  case (code_tell c uid k ans res)
  have "code_call D y uid k" using inv code_tell(2,3) unfolding sys_inv_def waits_ok_def by fastforce
  then have "answered D y c uid (code_response res)" using code_tell(3-5) unfolding answered_def by blast
  from sys_answer(2) [OF inv this] show ?thesis using code_tell(1) by simp
qed

lemma sys_inv_start: "deps_ok D \<Longrightarrow> rand_ok r \<Longrightarrow> sys_inv D (sys_start t r)"
  using api_inv_init [of D r t]
  by (simp add: sys_inv_def sys_start_def pool_init links_wired_def ends_wired_def prompts_ok_def in_flight_def tokens_ok_def
      waits_ok_def NewApiServer_def) (simp add: empty_db_def)

lemma sys_inv_reachable:
  assumes "deps_ok D" "sys_reachable D P y"
  shows "sys_inv D y"
  using assms(2) by induction (auto intro: sys_inv_start [OF assms(1)] sys_inv_step [OF assms(1)])

end
