(* ===== verification/Control_Demo.thy ===== *)
theory Control_Demo
  imports Control_System
begin

text \<open>
  A run of the whole system to its end, on which the theorems about it are applied: ann registers
  and links an account, the worker connects and reports the token, and a friends request asks
  the worker and times out.
\<close>

section \<open>Pool steps inside the system\<close>

definition quiet_step :: "Pool \<Rightarrow> Pool \<Rightarrow> bool" where
  "quiet_step p p' \<longleftrightarrow> pool_step p p' \<and> dom (calls p') = dom (calls p) \<and> ran p' = ran p"

lemma sys_quiet: "quiet_step\<^sup>*\<^sup>* p p' \<Longrightarrow> sys_reachable D P (y\<lparr>y_pool := p\<rparr>) \<Longrightarrow> sys_reachable D P (y\<lparr>y_pool := p'\<rparr>)"
proof (induction rule: rtranclp_induct)
  case (step p1 p2)
  then show ?case using sys_next [OF step.IH [OF step.prems] pool_alone, of p2] by (simp add: quiet_step_def)
qed simp

lemma sys_quiet_at: "sys_reachable D P y \<Longrightarrow> quiet_step\<^sup>*\<^sup>* (y_pool y) p \<Longrightarrow> sys_reachable D P (y\<lparr>y_pool := p\<rparr>)"
  using sys_quiet [of "y_pool y" p D P y] by simp

lemma quiet_ready: "quiet_step\<^sup>*\<^sup>* pool_start ready_pool"
proof -
  let ?s = "pool_start\<lparr>handles := (handles pool_start)(0 \<mapsto> \<lparr>w_ID = '''', w_send = []\<rparr>),
    streams := (streams pool_start)(0 := Receiving), pumping := (pumping pool_start)(0 := True)\<rparr>"
  have "pool_step pool_start ?s" by (rule connect) (simp add: pool_start_def)
  moreover have "receive 0 \<lparr>ev_WorkerId = ''w1'', ev_Payload = Some Ev_Ready\<rparr> \<lparr>w_ID = '''', w_send = []\<rparr> ?s = ready_pool"
    by (simp add: receive_def handle_def ready_pool_def pool_start_def NewServer_def NewRegistry_def register_def)
  moreover have "pool_step ?s (receive 0 \<lparr>ev_WorkerId = ''w1'', ev_Payload = Some Ev_Ready\<rparr> \<lparr>w_ID = '''', w_send = []\<rparr> ?s)"
    by (rule recv) simp_all
  ultimately have "quiet_step pool_start ?s" "quiet_step ?s ready_pool" by (simp_all add: quiet_step_def ready_pool_def)
  then show ?thesis by (meson converse_rtranclp_into_rtranclp rtranclp.rtrancl_refl)
qed

lemma set_pc_frame [simp]: "ran (set_pc c k pc s) = ran s" "handles (set_pc c k pc s) = handles s"
  "streams (set_pc c k pc s) = streams s" "server (set_pc c k pc s) = server s" "pumping (set_pc c k pc s) = pumping s"
  by (simp_all add: set_pc_def)

text \<open>A call that was begun is sent, when a worker is there.\<close>

lemma quiet_sent:
  assumes c: "calls p c = Some \<lparr>c_req = q, c_id = rid, c_pc = Added\<rparr>" "after_send q = Waiting"
    and w: "current (reg (server p)) = Some w" "handles p w = Some wk" "length (w_send wk) < send_cap"
  obtains p' wk' where "quiet_step\<^sup>*\<^sup>* p p'" "calls p' = (calls p)(c \<mapsto> \<lparr>c_req = q, c_id = rid, c_pc = Waiting\<rparr>)"
    "streams p' = streams p" "chans p' = chans p" "handles p' = (handles p)(w \<mapsto> wk')" "length (w_send wk') = Suc (length (w_send wk))"
    "server p' = server p"
proof -
  let ?k = "\<lparr>c_req = q, c_id = rid, c_pc = Added\<rparr>" and ?k1 = "\<lparr>c_req = q, c_id = rid, c_pc = Sending w\<rparr>"
  let ?p1 = "set_pc c ?k (Sending w) p"
  let ?wk = "wk\<lparr>w_send := w_send wk @ [command_of ?k1]\<rparr>"
  let ?p2 = "set_pc c ?k1 (after_send (c_req ?k1)) (?p1\<lparr>handles := (handles ?p1)(w \<mapsto> ?wk)\<rparr>)"
  have "pool_step p ?p1" by (rule pick) (simp_all add: c Send_target_def Current_def w)
  moreover have "pool_step ?p1 ?p2"
    by (rule enqueue [where wk = wk]) (use w in \<open>simp_all add: Send_enqueue_def chan_send_def del: command_of.simps\<close>)
  moreover have "dom (calls ?p1) = dom (calls p)" "dom (calls ?p2) = dom (calls p)" using c by auto
  ultimately have q: "quiet_step p ?p1" "quiet_step ?p1 ?p2" by (simp_all add: quiet_step_def)
  then have "quiet_step\<^sup>*\<^sup>* p ?p2" by (meson converse_rtranclp_into_rtranclp rtranclp.rtrancl_refl)
  then show ?thesis by (rule that [of ?p2 ?wk]) (simp_all add: c)
qed

text \<open>A call that waits returns with a fitting reply, or with the end of its context.\<close>

lemma quiet_replied:
  assumes inv: "pool_reachable p" and c: "calls p c = Some k" "c_pc k = Waiting" "sole p c k" "fits k r"
    and w: "streams p w = Receiving" "handles p w = Some wk" "chans p c = []"
  obtains p' where "quiet_step\<^sup>*\<^sup>* p p'" "calls p' = (calls p)(c \<mapsto> k\<lparr>c_pc := Returned (Answered r)\<rparr>)"
    "streams p' = (streams p)(w := Receiving)" "handles p' = handles p" "reg (server p') = reg (server p)"
    "chans p' = (chans p)(c := [])"
proof -
  let ?p1 = "p\<lparr>streams := (streams p)(w := Putting c r)\<rparr>"
  let ?p2 = "?p1\<lparr>chans := (chans ?p1)(c := [r]), streams := (streams ?p1)(w := Receiving)\<rparr>"
  let ?k = "k\<lparr>c_pc := Leaving (Answered r)\<rparr>"
  let ?p3 = "set_pc c k (Leaving (Answered r)) (?p2\<lparr>chans := (chans ?p2)(c := [])\<rparr>)"
  let ?p4 = "end_call c ?k (Answered r) ?p3"
  have "pool_step p ?p1" by (rule reply_routed [OF pool_inv_reachable [OF inv] c(1) _ c(3,4) w(1,2)]) (simp add: c)
  moreover have "pool_step ?p1 ?p2" by (rule reply_put) (simp_all add: w)
  moreover have "pool_step ?p2 ?p3" by (rule wake) (simp_all add: c)
  moreover have "pool_step ?p3 ?p4" by (rule leave) simp_all
  moreover have "dom (calls ?p3) = dom (calls p)" "dom (calls ?p4) = dom (calls p)" using c by auto
  moreover have f: "ran ?p4 = ran p" "handles ?p4 = handles p" "reg (server ?p4) = reg (server p)"
    by (simp_all add: end_call_def split: request.splits)
  ultimately have "quiet_step p ?p1" "quiet_step ?p1 ?p2" "quiet_step ?p2 ?p3" "quiet_step ?p3 ?p4"
    by (simp_all add: quiet_step_def)
  then have "quiet_step\<^sup>*\<^sup>* p ?p4" by (meson converse_rtranclp_into_rtranclp rtranclp.rtrancl_refl)
  then show ?thesis by (rule that) (use f in simp_all)
qed

lemma quiet_expired:
  assumes c: "calls p c = Some k" "c_pc k = Waiting"
  obtains p' where "quiet_step\<^sup>*\<^sup>* p p'" "calls p' = (calls p)(c \<mapsto> k\<lparr>c_pc := Returned (Failed (ExternalError e))\<rparr>)"
proof -
  let ?p1 = "set_pc c k (Leaving (Failed (ExternalError e))) p"
  let ?p2 = "end_call c (k\<lparr>c_pc := Leaving (Failed (ExternalError e))\<rparr>) (Failed (ExternalError e)) ?p1"
  have "pool_step p ?p1" by (rule expire [OF c])
  moreover have "pool_step ?p1 ?p2" by (rule leave) simp_all
  moreover have "dom (calls ?p1) = dom (calls p)" "dom (calls ?p2) = dom (calls p)" using c by auto
  moreover have "ran ?p2 = ran p" by (simp add: end_call_def split: request.splits)
  ultimately have "quiet_step p ?p1" "quiet_step ?p1 ?p2" by (simp_all add: quiet_step_def)
  then have "quiet_step\<^sup>*\<^sup>* p ?p2" by (meson converse_rtranclp_into_rtranclp rtranclp.rtrancl_refl)
  then show ?thesis by (rule that) simp
qed

section \<open>The run\<close>

text \<open>The worker's result for a link of ann.\<close>

definition demo_result :: "LinkStart \<Rightarrow> LinkResult" where
  "demo_result l = \<lparr>lres_RequestId = ls_reqID l, lres_OwnerSteamId = ''7'', lres_Error = None, lres_RefreshToken = ''tok''\<rparr>"

definition demo_link_call :: "LinkStart \<Rightarrow> call_pc \<Rightarrow> Call" where
  "demo_link_call l pc = \<lparr>c_req = StartLink_request l, c_id = ls_reqID l, c_pc = pc\<rparr>"

lemma demo_link_served:
  obtains p wk where "pool_reachable p" "quiet_step\<^sup>*\<^sup>* (begin_call 0 (ls_reqID l) (StartLink_request l) ready_pool) p"
    "calls p = [0 \<mapsto> demo_link_call l (Returned (Answered (LinkReply (demo_result l))))]"
    "current (reg (server p)) = Some 0" "handles p 0 = Some wk" "length (w_send wk) < send_cap"
proof -
  let ?p = "begin_call 0 (ls_reqID l) (StartLink_request l) ready_pool"
  have r: "calls ready_pool = Map.empty" by (simp add: ready_pool_def pool_start_def)
  have reach: "pool_reachable ?p" by (rule pool_next [OF ready_pool_reachable begin_it]) (simp add: r)
  have c: "calls ?p 0 = Some \<lparr>c_req = StartLink_request l, c_id = ls_reqID l, c_pc = Added\<rparr>" by simp
  have w: "after_send (StartLink_request l) = Waiting" "current (reg (server ?p)) = Some 0" "handles ?p 0 = Some \<lparr>w_ID = ''w1'', w_send = []\<rparr>"
    "streams ?p 0 = Receiving" "chans ?p 0 = []" "length (w_send \<lparr>w_ID = ''w1'', w_send = []\<rparr>) < send_cap"
    by (simp_all add: StartLink_request_def begin_call_def ready_pool_def pool_start_def send_cap_def)
  obtain p1 wk where p1: "quiet_step\<^sup>*\<^sup>* ?p p1" "calls p1 = (calls ?p)(0 \<mapsto> demo_link_call l Waiting)"
    "streams p1 = streams ?p" "chans p1 = chans ?p" "handles p1 = (handles ?p)(0 \<mapsto> wk)"
    "length (w_send wk) = Suc (length (w_send \<lparr>w_ID = ''w1'', w_send = []\<rparr>))" "server p1 = server ?p"
    using quiet_sent [OF c w(1,2,3,6)] unfolding demo_link_call_def by metis
  have q: "quiet_step\<^sup>*\<^sup>* a b \<Longrightarrow> pool_reachable a \<Longrightarrow> pool_reachable b" for a b
    by (induction rule: rtranclp_induct) (auto simp: quiet_step_def intro: pool_next)
  have reach1: "pool_reachable p1" by (rule q [OF p1(1) reach])
  have k: "calls p1 0 = Some (demo_link_call l Waiting)" "c_pc (demo_link_call l Waiting) = Waiting"
    "sole p1 0 (demo_link_call l Waiting)" "fits (demo_link_call l Waiting) (LinkReply (demo_result l))"
    by (auto simp: p1(2) r demo_link_call_def sole_def demo_result_def StartLink_request_def)
  have s: "streams p1 0 = Receiving" "handles p1 0 = Some wk" "chans p1 0 = []" using w by (simp_all add: p1)
  obtain p2 where p2: "quiet_step\<^sup>*\<^sup>* p1 p2"
    "calls p2 = (calls p1)(0 \<mapsto> (demo_link_call l Waiting)\<lparr>c_pc := Returned (Answered (LinkReply (demo_result l)))\<rparr>)"
    "handles p2 = handles p1" "reg (server p2) = reg (server p1)"
    using quiet_replied [OF reach1 k s] by metis
  have "calls p2 = [0 \<mapsto> demo_link_call l (Returned (Answered (LinkReply (demo_result l))))]"
    by (auto simp: p2(2) p1(2) r demo_link_call_def)
  moreover have "current (reg (server p2)) = Some 0" using w(2) by (simp add: p2(4) p1(7))
  moreover have "length (w_send wk) < send_cap" using p1(6) by (simp add: send_cap_def)
  moreover have "quiet_step\<^sup>*\<^sup>* ?p p2" using p1(1) p2(1) by simp
  ultimately show ?thesis using that [OF q [OF p2(1) reach1], of wk] s(2) p2(3) by simp
qed

lemma demo_sys_linked:
  obtains y tok l a ct non wk where "sys_reachable ref_deps ref_platform y" "ann_token tok" "s_started (y_api y) = [l]" "y_ended y = [(0, OnLinked ''7'' ''tok'')]"
    "a \<in> set (steam_accounts (s_db (y_api y)))" "r_user_id a = ''u''" "r_enc_refresh_token a = Some ct"
    "account_of (s_db (y_api y)) ''u'' = Some a" "r_enc_refresh_nonce a = Some non"
    "Decrypt (d_crypto ref_deps) (ls_key l) ct non = Ok (bytes_of_string ''tok'')" "has_key (y_api y) 5 ''u'' (ls_key l)"
    "calls (y_pool y) = [0 \<mapsto> demo_link_call l (Returned (Answered (LinkReply (demo_result l))))]"
    "current (reg (server (y_pool y))) = Some 0" "handles (y_pool y) 0 = Some wk" "length (w_send wk) < send_cap"
    "rand_live (s_rand (y_api y))" "y_answers y = []"
proof -
  obtain s tok s1 l where a: "serve ref_deps ref_platform (post ''/api/auth/register'' [] ann_body) ref_api = (writeJSON 201 (LoginResponse tok), s)"
    "s_asked s = []" "s_submitted s = []" "ann_token tok"
    "snd (serve ref_deps ref_platform (post ''/api/steam/accounts'' (''Bearer '' @ tok) qr_body) s) = s1"
    "s_asked s1 = []" "s_submitted s1 = []" "s_started s1 = [l]" "api_reachable ref_deps ref_platform s1" "rand_live (s_rand s1)"
    "length (ls_key l) = 32" "has_key s1 5 ''u'' (ls_key l)"
    "account_of (s_db s1) ''u'' = Some (fresh_row 5 ''u'' [] (ls_accountID l))" "uuid_in (d_pg ref_deps) (ls_accountID l) = Some (ls_accountID l)"
    using ann_linking by metis
  let ?y0 = "sys_start (24 * Hour) ref_rng"
  have y0: "sys_reachable ref_deps ref_platform ?y0" by (rule sys_init) simp
  have y0_eq: "y_api ?y0 = ref_api" "y_pool ?y0 = pool_start" "y_links ?y0 = Map.empty" "y_ended ?y0 = []"
    by (simp_all add: sys_start_def ref_api_def)
  have none: "s_asked ref_api = []" "s_submitted ref_api = []" by (simp_all add: ref_api_def NewApiServer_def)
  let ?y1 = "?y0\<lparr>y_pool := ready_pool\<rparr>"
  have y1: "sys_reachable ref_deps ref_platform ?y1"
    by (rule sys_quiet [OF quiet_ready]) (use y0 y0_eq(2) in \<open>simp add: sys_start_def\<close>)
  let ?y2 = "?y1\<lparr>y_api := s\<rparr>"
  have y2: "sys_reachable ref_deps ref_platform ?y2"
    by (rule sys_next [OF y1 serve_alone [of _ _ "post ''/api/auth/register'' [] ann_body"]]) (simp_all add: y0_eq a none)
  let ?y3 = "?y2\<lparr>y_api := s1\<rparr>"
  have y3: "sys_reachable ref_deps ref_platform ?y3"
  proof -
    obtain resp r where "serve ref_deps ref_platform r s = (resp, s1)" using a(5) by (metis prod.collapse)
    then show ?thesis using sys_next [OF y2 serve_alone [of _ _ r]] by (simp add: a)
  qed
  let ?p = "begin_call 0 (ls_reqID l) (StartLink_request l) ready_pool"
  let ?y4 = "?y3\<lparr>y_pool := ?p, y_links := [0 \<mapsto> 0]\<rparr>"
  have y4: "sys_reachable ref_deps ref_platform ?y4"
    using sys_next [OF y3 spawn [of 0 ?y3 0]] by (simp add: a y0_eq) (simp add: ready_pool_def pool_start_def)
  obtain p wk where p: "quiet_step\<^sup>*\<^sup>* ?p p" "calls p = [0 \<mapsto> demo_link_call l (Returned (Answered (LinkReply (demo_result l))))]"
    "current (reg (server p)) = Some 0" "handles p 0 = Some wk" "length (w_send wk) < send_cap"
    by (rule demo_link_served)
  let ?y5 = "?y4\<lparr>y_pool := p\<rparr>"
  have y5: "sys_reachable ref_deps ref_platform ?y5"
    by (rule sys_quiet_at [OF y4]) (simp add: p(1))
  obtain s2 b ct non where b: "link_callback ref_deps l (OnLinked ''7'' ''tok'') s1 = Some s2" "b \<in> set (steam_accounts (s_db s2))"
    "r_user_id b = ''u''" "r_enc_refresh_token b = Some ct" "account_of (s_db s2) ''u'' = Some b" "r_enc_refresh_nonce b = Some non"
    "Decrypt (d_crypto ref_deps) (ls_key l) ct non = Ok (bytes_of_string ''tok'')" "s_keys s2 = s_keys s1"
    "s_started s2 = s_started s1" "rand_live (s_rand s2)"
    by (rule ann_token_stored [OF a(9-11,13,14)])
  have e: "StartLink_end (Inr (demo_result l)) = OnLinked ''7'' ''tok''" by (simp add: StartLink_end_def demo_result_def)
  let ?y6 = "?y5\<lparr>y_api := s2, y_ended := [(0, OnLinked ''7'' ''tok'')]\<rparr>"
  have "sys_step ref_deps ref_platform ?y5 (?y5\<lparr>y_api := s2, y_ended := y_ended ?y5 @ [(0, StartLink_end (Inr (demo_result l)))]\<rparr>)"
    by (rule link_end [of _ 0 _ "demo_link_call l (Returned (Answered (LinkReply (demo_result l))))" "Answered (LinkReply (demo_result l))"])
      (simp_all add: p a b e y0_eq, simp add: demo_link_call_def)
  then have y6: "sys_reachable ref_deps ref_platform ?y6" using sys_next [OF y5] by (simp add: e y0_eq)
  show ?thesis
    by (rule that [OF y6 a(4), of l b ct non wk]) (use b a p in \<open>simp_all add: has_key_def sys_start_def\<close>)
qed

text \<open>The run goes on: a friends request asks the worker with ann's token, and times out.\<close>

lemma demo_sys_asked:
  obtains y where "sys_reachable ref_deps ref_platform y"
    "y_answers y = [(1, ''u'', friends_response ref_deps (Fail (ExternalError ''context deadline exceeded'')))]"
proof -
  obtain y tok l a ct non wk where z: "sys_reachable ref_deps ref_platform y" "ann_token tok" "s_started (y_api y) = [l]"
    "y_ended y = [(0, OnLinked ''7'' ''tok'')]"
    "a \<in> set (steam_accounts (s_db (y_api y)))" "r_user_id a = ''u''" "r_enc_refresh_token a = Some ct"
    "account_of (s_db (y_api y)) ''u'' = Some a" "r_enc_refresh_nonce a = Some non"
    "Decrypt (d_crypto ref_deps) (ls_key l) ct non = Ok (bytes_of_string ''tok'')" "has_key (y_api y) 5 ''u'' (ls_key l)"
    "calls (y_pool y) = [0 \<mapsto> demo_link_call l (Returned (Answered (LinkReply (demo_result l))))]"
    "current (reg (server (y_pool y))) = Some 0" "handles (y_pool y) 0 = Some wk" "length (w_send wk) < send_cap"
    "rand_live (s_rand (y_api y))" "y_answers y = []"
    by (rule demo_sys_linked)
  note y = z(1,2,7-17)
  define r where "r = friends_request (''Bearer '' @ tok) 5"
  have au: "authenticated ref_deps r ''u''"
    using y(2) bearerToken_prefix [of tok r] by (simp add: authenticated_def ann_token_def r_def friends_request_def)
  have rt: "route (rq_method r) (rq_path r) = Some E_Friends" unfolding r_def by (rule friends_route)
  have "rq_clock r 1 = 5" by (simp add: r_def friends_request_def)
  then obtain ks where k: "Get (rq_clock r 1) ''u'' (s_keys (y_api y)) = (Some (ls_key l), ks)"
    using Get_has_key [OF y(7)] by auto
  have "gcm_ok (d_crypto ref_deps)" using ref_deps_ok by (simp add: deps_ok_def)
  then have ne: "ct \<noteq> []" using y(6) by (auto simp: Decrypt_Ok gcm_ok_def)
  have u: "uuid_in (d_pg ref_deps) ''u'' = Some ''u''" by (simp add: ref_deps_def ref_pg_def)
  obtain s where ask: "ListFriends_ask ref_deps (Some ''u'') r (y_api y) = (AskWorker (scan_account a) ''tok'', s)"
    "s_rand s = s_rand (y_api y)"
    using get_on_healthy [OF ref_deps_healthy u y(4)] k y(3,5,6) ne by (simp add: ListFriends_ask_def)
  obtain rid g where id: "newRequestID (s_rand s) = (Ok rid, g)"
    by (rule rand_live_Read [OF y(12), of 16]) (simp add: newRequestID_def ask(2))
  let ?p = "begin_call 1 rid (AskFriends ''tok'') (y_pool y)"
  let ?y1 = "y\<lparr>y_api := s\<lparr>s_rand := g\<rparr>, y_pool := ?p, y_friends := (y_friends y)(1 \<mapsto> (''u'', scan_account a))\<rparr>"
  have y1: "sys_reachable ref_deps ref_platform ?y1"
    by (rule sys_next [OF y(1) friends_ask [OF rt au ask(1) id]]) (simp add: y(8))
  have c: "calls ?p 1 = Some \<lparr>c_req = AskFriends ''tok'', c_id = rid, c_pc = Added\<rparr>" "after_send (AskFriends ''tok'') = Waiting"
    "current (reg (server ?p)) = Some 0" "handles ?p 0 = Some wk"
    using y by (simp_all add: begin_call_def)
  obtain p1 where p1: "quiet_step\<^sup>*\<^sup>* ?p p1" "calls p1 1 = Some \<lparr>c_req = AskFriends ''tok'', c_id = rid, c_pc = Waiting\<rparr>"
    using quiet_sent [OF c y(11)] by (metis fun_upd_same)
  obtain p2 where p2: "quiet_step\<^sup>*\<^sup>* p1 p2" "calls p2 1 = Some \<lparr>c_req = AskFriends ''tok'', c_id = rid,
      c_pc = Returned (Failed (ExternalError ''context deadline exceeded''))\<rparr>"
    by (rule quiet_expired [OF p1(2), of "''context deadline exceeded''"]) simp_all
  let ?y2 = "?y1\<lparr>y_pool := p2\<rparr>"
  have y2: "sys_reachable ref_deps ref_platform ?y2" by (rule sys_quiet_at [OF y1]) (use p1(1) p2(1) in simp)
  have "sys_step ref_deps ref_platform ?y2 (?y2\<lparr>y_api := friends_writeback ref_deps (scan_account a)
      (friendsProvider_ListFriends (Inl (ExternalError ''context deadline exceeded''))) (y_api ?y2),
    y_friends := (y_friends ?y2)(1 := None),
    y_answers := y_answers ?y2 @ [(1, ''u'', friends_response ref_deps
      (friendsProvider_ListFriends (Inl (ExternalError ''context deadline exceeded''))))]\<rparr>)"
    by (rule friends_tell [where k = "\<lparr>c_req = AskFriends ''tok'', c_id = rid,
      c_pc = Returned (Failed (ExternalError ''context deadline exceeded''))\<rparr>" and ans = "Failed (ExternalError ''context deadline exceeded'')"])
      (simp_all add: p2(2))
  from sys_next [OF y2 this] show ?thesis by (rule that) (simp add: y(13) friendsProvider_ListFriends_def)
qed

end
