(* ===== verification/Control_Process.thy ===== *)
theory Control_Process
  imports Control_Wiring
begin

text \<open>
  The life of the process once it is configured (\<open>main\<close>, from \<open>signal.NotifyContext\<close> to its end): the
  two goroutines that serve gRPC and HTTP, the select on a signal or a server error, and the
  shutdown. What the servers return and when is left to the environment.
\<close>

section \<open>State\<close>

datatype main_phase = M_Select | M_Shutdown | M_GracefulStop | M_End

text \<open>A serving goroutine: before it listens, serving, at its send on \<open>errCh\<close>, and done.\<close>

datatype goroutine = G_Start | G_Serving | G_Send "goerror option" | G_Done

text \<open>\<open>m_streams\<close>: the open RPCs of the gRPC server, one for each connected worker.\<close>

record Main =
  m_phase :: main_phase
  m_signal :: bool
  m_errCh :: "goerror option list"
  m_grpc :: goroutine
  m_http :: goroutine
  m_streams :: "nat list"

definition errCh_cap :: nat where
  "errCh_cap = 2"

definition main_start :: Main where
  "main_start = \<lparr>m_phase = M_Select, m_signal = False, m_errCh = [], m_grpc = G_Start, m_http = G_Start, m_streams = []\<rparr>"

section \<open>Steps\<close>

text \<open>
  \<open>graceful\<close> says when \<open>GracefulStop\<close> returns, given the open RPCs; it is documented to block until all
  pending RPCs are finished.
\<close>

definition graceful_ok :: "(nat list \<Rightarrow> bool) \<Rightarrow> bool" where
  "graceful_ok graceful \<longleftrightarrow> (\<forall>open_rpcs. graceful open_rpcs \<longleftrightarrow> open_rpcs = [])"

datatype main_event =
    Signal
  | GrpcListen "goerror option" | GrpcServeReturns "goerror option" | GrpcSend
  | HttpListen | HttpReturns "goerror option" | HttpSend
  | WorkerOpens nat | WorkerCloses nat
  | SelectSignal | SelectErr | ShutdownReturns | GracefulStopReturns

text \<open>\<open>HttpReturns None\<close> is the return of \<open>http.ErrServerClosed\<close>, which is not reported.\<close>

definition serve_goroutine :: "main_event \<Rightarrow> Main \<Rightarrow> Main option" where
  "serve_goroutine ev m =
     (case ev of
        GrpcListen err \<Rightarrow>
          if m_grpc m = G_Start then Some (m\<lparr>m_grpc := (case err of None \<Rightarrow> G_Serving | Some e \<Rightarrow> G_Send (Some e))\<rparr>) else None
      | GrpcServeReturns res \<Rightarrow> if m_grpc m = G_Serving then Some (m\<lparr>m_grpc := G_Send res\<rparr>) else None
      | GrpcSend \<Rightarrow>
          (case m_grpc m of
             G_Send res \<Rightarrow> if length (m_errCh m) < errCh_cap then Some (m\<lparr>m_grpc := G_Done, m_errCh := m_errCh m @ [res]\<rparr>) else None
           | _ \<Rightarrow> None)
      | HttpListen \<Rightarrow> if m_http m = G_Start then Some (m\<lparr>m_http := G_Serving\<rparr>) else None
      | HttpReturns err \<Rightarrow>
          if m_http m = G_Serving then Some (m\<lparr>m_http := (case err of None \<Rightarrow> G_Done | Some e \<Rightarrow> G_Send (Some e))\<rparr>) else None
      | HttpSend \<Rightarrow>
          (case m_http m of
             G_Send res \<Rightarrow> if length (m_errCh m) < errCh_cap then Some (m\<lparr>m_http := G_Done, m_errCh := m_errCh m @ [res]\<rparr>) else None
           | _ \<Rightarrow> None)
      | _ \<Rightarrow> None)"

definition main_goroutine :: "(nat list \<Rightarrow> bool) \<Rightarrow> main_event \<Rightarrow> Main \<Rightarrow> Main option" where
  "main_goroutine graceful ev m =
     (case ev of
        SelectSignal \<Rightarrow> if m_phase m = M_Select \<and> m_signal m then Some (m\<lparr>m_phase := M_Shutdown\<rparr>) else None
      | SelectErr \<Rightarrow>
          if m_phase m = M_Select \<and> m_errCh m \<noteq> [] then Some (m\<lparr>m_phase := M_Shutdown, m_errCh := tl (m_errCh m)\<rparr>) else None
      | ShutdownReturns \<Rightarrow> if m_phase m = M_Shutdown then Some (m\<lparr>m_phase := M_GracefulStop\<rparr>) else None
      | GracefulStopReturns \<Rightarrow>
          if m_phase m = M_GracefulStop \<and> graceful (m_streams m) then Some (m\<lparr>m_phase := M_End\<rparr>) else None
      | _ \<Rightarrow> None)"

text \<open>The environment: the signal, and the workers, which connect while the server accepts them.\<close>

definition environment :: "main_event \<Rightarrow> Main \<Rightarrow> Main option" where
  "environment ev m =
     (case ev of
        Signal \<Rightarrow> Some (m\<lparr>m_signal := True\<rparr>)
      | WorkerOpens w \<Rightarrow>
          if m_grpc m = G_Serving \<and> m_phase m \<in> {M_Select, M_Shutdown} then Some (m\<lparr>m_streams := w # m_streams m\<rparr>) else None
      | WorkerCloses w \<Rightarrow> Some (m\<lparr>m_streams := removeAll w (m_streams m)\<rparr>)
      | _ \<Rightarrow> None)"

text \<open>Nothing of the process moves after the end of \<open>main\<close>.\<close>

definition main_step :: "(nat list \<Rightarrow> bool) \<Rightarrow> main_event \<Rightarrow> Main \<Rightarrow> Main option" where
  "main_step graceful ev m =
     (if m_phase m = M_End then None
      else case serve_goroutine ev m of Some m' \<Rightarrow> Some m'
        | None \<Rightarrow> (case main_goroutine graceful ev m of Some m' \<Rightarrow> Some m' | None \<Rightarrow> environment ev m))"

fun main_run :: "(nat list \<Rightarrow> bool) \<Rightarrow> main_event list \<Rightarrow> Main \<Rightarrow> Main option" where
  "main_run graceful [] m = Some m"
| "main_run graceful (ev # evs) m = Option.bind (main_step graceful ev m) (main_run graceful evs)"

lemmas main_step_defs = main_step_def serve_goroutine_def main_goroutine_def environment_def

lemma main_run_append:
  "main_run g (xs @ ys) m = Option.bind (main_run g xs m) (main_run g ys)"
  by (induction xs arbitrary: m) (auto split: bind_splits)

lemma main_stepE:
  assumes "main_step g ev m = Some m'"
  obtains "m_phase m \<noteq> M_End" "serve_goroutine ev m = Some m'"
    | "m_phase m \<noteq> M_End" "main_goroutine g ev m = Some m'"
    | "m_phase m \<noteq> M_End" "environment ev m = Some m'"
  using assms by (auto simp: main_step_def split: if_splits option.splits)

section \<open>The error channel has room\<close>

text \<open>The sends that are still to come, with what is already in the channel, fit in.\<close>

fun sends_left :: "goroutine \<Rightarrow> nat" where
  "sends_left G_Done = 0"
| "sends_left _ = 1"

lemma sends_left_le: "sends_left g \<le> 1"
  by (cases g) auto

definition room :: "Main \<Rightarrow> bool" where
  "room m \<longleftrightarrow> length (m_errCh m) + sends_left (m_grpc m) + sends_left (m_http m) \<le> errCh_cap"

lemma room_serve: "serve_goroutine ev m = Some m' \<Longrightarrow> room m \<Longrightarrow> room m'"
  by (cases ev) (auto simp: serve_goroutine_def room_def split: if_splits goroutine.splits option.splits)

lemma room_main: "main_goroutine g ev m = Some m' \<Longrightarrow> room m \<Longrightarrow> room m'"
  by (cases ev) (auto simp: main_goroutine_def room_def split: if_splits)

lemma room_environment: "environment ev m = Some m' \<Longrightarrow> room m \<Longrightarrow> room m'"
  by (cases ev) (auto simp: environment_def room_def split: if_splits)

lemma room_step: "main_step g ev m = Some m' \<Longrightarrow> room m \<Longrightarrow> room m'"
  by (erule main_stepE) (blast dest: room_serve room_main room_environment)+

lemma room_run: "main_run g evs m = Some m' \<Longrightarrow> room m \<Longrightarrow> room m'"
  by (induction evs arbitrary: m) (auto split: bind_splits dest: room_step)

section \<open>A connected worker holds the shutdown\<close>

lemma stream_stays:
  assumes "graceful_ok g" "main_step g ev m = Some m'" "w \<in> set (m_streams m)" "ev \<noteq> WorkerCloses w" "m_phase m \<noteq> M_End"
  shows "w \<in> set (m_streams m') \<and> m_phase m' \<noteq> M_End"
  using assms(2)
proof (cases rule: main_stepE)
  case 1
  then show ?thesis using assms(3) by (cases ev) (auto simp: serve_goroutine_def split: if_splits goroutine.splits)
next
  case 2
  have "\<not> g (m_streams m)" using assms(1,3) unfolding graceful_ok_def by (metis list.set_intros(1) empty_iff list.set(1))
  with 2 assms(3) show ?thesis by (cases ev) (auto simp: main_goroutine_def split: if_splits)
next
  case 3
  then show ?thesis using assms(3,4) by (cases ev) (auto simp: environment_def split: if_splits)
qed

lemma stream_stays_run:
  assumes "graceful_ok g"
  shows "main_run g evs m = Some m' \<Longrightarrow> w \<in> set (m_streams m) \<Longrightarrow> WorkerCloses w \<notin> set evs \<Longrightarrow> m_phase m \<noteq> M_End \<Longrightarrow>
    w \<in> set (m_streams m') \<and> m_phase m' \<noteq> M_End"
proof (induction evs arbitrary: m)
  case (Cons ev evs)
  then obtain m1 where m1: "main_step g ev m = Some m1" "main_run g evs m1 = Some m'" by (auto split: bind_splits)
  with stream_stays [OF assms m1(1) Cons.prems(2)] Cons show ?case by auto
qed simp

text \<open>Once the workers are gone and a signal has come, the process ends.\<close>

definition end_events :: "Main \<Rightarrow> main_event list" where
  "end_events m = map WorkerCloses (m_streams m) @
     (case m_phase m of M_Select \<Rightarrow> [Signal, SelectSignal, ShutdownReturns, GracefulStopReturns]
      | M_Shutdown \<Rightarrow> [ShutdownReturns, GracefulStopReturns] | M_GracefulStop \<Rightarrow> [GracefulStopReturns] | M_End \<Rightarrow> [])"

lemma close_all:
  "m_phase m \<noteq> M_End \<Longrightarrow> main_run g (map WorkerCloses ws) m = Some (m\<lparr>m_streams := filter (\<lambda>w. w \<notin> set ws) (m_streams m)\<rparr>)"
proof (induction ws arbitrary: m)
  case (Cons w ws)
  have "filter (\<lambda>x. x \<notin> set ws) (removeAll w ss) = filter (\<lambda>x. x \<noteq> w \<and> x \<notin> set ws) ss" for ss
    by (simp add: removeAll_filter_not_eq conj_commute cong: conj_cong) (metis (mono_tags))
  with Cons show ?case by (simp add: main_step_defs)
qed simp

lemma can_end:
  assumes "graceful_ok g" "m_phase m \<noteq> M_End"
  shows "\<exists>m'. main_run g (end_events m) m = Some m' \<and> m_phase m' = M_End"
proof -
  have "main_run g (map WorkerCloses (m_streams m)) m = Some (m\<lparr>m_streams := []\<rparr>)"
    using close_all [OF assms(2), of g "m_streams m"] by (simp add: filter_empty_conv)
  then show ?thesis
    using assms by (cases "m_phase m") (simp_all add: end_events_def main_run_append main_step_defs graceful_ok_def)
qed

section \<open>Shutdown\<close>

text \<open>
  C40: neither server goroutine ever waits at its send; from every state the process can still end; but
  while some worker stays connected it does not, whatever else happens: the ten seconds given to
  the HTTP shutdown do not bound \<open>GracefulStop\<close>.
\<close>

theorem shutdown_waits_for_workers:
  assumes "graceful_ok g" "main_run g evs main_start = Some m" "m_phase m \<noteq> M_End"
  shows "(m_grpc m = G_Send res \<or> m_http m = G_Send res \<longrightarrow> length (m_errCh m) < errCh_cap)
    \<and> (\<exists>evs' m'. main_run g evs' m = Some m' \<and> m_phase m' = M_End)
    \<and> (\<forall>w evs' m'. w \<in> set (m_streams m) \<and> WorkerCloses w \<notin> set evs' \<and> main_run g evs' m = Some m' \<longrightarrow> m_phase m' \<noteq> M_End)"
proof -
  have "room main_start" by (simp add: room_def main_start_def errCh_cap_def)
  then have "room m" by (rule room_run [OF assms(2)])
  then have "m_grpc m = G_Send res \<or> m_http m = G_Send res \<longrightarrow> length (m_errCh m) < errCh_cap"
    by (auto simp: room_def)
  then show ?thesis using can_end [OF assms(1,3)] stream_stays_run [OF assms(1) _ _ _ assms(3)] by blast
qed

theorem shutdown_waits_for_workers_witness:
  "\<exists>m. main_run (\<lambda>ss. ss = []) [GrpcListen None, WorkerOpens 0, Signal, SelectSignal, ShutdownReturns] main_start = Some m
     \<and> m_phase m = M_GracefulStop \<and> main_run (\<lambda>ss. ss = []) [GracefulStopReturns] m = None
     \<and> (\<forall>evs' m'. WorkerCloses 0 \<notin> set evs' \<and> main_run (\<lambda>ss. ss = []) evs' m = Some m' \<longrightarrow> m_phase m' \<noteq> M_End)"
proof -
  let ?g = "\<lambda>ss :: nat list. ss = []"
  have g: "graceful_ok ?g" by (simp add: graceful_ok_def)
  define m where "m = \<lparr>m_phase = M_GracefulStop, m_signal = True, m_errCh = [], m_grpc = G_Serving, m_http = G_Start, m_streams = [0]\<rparr>"
  have r: "main_run ?g [GrpcListen None, WorkerOpens 0, Signal, SelectSignal, ShutdownReturns] main_start = Some m"
    by (simp add: main_step_defs main_start_def m_def)
  have p: "m_phase m = M_GracefulStop" "0 \<in> set (m_streams m)" "m_phase m \<noteq> M_End" by (simp_all add: m_def)
  have "main_run ?g [GracefulStopReturns] m = None" by (simp add: main_step_defs m_def)
  then show ?thesis using r p shutdown_waits_for_workers [OF g r p(3)] by blast
qed

end
