(* ===== verification/Api_Docs.thy ===== *)
theory Api_Docs
  imports Api_Router Session_Machine
begin

text \<open>
  The OpenAPI document that the server publishes (\<open>docs/docs.go\<close>), as data: every operation with
  its parameters and answers, and the schemas they refer to. It is compared with the routes of
  \<open>Router\<close> and with the request bodies the handlers decode.
\<close>

section \<open>The document\<close>

datatype Schema = Plain string | Ref string | ArrayOf Schema

record Parameter =
  par_name :: string
  par_in :: string
  par_description :: string
  par_required :: bool
  par_schema :: Schema

record Answer =
  ans_description :: string
  ans_schema :: "Schema option"

text \<open>An absent entry of the document is the empty list or the empty text.\<close>

record Operation =
  op_summary :: string
  op_description :: string
  op_security :: "string list"
  op_consumes :: "string list"
  op_produces :: "string list"
  op_tags :: "string list"
  op_parameters :: "Parameter list"
  op_responses :: "(nat \<times> Answer) list"

record Property =
  prop_type :: string
  prop_enum :: "string list"
  prop_example :: json

definition doc_login :: Operation where
  "doc_login = \<lparr>op_summary = ''Log in and receive a JWT'',
     op_description = '''',
     op_security = [], op_consumes = [''application/json''], op_produces = [''application/json''], op_tags = [''auth''],
     op_parameters = [\<lparr>par_name = ''body'', par_in = ''body'', par_description = ''credentials'',
       par_required = True, par_schema = Ref ''api.LoginRequest''\<rparr>],
     op_responses = [(200, \<lparr>ans_description = ''OK'', ans_schema = Some (Ref ''api.LoginResponse'')\<rparr>),
       (401, \<lparr>ans_description = ''Unauthorized'', ans_schema = Some (Ref ''api.ErrorResponse'')\<rparr>)]\<rparr>"

definition doc_logout :: Operation where
  "doc_logout = \<lparr>op_summary = ''Log out the current session'',
     op_description = '''',
     op_security = [''BearerAuth''], op_consumes = [], op_produces = [''application/json''], op_tags = [''auth''],
     op_parameters = [],
     op_responses = [(204, \<lparr>ans_description = ''No Content'', ans_schema = None\<rparr>),
       (401, \<lparr>ans_description = ''Unauthorized'', ans_schema = Some (Ref ''api.ErrorResponse'')\<rparr>)]\<rparr>"

definition doc_register :: Operation where
  "doc_register = \<lparr>op_summary = ''Register a new user'',
     op_description = '''',
     op_security = [], op_consumes = [''application/json''], op_produces = [''application/json''], op_tags = [''auth''],
     op_parameters = [\<lparr>par_name = ''body'', par_in = ''body'', par_description = ''credentials'',
       par_required = True, par_schema = Ref ''api.RegisterRequest''\<rparr>],
     op_responses = [(201, \<lparr>ans_description = ''Created'', ans_schema = Some (Ref ''api.LoginResponse'')\<rparr>),
       (400, \<lparr>ans_description = ''Bad Request'', ans_schema = Some (Ref ''api.ErrorResponse'')\<rparr>),
       (409, \<lparr>ans_description = ''username taken'', ans_schema = Some (Ref ''api.ErrorResponse'')\<rparr>)]\<rparr>"

definition doc_friends :: Operation where
  "doc_friends = \<lparr>op_summary = ''List Steam friends with online and in-match status'',
     op_description = '''',
     op_security = [''BearerAuth''], op_consumes = [], op_produces = [''application/json''], op_tags = [''friends''],
     op_parameters = [],
     op_responses = [(200, \<lparr>ans_description = ''OK'', ans_schema = Some (ArrayOf (Ref ''api.Friend''))\<rparr>),
       (401, \<lparr>ans_description = ''Unauthorized'', ans_schema = Some (Ref ''api.ErrorResponse'')\<rparr>),
       (409, \<lparr>ans_description = ''no steam account linked'', ans_schema = Some (Ref ''api.ErrorResponse'')\<rparr>),
       (502, \<lparr>ans_description = ''worker/steam error'', ans_schema = Some (Ref ''api.ErrorResponse'')\<rparr>)]\<rparr>"

definition doc_create_session :: Operation where
  "doc_create_session = \<lparr>op_summary = ''Start spectating a friend'',
     op_description = '''',
     op_security = [], op_consumes = [''application/json''], op_produces = [''application/json''], op_tags = [''sessions''],
     op_parameters = [\<lparr>par_name = ''body'', par_in = ''body'', par_description = ''target friend'',
       par_required = True, par_schema = Ref ''api.SessionRequest''\<rparr>],
     op_responses = [(201, \<lparr>ans_description = ''Created'', ans_schema = Some (Ref ''api.Session'')\<rparr>),
       (400, \<lparr>ans_description = ''Bad Request'', ans_schema = Some (Ref ''api.ErrorResponse'')\<rparr>),
       (409, \<lparr>ans_description = ''worker busy'', ans_schema = Some (Ref ''api.ErrorResponse'')\<rparr>)]\<rparr>"

definition doc_get_session :: Operation where
  "doc_get_session = \<lparr>op_summary = ''Get session status (webrtc_url present once WATCHING)'',
     op_description = '''',
     op_security = [], op_consumes = [], op_produces = [''application/json''], op_tags = [''sessions''],
     op_parameters = [\<lparr>par_name = ''id'', par_in = ''path'', par_description = ''session id'',
       par_required = True, par_schema = Plain ''string''\<rparr>],
     op_responses = [(200, \<lparr>ans_description = ''OK'', ans_schema = Some (Ref ''api.Session'')\<rparr>),
       (404, \<lparr>ans_description = ''Not Found'', ans_schema = Some (Ref ''api.ErrorResponse'')\<rparr>)]\<rparr>"

definition doc_delete_session :: Operation where
  "doc_delete_session = \<lparr>op_summary = ''Stop spectating'',
     op_description = '''',
     op_security = [], op_consumes = [], op_produces = [''application/json''], op_tags = [''sessions''],
     op_parameters = [\<lparr>par_name = ''id'', par_in = ''path'', par_description = ''session id'',
       par_required = True, par_schema = Plain ''string''\<rparr>],
     op_responses = [(204, \<lparr>ans_description = ''No Content'', ans_schema = None\<rparr>),
       (404, \<lparr>ans_description = ''Not Found'', ans_schema = Some (Ref ''api.ErrorResponse'')\<rparr>)]\<rparr>"

definition doc_session_steamguard :: Operation where
  "doc_session_steamguard = \<lparr>op_summary = ''Submit a Steam Guard code for a starting session'',
     op_description = '''',
     op_security = [], op_consumes = [''application/json''], op_produces = [''application/json''], op_tags = [''sessions''],
     op_parameters = [\<lparr>par_name = ''id'', par_in = ''path'', par_description = ''session id'',
       par_required = True, par_schema = Plain ''string''\<rparr>,
       \<lparr>par_name = ''body'', par_in = ''body'', par_description = ''guard code'',
       par_required = True, par_schema = Ref ''api.SteamGuardRequest''\<rparr>],
     op_responses = [(204, \<lparr>ans_description = ''No Content'', ans_schema = None\<rparr>),
       (400, \<lparr>ans_description = ''Bad Request'', ans_schema = Some (Ref ''api.ErrorResponse'')\<rparr>),
       (404, \<lparr>ans_description = ''Not Found'', ans_schema = Some (Ref ''api.ErrorResponse'')\<rparr>)]\<rparr>"

definition doc_list_accounts :: Operation where
  "doc_list_accounts = \<lparr>op_summary = ''List linked Steam accounts'',
     op_description = '''',
     op_security = [''BearerAuth''], op_consumes = [], op_produces = [''application/json''], op_tags = [''steam''],
     op_parameters = [],
     op_responses = [(200, \<lparr>ans_description = ''OK'', ans_schema = Some (ArrayOf (Ref ''api.SteamAccount''))\<rparr>),
       (401, \<lparr>ans_description = ''Unauthorized'', ans_schema = Some (Ref ''api.ErrorResponse'')\<rparr>)]\<rparr>"

definition doc_add_account :: Operation where
  "doc_add_account = \<lparr>op_summary = ''Link a Steam account'',
     op_description = ''With no credentials, starts a QR link (the frontend renders the'' @ CHR 0x0A # ''challenge URL pushed over the WebSocket). With steam_username +'' @ CHR 0x0A # ''steam_password, starts the email-only / no-2FA credentials link.'',
     op_security = [''BearerAuth''], op_consumes = [''application/json''], op_produces = [''application/json''], op_tags = [''steam''],
     op_parameters = [\<lparr>par_name = ''body'', par_in = ''body'', par_description = ''optional steam credentials'',
       par_required = True, par_schema = Ref ''api.SteamAccountRequest''\<rparr>],
     op_responses = [(201, \<lparr>ans_description = ''Created'', ans_schema = Some (Ref ''api.SteamAccount'')\<rparr>),
       (400, \<lparr>ans_description = ''Bad Request'', ans_schema = Some (Ref ''api.ErrorResponse'')\<rparr>),
       (401, \<lparr>ans_description = ''Unauthorized'', ans_schema = Some (Ref ''api.ErrorResponse'')\<rparr>),
       (409, \<lparr>ans_description = ''account already linked'', ans_schema = Some (Ref ''api.ErrorResponse'')\<rparr>)]\<rparr>"

definition doc_delete_account :: Operation where
  "doc_delete_account = \<lparr>op_summary = ''Remove a linked Steam account'',
     op_description = '''',
     op_security = [''BearerAuth''], op_consumes = [], op_produces = [''application/json''], op_tags = [''steam''],
     op_parameters = [\<lparr>par_name = ''id'', par_in = ''path'', par_description = ''steam account id'',
       par_required = True, par_schema = Plain ''string''\<rparr>],
     op_responses = [(204, \<lparr>ans_description = ''No Content'', ans_schema = None\<rparr>),
       (401, \<lparr>ans_description = ''Unauthorized'', ans_schema = Some (Ref ''api.ErrorResponse'')\<rparr>),
       (404, \<lparr>ans_description = ''Not Found'', ans_schema = Some (Ref ''api.ErrorResponse'')\<rparr>)]\<rparr>"

definition doc_account_steamguard :: Operation where
  "doc_account_steamguard = \<lparr>op_summary = ''Submit a Steam Guard code for a linking Steam account'',
     op_description = '''',
     op_security = [''BearerAuth''], op_consumes = [''application/json''], op_produces = [''application/json''], op_tags = [''steam''],
     op_parameters = [\<lparr>par_name = ''id'', par_in = ''path'', par_description = ''steam account id'',
       par_required = True, par_schema = Plain ''string''\<rparr>,
       \<lparr>par_name = ''body'', par_in = ''body'', par_description = ''guard code'',
       par_required = True, par_schema = Ref ''api.SteamGuardRequest''\<rparr>],
     op_responses = [(204, \<lparr>ans_description = ''No Content'', ans_schema = None\<rparr>),
       (400, \<lparr>ans_description = ''Bad Request'', ans_schema = Some (Ref ''api.ErrorResponse'')\<rparr>),
       (404, \<lparr>ans_description = ''Not Found'', ans_schema = Some (Ref ''api.ErrorResponse'')\<rparr>),
       (409, \<lparr>ans_description = ''no Steam Guard prompt in progress'', ans_schema = Some (Ref ''api.ErrorResponse'')\<rparr>),
       (502, \<lparr>ans_description = ''worker error'', ans_schema = Some (Ref ''api.ErrorResponse'')\<rparr>)]\<rparr>"

definition doc_paths :: "(string \<times> (string \<times> Operation) list) list" where
  "doc_paths = [(''/auth/login'', [(''post'', doc_login)]),
     (''/auth/logout'', [(''post'', doc_logout)]),
     (''/auth/register'', [(''post'', doc_register)]),
     (''/friends'', [(''get'', doc_friends)]),
     (''/sessions'', [(''post'', doc_create_session)]),
     (''/sessions/{id}'', [(''get'', doc_get_session), (''delete'', doc_delete_session)]),
     (''/sessions/{id}/steamguard'', [(''post'', doc_session_steamguard)]),
     (''/steam/accounts'', [(''get'', doc_list_accounts), (''post'', doc_add_account)]),
     (''/steam/accounts/{id}'', [(''delete'', doc_delete_account)]),
     (''/steam/accounts/{id}/steamguard'', [(''post'', doc_account_steamguard)])]"

definition doc_definitions :: "(string \<times> (string \<times> Property) list) list" where
  "doc_definitions = [(''api.ErrorResponse'', [(''error'', \<lparr>prop_type = ''string'', prop_enum = [], prop_example = JStr ''not implemented''\<rparr>)]),
     (''api.Friend'', [(''in_match'', \<lparr>prop_type = ''boolean'', prop_enum = [], prop_example = JBool False\<rparr>),
       (''online'', \<lparr>prop_type = ''boolean'', prop_enum = [], prop_example = JBool True\<rparr>),
       (''persona_name'', \<lparr>prop_type = ''string'', prop_enum = [], prop_example = JStr ''bob''\<rparr>),
       (''steam_id'', \<lparr>prop_type = ''string'', prop_enum = [], prop_example = JStr ''76561198000000001''\<rparr>)]),
     (''api.LoginRequest'', [(''password'', \<lparr>prop_type = ''string'', prop_enum = [], prop_example = JStr ''hunter2''\<rparr>),
       (''username'', \<lparr>prop_type = ''string'', prop_enum = [], prop_example = JStr ''alice''\<rparr>)]),
     (''api.LoginResponse'', [(''token'', \<lparr>prop_type = ''string'', prop_enum = [], prop_example = JStr ''eyJhbGciOiJIUzI1NiIsInR5cCI6IkpXVCJ9...''\<rparr>)]),
     (''api.RegisterRequest'', [(''password'', \<lparr>prop_type = ''string'', prop_enum = [], prop_example = JStr ''hunter2''\<rparr>),
       (''username'', \<lparr>prop_type = ''string'', prop_enum = [], prop_example = JStr ''alice''\<rparr>)]),
     (''api.Session'', [(''id'', \<lparr>prop_type = ''string'', prop_enum = [], prop_example = JStr ''018f8c2e-1d3a-7c1b-9e2a-0a1b2c3d4e5f''\<rparr>),
       (''match_id'', \<lparr>prop_type = ''integer'', prop_enum = [], prop_example = JNum ''7654321098''\<rparr>),
       (''state'', \<lparr>prop_type = ''string'', prop_enum = [''OFF'', ''STARTING'', ''WATCHING'', ''STOPPING''], prop_example = JStr ''WATCHING''\<rparr>),
       (''target_steam_id'', \<lparr>prop_type = ''string'', prop_enum = [], prop_example = JStr ''76561198000000001''\<rparr>),
       (''webrtc_url'', \<lparr>prop_type = ''string'', prop_enum = [], prop_example = JStr ''https://dota.example.com/webrtc/live/match''\<rparr>)]),
     (''api.SessionRequest'', [(''target_steam_id'', \<lparr>prop_type = ''string'', prop_enum = [], prop_example = JStr ''76561198000000001''\<rparr>)]),
     (''api.SteamAccount'', [(''created_at'', \<lparr>prop_type = ''string'', prop_enum = [], prop_example = JStr ''2026-06-12T10:00:00Z''\<rparr>),
       (''id'', \<lparr>prop_type = ''string'', prop_enum = [], prop_example = JStr ''018f8c2e-1d3a-7c1b-9e2a-0a1b2c3d4e5f''\<rparr>),
       (''steam_id'', \<lparr>prop_type = ''string'', prop_enum = [], prop_example = JStr ''76561198000000000''\<rparr>),
       (''steam_username'', \<lparr>prop_type = ''string'', prop_enum = [], prop_example = JStr ''alice_dota''\<rparr>)]),
     (''api.SteamAccountRequest'', [(''steam_password'', \<lparr>prop_type = ''string'', prop_enum = [], prop_example = JStr ''s3cr3t''\<rparr>),
       (''steam_username'', \<lparr>prop_type = ''string'', prop_enum = [], prop_example = JStr ''alice_dota''\<rparr>)]),
     (''api.SteamGuardRequest'', [(''code'', \<lparr>prop_type = ''string'', prop_enum = [], prop_example = JStr ''K4J9X''\<rparr>)])]"

text \<open>\<open>SwaggerInfo\<close>: what fills the header of the template.\<close>

record Spec =
  sp_Version :: string
  sp_Host :: string
  sp_BasePath :: string
  sp_Schemes :: "string list"
  sp_Title :: string
  sp_Description :: string

definition SwaggerInfo :: Spec where
  "SwaggerInfo = \<lparr>sp_Version = ''1.0'', sp_Host = '''', sp_BasePath = ''/api'', sp_Schemes = [],
     sp_Title = ''Dota Spectator Control Plane API'',
     sp_Description = ''Self-hosted service to spectate live Dota 2 matches of Steam friends.'' @ CHR 0x0A #
       ''Auth (register/login) is live; other handlers return 501 until their feature steps land.''\<rparr>"

section \<open>Reading the document\<close>

text \<open>A template in braces stands for one segment that is not empty.\<close>

fun template_matches :: "string list \<Rightarrow> string list \<Rightarrow> bool" where
  "template_matches [] [] = True"
| "template_matches (t # ts) (s # ss) = ((if t = ''{id}'' then s \<noteq> '''' else s = t) \<and> template_matches ts ss)"
| "template_matches ts ss = False"

definition method_key :: "string \<Rightarrow> string" where
  "method_key m = (if m = GET then ''get'' else if m = POST then ''post'' else if m = DELETE then ''delete'' else '''')"

definition path_item :: "string list \<Rightarrow> (string \<times> Operation) list option" where
  "path_item segs = map_option snd
     (find (\<lambda>e. template_matches (split_on CHR ''/'' (sp_BasePath SwaggerInfo @ fst e)) segs) doc_paths)"

definition documented :: "string \<Rightarrow> string \<Rightarrow> Operation option" where
  "documented m path =
     (case path_item (split_on CHR ''/'' path) of None \<Rightarrow> None | Some ops \<Rightarrow> map_of ops (method_key m))"

definition secured :: "Operation \<Rightarrow> bool" where
  "secured op \<longleftrightarrow> op_security op \<noteq> []"

text \<open>The members of the request body.\<close>

fun schema_members :: "Schema \<Rightarrow> string list option" where
  "schema_members (Ref n) = map_option (map fst) (map_of doc_definitions n)"
| "schema_members sc = None"

definition body_members :: "Operation \<Rightarrow> string list option" where
  "body_members op =
     (case find (\<lambda>p. par_in p = ''body'') (op_parameters op) of
        None \<Rightarrow> None
      | Some p \<Rightarrow> schema_members (par_schema p))"

text \<open>The operation that describes an endpoint; the two outside the base path have none.\<close>

fun doc_of :: "Endpoint \<Rightarrow> Operation option" where
  "doc_of E_Register = Some doc_register"
| "doc_of E_Login = Some doc_login"
| "doc_of E_Logout = Some doc_logout"
| "doc_of E_ListSteamAccounts = Some doc_list_accounts"
| "doc_of E_AddSteamAccount = Some doc_add_account"
| "doc_of (E_DeleteSteamAccount i) = Some doc_delete_account"
| "doc_of (E_AccountSteamGuard i) = Some doc_account_steamguard"
| "doc_of E_Friends = Some doc_friends"
| "doc_of E_CreateSession = Some doc_create_session"
| "doc_of (E_GetSession i) = Some doc_get_session"
| "doc_of (E_DeleteSession i) = Some doc_delete_session"
| "doc_of (E_SessionSteamGuard i) = Some doc_session_steamguard"
| "doc_of E_WebSocket = None"
| "doc_of E_Docs = None"

fun session_endpoint :: "Endpoint \<Rightarrow> bool" where
  "session_endpoint E_CreateSession = True"
| "session_endpoint (E_GetSession i) = True"
| "session_endpoint (E_DeleteSession i) = True"
| "session_endpoint (E_SessionSteamGuard i) = True"
| "session_endpoint _ = False"

section \<open>The document and the routes\<close>

text \<open>The path items by the segments of the path.\<close>

fun item_auth :: "string list \<Rightarrow> (string \<times> Operation) list option" where
  "item_auth [a] = (if a = ''login'' then Some [(''post'', doc_login)] else if a = ''logout'' then Some [(''post'', doc_logout)]
     else if a = ''register'' then Some [(''post'', doc_register)] else None)"
| "item_auth ss = None"

fun item_sessions :: "string list \<Rightarrow> (string \<times> Operation) list option" where
  "item_sessions [] = Some [(''post'', doc_create_session)]"
| "item_sessions [i] = (if i = '''' then None else Some [(''get'', doc_get_session), (''delete'', doc_delete_session)])"
| "item_sessions [i, a] = (if i \<noteq> '''' \<and> a = ''steamguard'' then Some [(''post'', doc_session_steamguard)] else None)"
| "item_sessions ss = None"

fun item_accounts :: "string list \<Rightarrow> (string \<times> Operation) list option" where
  "item_accounts [] = Some [(''get'', doc_list_accounts), (''post'', doc_add_account)]"
| "item_accounts [i] = (if i = '''' then None else Some [(''delete'', doc_delete_account)])"
| "item_accounts [i, a] = (if i \<noteq> '''' \<and> a = ''steamguard'' then Some [(''post'', doc_account_steamguard)] else None)"
| "item_accounts ss = None"

fun item_api :: "string list \<Rightarrow> (string \<times> Operation) list option" where
  "item_api (b # rest) =
     (if b = ''auth'' then item_auth rest else if b = ''sessions'' then item_sessions rest
      else if b = ''friends'' then (if rest = [] then Some [(''get'', doc_friends)] else None)
      else if b = ''steam'' then (case rest of c # rest' \<Rightarrow> if c = ''accounts'' then item_accounts rest' else None | [] \<Rightarrow> None)
      else None)"
| "item_api [] = None"

lemma doc_segments:
  "map (\<lambda>e. (split_on CHR ''/'' (sp_BasePath SwaggerInfo @ fst e), snd e)) doc_paths =
     map (\<lambda>(t, ops). ('''' # ''api'' # t, ops))
       [([''auth'', ''login''], [(''post'', doc_login)]), ([''auth'', ''logout''], [(''post'', doc_logout)]),
        ([''auth'', ''register''], [(''post'', doc_register)]), ([''friends''], [(''get'', doc_friends)]),
        ([''sessions''], [(''post'', doc_create_session)]),
        ([''sessions'', ''{id}''], [(''get'', doc_get_session), (''delete'', doc_delete_session)]),
        ([''sessions'', ''{id}'', ''steamguard''], [(''post'', doc_session_steamguard)]),
        ([''steam'', ''accounts''], [(''get'', doc_list_accounts), (''post'', doc_add_account)]),
        ([''steam'', ''accounts'', ''{id}''], [(''delete'', doc_delete_account)]),
        ([''steam'', ''accounts'', ''{id}'', ''steamguard''], [(''post'', doc_account_steamguard)])]"
  by (simp add: doc_paths_def SwaggerInfo_def)

lemma find_map_snd:
  "map_option snd (find (\<lambda>e. P (f e)) xs) = map_option snd (find (\<lambda>e. P (fst e)) (map (\<lambda>e. (f e, snd e)) xs))"
  by (induction xs) auto

lemma path_item_segments:
  "path_item ss = map_option snd (find (\<lambda>e. template_matches (fst e) ss)
     (map (\<lambda>e. (split_on CHR ''/'' (sp_BasePath SwaggerInfo @ fst e), snd e)) doc_paths))"
  unfolding path_item_def by (rule find_map_snd)

lemma path_item_api: "path_item ('''' # ''api'' # rest) = item_api rest"
proof (cases rest rule: item_api.cases)
  case (1 b more)
  show ?thesis
  proof (cases more)
    case Nil
    then show ?thesis by (simp add: path_item_segments doc_segments 1)
  next
    case (Cons c rest2)
    then show ?thesis
      by (cases rest2; cases "tl rest2"; cases "tl (tl rest2)") (auto simp: path_item_segments doc_segments 1)
  qed
next
  case 2
  then show ?thesis by (simp add: path_item_segments doc_segments)
qed

lemma path_item_other:
  assumes "\<nexists>rest. ss = '''' # ''api'' # rest"
  shows "path_item ss = None"
proof -
  have "\<not> template_matches ('''' # ''api'' # t) ss" for t
    using assms by (cases ss; cases "tl ss") auto
  then show ?thesis by (simp add: path_item_segments doc_segments)
qed

text \<open>The operation at a path item, in the shape of the route table.\<close>

definition op_at :: "string \<Rightarrow> (string \<times> Operation) list option \<Rightarrow> Operation option" where
  "op_at m item = (case item of None \<Rightarrow> None | Some ops \<Rightarrow> map_of ops (method_key m))"

lemma op_at_simps [simp]: "op_at m None = None" "op_at m (Some ops) = map_of ops (method_key m)"
  by (simp_all add: op_at_def)

lemma method_key_iff [simp]:
  "method_key m = ''get'' \<longleftrightarrow> m = GET" "method_key m = ''post'' \<longleftrightarrow> m = POST" "method_key m = ''delete'' \<longleftrightarrow> m = DELETE"
  "''get'' = method_key m \<longleftrightarrow> m = GET" "''post'' = method_key m \<longleftrightarrow> m = POST" "''delete'' = method_key m \<longleftrightarrow> m = DELETE"
  by (auto simp: method_key_def GET_def POST_def DELETE_def)

lemma methods_distinct [simp]: "GET \<noteq> POST" "GET \<noteq> DELETE" "POST \<noteq> DELETE" "POST \<noteq> GET" "DELETE \<noteq> GET" "DELETE \<noteq> POST"
  by (simp_all add: GET_def POST_def DELETE_def)

lemma auth_documented: "op_at m (item_auth p) = (if '''' \<in> set p then None else Option.bind (route_auth m p) doc_of)"
  by (cases p rule: item_auth.cases) (auto simp: route_auth_def)

lemma sessions_documented: "op_at m (item_sessions p) = (if '''' \<in> set p then None else Option.bind (route_sessions m p) doc_of)"
  by (cases p rule: item_sessions.cases) (auto simp: route_sessions_def)

lemma accounts_documented: "op_at m (item_accounts p) = (if '''' \<in> set p then None else Option.bind (route_accounts m p) doc_of)"
  by (cases p rule: item_accounts.cases) (auto simp: route_accounts_def)

lemma documented_op_at: "documented m path = op_at m (path_item (split_on CHR ''/'' path))"
  by (simp add: documented_def op_at_def)

lemma documented_route:
  "documented m path = (if '''' \<in> set (tl (split_on CHR ''/'' path)) then None else Option.bind (route m path) doc_of)"
proof (cases "\<exists>rest. split_on CHR ''/'' path = '''' # ''api'' # rest")
  case True
  then obtain rest where s: "split_on CHR ''/'' path = '''' # ''api'' # rest" by blast
  have d: "documented m path = op_at m (item_api rest)" by (simp add: documented_op_at s path_item_api)
  show ?thesis
  proof (cases rest rule: item_api.cases)
    case (1 b more)
    have "op_at m (item_api rest) = (if '''' \<in> set rest then None else
        Option.bind (if b = ''auth'' then route_auth m more
          else if b = ''steam'' then (case more of c # rest3 \<Rightarrow> if c = ''accounts'' then route_accounts m rest3 else None | [] \<Rightarrow> None)
          else if b = ''friends'' \<and> more = [] \<and> m = GET then Some E_Friends
          else if b = ''sessions'' then route_sessions m more else None) doc_of)"
      unfolding 1 item_api.simps if_distrib [of "op_at m"]
      by (simp add: auth_documented sessions_documented accounts_documented split: list.split)
    then show ?thesis by (simp add: d s route_def 1)
  next
    case 2
    then show ?thesis by (simp add: d s route_def)
  qed
next
  case False
  then have "Option.bind (route m path) doc_of = None"
    by (auto simp: route_def split: list.split)
  then show ?thesis using False by (simp add: documented_op_at path_item_other)
qed

text \<open>A session with all its members set has those of the document, whose states are those of the session machine.\<close>

lemma session_document:
  assumes "se_MatchID d \<noteq> 0" "se_WebRTCURL d \<noteq> ''''"
  shows "\<exists>ms. SessionDTO_json d = JObj ms \<and> map_option set (schema_members (Ref ''api.Session'')) = Some (set (map fst ms))"
    and "map_option prop_enum (Option.bind (map_of doc_definitions ''api.Session'') (\<lambda>ps. map_of ps ''state''))
      = Some [StateOff, StateStarting, StateWatching, StateStopping]"
  using assms by (auto simp: SessionDTO_json_def doc_definitions_def state_defs)

section \<open>Properties\<close>

text \<open>
  C16: the router and the published document describe the same API: a request has an operation in
  the document exactly when it is routed to an endpoint that has one (all but the WebSocket and the
  document itself) and no segment of its path is empty. Every endpoint the document secures asks
  for a token, and the others do not, except that the session endpoints do although the document
  says nothing of it. The request bodies the document shows have the members that are decoded.
\<close>

theorem document_matches_routes:
  "documented m path = (if '''' \<in> set (tl (split_on CHR ''/'' path)) then None else Option.bind (route m path) doc_of)
    \<and> map_option secured (doc_of e) =
        (if e = E_WebSocket \<or> e = E_Docs then None else Some (needs_auth e \<and> \<not> session_endpoint e))
    \<and> map_option set (body_members doc_register) = Some (set RegisterRequest)
    \<and> map_option set (body_members doc_login) = Some (set LoginRequest)
    \<and> map_option set (body_members doc_add_account) = Some (set SteamAccountRequest)
    \<and> map_option set (body_members doc_account_steamguard) = Some (set SteamGuardRequest)
    \<and> map_option set (body_members doc_create_session) = Some (set SessionRequest)"
proof -
  have "map_option secured (doc_of e) =
      (if e = E_WebSocket \<or> e = E_Docs then None else Some (needs_auth e \<and> \<not> session_endpoint e))"
    by (cases e) (simp_all add: secured_def doc_register_def doc_login_def doc_logout_def doc_list_accounts_def doc_add_account_def
        doc_delete_account_def doc_account_steamguard_def doc_friends_def doc_create_session_def doc_get_session_def
        doc_delete_session_def doc_session_steamguard_def)
  moreover have "map_option set (body_members doc_register) = Some (set RegisterRequest)"
    "map_option set (body_members doc_login) = Some (set LoginRequest)"
    "map_option set (body_members doc_add_account) = Some (set SteamAccountRequest)"
    "map_option set (body_members doc_account_steamguard) = Some (set SteamGuardRequest)"
    "map_option set (body_members doc_create_session) = Some (set SessionRequest)"
    by (auto simp: body_members_def doc_register_def doc_login_def doc_add_account_def doc_account_steamguard_def
        doc_create_session_def
        doc_definitions_def RegisterRequest_def LoginRequest_def SteamAccountRequest_def SteamGuardRequest_def SessionRequest_def)
  ultimately show ?thesis using documented_route by blast
qed

end
