(* ===== verification/Api_Contract.thy ===== *)
theory Api_Contract
  imports Api_Docs Api_Properties
begin

text \<open>
  The answers of the server against the published document: the status and the shape of the body
  of every answer, and that no request makes a handler panic.
\<close>

declare One_nat_def [simp del]

section \<open>Answers and schemas\<close>

fun has_type :: "string \<Rightarrow> json \<Rightarrow> bool" where
  "has_type t (JStr s) = (t = ''string'')"
| "has_type t (JBool b) = (t = ''boolean'')"
| "has_type t (JNum n) = (t = ''integer'')"
| "has_type t j = False"

text \<open>The members of an object are the properties of the schema, in any order, each of its type.\<close>

definition members_ok :: "(string \<times> Property) list \<Rightarrow> (string \<times> json) list \<Rightarrow> bool" where
  "members_ok props ms \<longleftrightarrow> distinct (map fst ms) \<and> set (map fst ms) = set (map fst props)
     \<and> list_all (\<lambda>(k, v). case map_of props k of None \<Rightarrow> False | Some p \<Rightarrow> has_type (prop_type p) v) ms"

primrec conforms :: "Schema \<Rightarrow> json \<Rightarrow> bool" where
  "conforms (Plain t) j = has_type t j"
| "conforms (Ref n) j =
     (case (map_of doc_definitions n, j) of (Some props, JObj ms) \<Rightarrow> members_ok props ms | _ \<Rightarrow> False)"
| "conforms (ArrayOf sc) j = (case j of JArr js \<Rightarrow> list_all (conforms sc) js | _ \<Rightarrow> False)"

definition body_conforms :: "Schema option \<Rightarrow> Body \<Rightarrow> bool" where
  "body_conforms sc b =
     (case (sc, b) of (None, NoBody) \<Rightarrow> True | (Some c, JsonBody j) \<Rightarrow> conforms c j | _ \<Rightarrow> False)"

text \<open>An answer that the document lists for the operation, with a body of the schema listed there.\<close>

definition answers_as :: "Operation \<Rightarrow> Response \<Rightarrow> bool" where
  "answers_as op resp =
     (case map_of (op_responses op) (rs_status resp) of None \<Rightarrow> False | Some a \<Rightarrow> body_conforms (ans_schema a) (rs_body resp))"

definition is_error :: "nat \<Rightarrow> Response \<Rightarrow> bool" where
  "is_error status resp \<longleftrightarrow> rs_status resp = status \<and> body_conforms (Some (Ref ''api.ErrorResponse'')) (rs_body resp)"

text \<open>
  What the document leaves out: the internal errors, the malformed login, the missing token at the
  guard code and at the session endpoints, and that the latter are stubs.
\<close>

definition undocumented :: "Endpoint \<Rightarrow> Response \<Rightarrow> bool" where
  "undocumented e resp \<longleftrightarrow>
     (is_error 500 resp \<and> e \<noteq> E_Logout \<and> \<not> session_endpoint e)
     \<or> (is_error 400 resp \<and> e = E_Login)
     \<or> (is_error 401 resp \<and> (session_endpoint e \<or> doc_of e = Some doc_account_steamguard))
     \<or> (rs_status resp = 501 \<and> rs_body resp = TextBody ''{\"error\":\"not implemented\"}'' \<and> session_endpoint e)"

definition answered_well :: "Endpoint \<Rightarrow> Response \<Rightarrow> bool" where
  "answered_well e resp \<longleftrightarrow> (case doc_of e of None \<Rightarrow> True | Some op \<Rightarrow> answers_as op resp) \<or> undocumented e resp"

text \<open>The bodies of the handlers have the schemas of their types.\<close>

lemma ErrorResponse_conforms [simp]: "conforms (Ref ''api.ErrorResponse'') (ErrorResponse m)"
  by (simp add: doc_definitions_def members_ok_def ErrorResponse_def)

lemma LoginResponse_conforms [simp]: "conforms (Ref ''api.LoginResponse'') (LoginResponse t)"
  by (simp add: doc_definitions_def members_ok_def LoginResponse_def)

lemma SteamAccount_conforms [simp]: "conforms (Ref ''api.SteamAccount'') (SteamAccountDTO_json a)"
  by (auto simp: doc_definitions_def members_ok_def SteamAccountDTO_json_def)

lemma Friend_conforms [simp]: "conforms (Ref ''api.Friend'') (FriendDTO_json f)"
  by (auto simp: doc_definitions_def members_ok_def FriendDTO_json_def)

lemma ErrorResponse_only [simp]:
  "\<not> conforms (Ref ''api.LoginResponse'') (ErrorResponse m)" "\<not> conforms (Ref ''api.SteamAccount'') (ErrorResponse m)"
  "\<not> conforms (ArrayOf sc) (ErrorResponse m)"
  by (simp_all add: doc_definitions_def members_ok_def ErrorResponse_def)

lemma conforms_Array [simp]: "conforms (ArrayOf sc) (JArr js) \<longleftrightarrow> list_all (conforms sc) js"
  by simp

lemma body_conforms_simps [simp]:
  "body_conforms None NoBody" "\<not> body_conforms None (JsonBody j)" "body_conforms (Some c) (JsonBody j) = conforms c j"
  by (simp_all add: body_conforms_def)

lemma response_parts [simp]:
  "rs_status (writeError st m) = st" "rs_body (writeError st m) = JsonBody (ErrorResponse m)"
  "rs_status (writeJSON st j) = st" "rs_body (writeJSON st j) = JsonBody j"
  "rs_status (writeHeader st) = st" "rs_body (writeHeader st) = NoBody"
  by (simp_all add: writeError_def writeJSON_def writeHeader_def)

lemma is_error_writeError [simp]: "is_error st (writeError st' m) \<longleftrightarrow> st' = st"
  by (simp add: is_error_def del: conforms.simps)

declare conforms.simps [simp del]

lemmas documents = doc_register_def doc_login_def doc_logout_def doc_list_accounts_def doc_add_account_def
  doc_delete_account_def doc_account_steamguard_def doc_friends_def

lemmas contract_defs = answered_well_def answers_as_def undocumented_def documents

section \<open>No panics\<close>

lemma Hash_not_Panic:
  assumes "deps_ok D"
  shows "Hash (d_crypto D) (d_hasher D) pw r \<noteq> (Panic, r')"
proof -
  have a: "argon2_ok (d_crypto D)" "params_ok (hparams (d_hasher D))" using assms by (simp_all add: deps_ok_def)
  have "bind_outcome (derive (d_crypto D) (d_hasher D) pw salt (hparams (d_hasher D))) (\<lambda>key. Ok (f key)) \<noteq> Panic"
    for salt and f :: "bytes \<Rightarrow> string"
  proof -
    obtain key where "derive (d_crypto D) (d_hasher D) pw salt (hparams (d_hasher D)) = Ok key"
      unfolding derive_def by (rule IDKey_Ok [OF a])
    then show ?thesis by simp
  qed
  then show ?thesis by (simp add: Hash_def split: option.splits prod.splits)
qed

lemma NewSalt_not_Panic: "NewSalt n r \<noteq> (Panic, r')"
  by (simp add: NewSalt_def split: option.splits prod.splits)

lemma GetByUserID_not_Panic: "GetByUserID pg uid d \<noteq> (Panic, d')"
  by (auto simp: GetByUserID_def run_sql_def Let_def split: option.splits sum.splits prod.splits if_splits)

lemma Create_account_not_Panic: "SteamAccountStore_Create pg now uid n d \<noteq> (Panic, d')"
  by (auto simp: SteamAccountStore_Create_def run_sql_def Let_def split: option.splits sum.splits prod.splits if_splits)

lemma Delete_account_not_Panic: "SteamAccountStore_Delete pg uid i d \<noteq> (Panic, d')"
  by (auto simp: SteamAccountStore_Delete_def run_sql_def exec_one_def Let_def split: option.splits sum.splits prod.splits if_splits)

lemma Create_user_not_Panic: "UserStore_Create pg now n h s d \<noteq> (Panic, d')"
  by (auto simp: UserStore_Create_def Let_def split: option.splits sum.splits prod.splits if_splits)

lemma GetByUsername_not_Panic: "UserStore_GetByUsername pg n d \<noteq> (Panic, d')"
  by (auto simp: UserStore_GetByUsername_def Let_def split: option.splits sum.splits prod.splits if_splits)

lemma VerifyToken_not_Panic: "deps_ok D \<Longrightarrow> VerifyToken (d_jwt D) tm now tok \<noteq> Panic"
  using jwt_parse_not_Panic by (auto simp: VerifyToken_def deps_ok_def split: outcome.splits)

lemmas not_Panic = NewSalt_not_Panic GetByUserID_not_Panic Create_account_not_Panic Delete_account_not_Panic
  Create_user_not_Panic GetByUsername_not_Panic

section \<open>Each handler\<close>

lemma cacheKeyAndIssue_answer:
  assumes "deps_ok D"
  obtains tok where "fst (cacheKeyAndIssue D r i pw salt st s) = writeJSON st (LoginResponse tok)"
proof -
  obtain key where "DeriveKey (d_crypto D) pw salt = Ok key" using assms DeriveKey_Ok by (metis deps_ok_def)
  moreover obtain tok where "Issue (d_jwt D) (d_tokens D) (rq_clock r 2) i = Ok tok"
    using assms Issue_Ok [of "d_jwt D" "d_tokens D" "rq_clock r 2" i] by (auto simp: deps_ok_def)
  ultimately show ?thesis using that [of tok] by (simp add: cacheKeyAndIssue_def issueToken_def)
qed

lemma issued_well:
  assumes "deps_ok D"
  shows "answered_well E_Register (fst (cacheKeyAndIssue D r i pw salt 201 s))"
    "answered_well E_Login (fst (cacheKeyAndIssue D r i pw salt 200 s))"
  by (rule cacheKeyAndIssue_answer [OF assms, of r i pw salt 201 s], simp add: contract_defs)
    (rule cacheKeyAndIssue_answer [OF assms, of r i pw salt 200 s], simp add: contract_defs)

text \<open>The errors a handler may answer.\<close>

lemma errors_well [simp]:
  "answered_well E_Register (writeError st m) \<longleftrightarrow> st \<in> {400, 409, 500}"
  "answered_well E_Login (writeError st m) \<longleftrightarrow> st \<in> {400, 401, 500}"
  "answered_well E_Logout (writeError st m) \<longleftrightarrow> st = 401"
  "answered_well E_ListSteamAccounts (writeError st m) \<longleftrightarrow> st \<in> {401, 500}"
  "answered_well E_AddSteamAccount (writeError st m) \<longleftrightarrow> st \<in> {400, 401, 409, 500}"
  "answered_well (E_DeleteSteamAccount i) (writeError st m) \<longleftrightarrow> st \<in> {401, 404, 500}"
  "answered_well (E_AccountSteamGuard i) (writeError st m) \<longleftrightarrow> st \<in> {400, 401, 404, 409, 500, 502}"
  "answered_well E_Friends (writeError st m) \<longleftrightarrow> st \<in> {401, 409, 500, 502}"
  by (auto simp: contract_defs)

lemma Register_well:
  assumes "deps_ok D"
  shows "answered_well E_Register (fst (Register D r s))"
  using Hash_not_Panic [OF assms] issued_well(1) [OF assms] not_Panic
  by (auto simp: Register_def split: option.splits outcome.splits prod.splits)

lemma Login_well:
  assumes D: "deps_ok D" and inv: "api_inv D s"
  shows "answered_well E_Login (fst (Login D r s))"
proof -
  have "Verify (d_crypto D) (d_hasher D) pw (u_PasswordHash u) \<noteq> Panic"
    if "UserStore_GetByUsername (d_pg D) n (s_db s) = (Ok u, d')" for n u d' pw
  proof -
    have "u \<in> set (users (s_db s))"
      using that by (auto simp: UserStore_GetByUsername_def select_user_def Let_def find_Some_iff split: option.splits if_splits sum.splits)
    then obtain b where "Verify (d_crypto D) (d_hasher D) pw (u_PasswordHash u) = Ok b"
      using inv unfolding api_inv_def hash_good_def by blast
    then show ?thesis by simp
  qed
  then show ?thesis
    using issued_well(2) [OF D] not_Panic by (auto simp: Login_def split: option.splits outcome.splits prod.splits)
qed

lemma Logout_well: "answered_well E_Logout (fst (Logout ctx r s))"
  by (simp add: Logout_def contract_defs)

lemma ListSteamAccounts_well: "answered_well E_ListSteamAccounts (fst (ListSteamAccounts D ctx r s))"
  using not_Panic by (auto simp: ListSteamAccounts_def contract_defs split: option.splits outcome.splits prod.splits)

lemma AddSteamAccount_well: "answered_well E_AddSteamAccount (fst (AddSteamAccount D ctx r s))"
  using not_Panic by (auto simp: AddSteamAccount_def contract_defs split: option.splits outcome.splits prod.splits)

lemma DeleteSteamAccount_well: "answered_well (E_DeleteSteamAccount i) (fst (DeleteSteamAccount D i ctx r s))"
  using not_Panic by (auto simp: DeleteSteamAccount_def contract_defs split: option.splits outcome.splits prod.splits)

lemma SubmitAccountSteamGuard_well:
  assumes inv: "api_inv D s" and np: "\<And>n q c. d_submit D n q c \<noteq> Panic"
  shows "answered_well (E_AccountSteamGuard i) (fst (SubmitAccountSteamGuard D i ctx r s))"
proof -
  have "d_links D" if "getLinkReq i s = Some q" for q
    using inv that by (auto simp: api_inv_def reqs_ok_def getLinkReq_def)
  then show ?thesis
    using not_Panic np
    by (auto simp: SubmitAccountSteamGuard_def contract_defs split: option.splits outcome.splits prod.splits)
qed

lemma ListFriends_well:
  assumes "\<And>n tok. d_friends D n tok \<noteq> Panic"
  shows "answered_well E_Friends (fst (ListFriends D ctx r s))"
  using not_Panic assms
  by (auto simp: ListFriends_def contract_defs Let_def list_all_iff split: option.splits outcome.splits prod.splits)

lemma handler_well:
  assumes D: "deps_ok D" and inv: "api_inv D s" and e: "doc_of e \<noteq> None"
    and np: "\<And>n tok. d_friends D n tok \<noteq> Panic" "\<And>n q c. d_submit D n q c \<noteq> Panic"
  shows "answered_well e (fst (handler_of D P e ctx r s))"
proof (cases "session_endpoint e")
  case True
  then have "handler_of D P e ctx = notImplemented" by (cases e) simp_all
  then show ?thesis using True by (simp add: answered_well_def undocumented_def notImplemented_def)
next
  case False
  with e show ?thesis
    by (cases e) (simp_all add: Register_well [OF D] Login_well [OF D inv] Logout_well ListSteamAccounts_well AddSteamAccount_well
        DeleteSteamAccount_well SubmitAccountSteamGuard_well [OF inv np(2)] ListFriends_well [OF np(1)])
qed

lemma unauthorized_well: "needs_auth e \<Longrightarrow> answered_well e (writeError 401 m)"
  by (cases "session_endpoint e") (simp add: answered_well_def undocumented_def, cases e, simp_all)

section \<open>Property\<close>

text \<open>
  C15: every answer to an operation of the published document is one the document lists for it,
  with a body of the schema listed there; the exceptions are an internal error with an error body,
  a malformed login (400), a missing or invalid token at the guard code and the session endpoints
  (401), and the stubs of the session endpoints (501). In particular no request makes a handler
  panic, as long as the calls on the worker do not.
\<close>

theorem answers_follow_document:
  assumes "deps_ok D" "api_reachable D P s" "route (rq_method r) (rq_path r) = Some e" "doc_of e = Some op"
    and "\<And>n tok. d_friends D n tok \<noteq> Panic" "\<And>n q c. d_submit D n q c \<noteq> Panic"
  shows "answers_as op (fst (serve D P r s)) \<or> undocumented e (fst (serve D P r s))"
proof -
  have inv: "api_inv D s" by (rule api_inv_reachable [OF assms(1,2)])
  have h: "answered_well e (fst (handler_of D P e ctx r s))" for ctx
    using handler_well [OF assms(1) inv _ assms(5,6)] assms(4) by simp
  have v: "VerifyToken (d_jwt D) (d_tokens D) now tok \<noteq> Panic" for now tok
    by (rule VerifyToken_not_Panic [OF assms(1)])
  have "answered_well e (fst (requireAuth D (handler_of D P e) r s))" if "needs_auth e"
    using h v unauthorized_well [OF that] by (auto simp: requireAuth_def split: option.splits outcome.splits)
  then have "answered_well e (fst (serve D P r s))" using h by (simp add: serve_def assms(3))
  then show ?thesis by (simp add: answered_well_def assms(4))
qed

theorem answers_follow_document_witness:
  "let resp = fst (serve ref_deps ref_platform (post ''/api/auth/login'' '''' ann_body) ref_api)
   in answers_as doc_login resp \<or> undocumented E_Login resp"
proof -
  have r: "route (rq_method (post ''/api/auth/login'' '''' ann_body)) (rq_path (post ''/api/auth/login'' '''' ann_body)) = Some E_Login"
    by (simp add: post_def route_def route_auth_def POST_def)
  have "d_friends ref_deps n tok \<noteq> Panic" "d_submit ref_deps n q c \<noteq> Panic" for n tok q c
    by (simp_all add: ref_deps_def)
  then show ?thesis
    using answers_follow_document [OF ref_deps_ok ref_api_reachable r, of doc_login] by auto
qed

end
