(* ===== verification/Api_Expiry.thy ===== *)
theory Api_Expiry
  imports Api_Steam
begin

text \<open>
  The expiry of a stored refresh token: what \<open>splitJWT\<close> and \<open>expiryFromJWT\<close> read from the token,
  against the format of a JWT.
\<close>

section \<open>Splitting\<close>

lemma splitJWT_loop_split:
  "splitJWT_loop seg t = (seg @ hd (split_on CHR ''.'' t)) # tl (split_on CHR ''.'' t)"
  by (induction seg t rule: splitJWT_loop.induct) (auto split: list.split)

lemma splitJWT_split_on: "splitJWT t = split_on CHR ''.'' t"
  using splitJWT_loop_split [of "[]" t] by (simp add: splitJWT_def)

section \<open>The claim\<close>

text \<open>The members that name the field.\<close>

definition members_for :: "string \<Rightarrow> (string \<times> json) list \<Rightarrow> (string \<times> json) list" where
  "members_for f ms = filter (\<lambda>m. field_for [f] (fst m) \<noteq> None) ms"

lemma decode_int_none: "members_for f ms = [] \<Longrightarrow> decode_int f ms v = Some v"
  by (induction ms) (auto simp: members_for_def split: if_splits)

lemma decode_int_one: "members_for f ms = [(k, JNum lit)] \<Longrightarrow> decode_int f ms v = parse_int64 lit"
proof (induction ms)
  case (Cons m ms)
  then show ?case
    by (cases m) (auto simp: members_for_def decode_int_none [unfolded members_for_def] split: if_splits option.splits)
qed (simp add: members_for_def)

section \<open>Property\<close>

text \<open>
  C33: \<open>splitJWT\<close> cuts a token at exactly its dots, so that joining the segments gives it back. The
  expiry of a token whose second segment is the base64url of a JSON object with an integer
  \<open>exp\<close> is that second of Unix time, whatever its other claims, its header and its signature are;
  a token without an \<open>exp\<close>, with \<open>exp\<close> zero, or without a dot has no expiry.
\<close>

theorem token_expiry_is_exp_claim:
  assumes "CHR ''.'' \<notin> set h" "rest = [] \<or> hd rest = CHR ''.''"
    and "Unmarshal_value (string_of_bytes p) = Some (JObj ms)" "members_for ''exp'' ms = map (Pair k \<circ> JNum) lits" "length lits \<le> 1"
  shows "splitJWT t = split_on CHR ''.'' t \<and> join_with CHR ''.'' (splitJWT t) = t \<and> expiryFromJWT h = None
    \<and> expiryFromJWT (h @ CHR ''.'' # b64_encode URLAlphabet p @ rest) =
        (case lits of [] \<Rightarrow> None
         | lit # _ \<Rightarrow> (case parse_int64 lit of None \<Rightarrow> None | Some e \<Rightarrow> if e = 0 then None else Some (e * Second)))"
proof -
  let ?t = "h @ CHR ''.'' # b64_encode URLAlphabet p @ rest"
  obtain more' where s: "splitJWT ?t = h # b64_encode URLAlphabet p # more'"
    using split_token [OF assms(1) dot_not_in_URL assms(2), of p] unfolding splitJWT_split_on by blast
  have x: "expiryFromJWT ?t = (case exp_claim (JObj ms) of None \<Rightarrow> None | Some e \<Rightarrow> if e = 0 then None else Some (e * Second))"
    by (simp add: expiryFromJWT_def s b64_decode_encode URLAlphabet_ok assms(3))
  have h: "expiryFromJWT h = None" by (simp add: expiryFromJWT_def splitJWT_split_on split_on_no_sep [OF assms(1)])
  show ?thesis
  proof (cases lits)
    case Nil
    with h assms(4) show ?thesis by (simp add: x splitJWT_split_on join_with_split_on decode_int_none)
  next
    case (Cons lit lits')
    with assms(4,5) have "members_for ''exp'' ms = [(k, JNum lit)]" by simp
    with h Cons show ?thesis by (simp add: x splitJWT_split_on join_with_split_on decode_int_one split: option.split)
  qed
qed

theorem token_expiry_is_exp_claim_witness:
  "expiryFromJWT ''e30.eyJleHAiOjd9.s'' = Some (7 * Second) \<and> splitJWT ''e30.eyJleHAiOjd9.s'' = [''e30'', ''eyJleHAiOjd9'', ''s'']"
proof -
  let ?p = "bytes_of_string ''{\"exp\":7}''"
  have "code CHR ''7'' \<notin> {32, 9, 10, 13, 123, 91}" "p_scalar CHR ''7'' ''}'' = Some (JNum ''7'', ''}'')" by (code_simp, code_simp)
  then have v: "p_value d ''7}'' = Some (JNum ''7'', ''}'')" for d using p_value_scalar [of "CHR ''7''" d "''}''"] by metis
  have k: "p_key ''\"exp\":7}'' = Some (''exp'', ''7}'')" by code_simp
  have "p_value (Suc d) ''{\"exp\":7}'' = Some (JObj [(''exp'', JNum ''7'')], [])" for d
    by (simp add: p_object_def k v skip_ws_Cons code_def is_space_def)
  then have "p_value maxNestingDepth ''{\"exp\":7}'' = Some (JObj [(''exp'', JNum ''7'')], [])"
    by (metis maxNestingDepth_def numeral_eq_Suc)
  then have u: "Unmarshal_value (string_of_bytes ?p) = Some (JObj [(''exp'', JNum ''7'')])"
    by (simp add: Unmarshal_value_def)
  have m: "members_for ''exp'' [(''exp'', JNum ''7'')] = map (Pair ''exp'' \<circ> JNum) [''7'']" by code_simp
  have "map unat ?p = [123, 34, 101, 120, 112, 34, 58, 55, 125]" by (simp add: bytes_of_string_def unat_of_nat)
  then have b: "b64_encode URLAlphabet ?p = ''eyJleHAiOjd9''" by (simp add: b64_encode_def URLAlphabet_def Let_def)
  have i: "parse_int64 ''7'' = Some 7" by code_simp
  show ?thesis
    using token_expiry_is_exp_claim [of "''e30''" "''.s''", OF _ _ u m, of "''e30.eyJleHAiOjd9.s''"] by (simp add: b i)
qed

end
