(* ===== verification/Goroutines.thy ===== *)
theory Goroutines
  imports Control_Prelude
begin

text \<open>
  Goroutines over a shared state, as what they do between two accesses to it, and the proof rule for
  any number of them: an invariant of the state, and a relation that every action of every
  goroutine keeps it within, from which each goroutine may keep what it knows.
\<close>

text \<open>\<open>Act f k\<close>: apply \<open>f\<close> to the shared state; how to go on may depend on the state that was there before.\<close>

datatype ('s, 'a) prog = Done 'a | Act "'s \<Rightarrow> 's" "'s \<Rightarrow> ('s, 'a) prog"

text \<open>Running a goroutine alone.\<close>

primrec alone :: "('s, 'a) prog \<Rightarrow> 's \<Rightarrow> 'a \<times> 's" where
  "alone (Done a) = (\<lambda>s. (a, s))"
| "alone (Act f k) = (\<lambda>s. alone (k s) (f s))"

section \<open>Termination\<close>

text \<open>At most so many actions, whatever the others do between them.\<close>

fun at_most :: "nat \<Rightarrow> ('s, 'a) prog \<Rightarrow> bool" where
  "at_most n (Done a) = True"
| "at_most 0 (Act f k) = False"
| "at_most (Suc n) (Act f k) = (\<forall>s. at_most n (k s))"

lemma at_most_mono: "at_most n p \<Longrightarrow> n \<le> m \<Longrightarrow> at_most m p"
proof (induction n p arbitrary: m rule: at_most.induct)
  case (3 n f k)
  then obtain m' where "m = Suc m'" "n \<le> m'" by (cases m) auto
  with 3 show ?case by auto
qed simp_all

definition rest_after :: "('s, 'a) prog \<Rightarrow> ('s, 'a) prog \<Rightarrow> bool" where
  "rest_after q p \<longleftrightarrow> (\<exists>f k s. p = Act f k \<and> q = k s)"

lemma rest_after_wf: "wfP (rest_after :: ('s, 'a) prog \<Rightarrow> ('s, 'a) prog \<Rightarrow> bool)"
proof (rule wfpUNIVI)
  fix Q :: "('s, 'a) prog \<Rightarrow> bool" and p
  assume step: "\<forall>p. (\<forall>q. rest_after q p \<longrightarrow> Q q) \<longrightarrow> Q p"
  have *: "Q p" if "\<And>q. rest_after q p \<Longrightarrow> Q q" for p using step that by blast
  show "Q p"
  proof (induction p)
    case (Done a)
    show ?case by (rule *) (simp add: rest_after_def)
  next
    case (Act f k)
    show ?case by (rule *) (use Act in \<open>auto simp: rest_after_def\<close>)
  qed
qed

section \<open>What a goroutine may rely on\<close>

primrec safe :: "('s \<Rightarrow> bool) \<Rightarrow> ('s \<Rightarrow> 's \<Rightarrow> bool) \<Rightarrow> ('s, 'a) prog \<Rightarrow> 's \<Rightarrow> bool" where
  "safe invar grows (Done a) = (\<lambda>s. True)"
| "safe invar grows (Act f k) = (\<lambda>s. \<forall>s'. grows s s' \<and> invar s' \<longrightarrow>
     invar (f s') \<and> grows s' (f s') \<and> safe invar grows (k s') (f s'))"

locale shared_state =
  fixes invar :: "'s \<Rightarrow> bool" and grows :: "'s \<Rightarrow> 's \<Rightarrow> bool"
  assumes grows_refl: "grows s s"
    and grows_trans: "grows s t \<Longrightarrow> grows t u \<Longrightarrow> grows s u"
begin

lemma safe_later: "safe invar grows p s \<Longrightarrow> grows s t \<Longrightarrow> safe invar grows p t"
  by (cases p) (auto intro: grows_trans)

lemma safe_act: "safe invar grows (Act f k) s \<Longrightarrow> invar s \<Longrightarrow> invar (f s) \<and> grows s (f s) \<and> safe invar grows (k s) (f s)"
  using grows_refl by auto

lemma alone_keeps: "safe invar grows p s \<Longrightarrow> invar s \<Longrightarrow> invar (snd (alone p s)) \<and> grows s (snd (alone p s))"
proof (induction p arbitrary: s)
  case (Done a)
  then show ?case by (simp add: grows_refl)
next
  case (Act f k)
  note a = safe_act [OF Act.prems]
  then show ?case using Act.IH [OF rangeI, of s "f s"] grows_trans by auto
qed

text \<open>One of a pool of goroutines acts: the state keeps the invariant, and all of them stay safe.\<close>

lemma pool_act:
  assumes pool: "\<forall>(x, p) \<in> set ps. safe invar grows p s" and i: "i < length ps" "ps ! i = (x, Act f k)" and invar: "invar s"
  shows "invar (f s) \<and> grows s (f s) \<and> (\<forall>(x, p) \<in> set (ps[i := (x, k s)]). safe invar grows p (f s))"
proof -
  have "(x, Act f k) \<in> set ps" using i by (metis nth_mem)
  then have "safe invar grows (Act f k) s" using pool by blast
  from safe_act [OF this invar] have a: "invar (f s)" "grows s (f s)" "safe invar grows (k s) (f s)" by auto
  have "safe invar grows p (f s)" if "(y, p) \<in> set (ps[i := (x, k s)])" for y p
  proof -
    from that set_update_subset_insert consider "(y, p) = (x, k s)" | "(y, p) \<in> set ps" by fast
    then show ?thesis
    proof cases
      case 2
      then have "safe invar grows p s" using pool by blast
      then show ?thesis by (rule safe_later [OF _ a(2)])
    qed (use a(3) in simp)
  qed
  then show ?thesis using a by blast
qed

lemma pool_later:
  "\<forall>(x, p) \<in> set ps. safe invar grows p s \<Longrightarrow> grows s t \<Longrightarrow> \<forall>(x, p) \<in> set ps. safe invar grows p t"
  using safe_later by fast

end

end
