(* ===== verification/Api_Threads.thy ===== *)
theory Api_Threads
  imports Api_Router Goroutines
begin

text \<open>
  The handlers and callbacks of \<open>internal/api\<close> as goroutines: what each does between two accesses to
  shared state is one atomic action, in the order of the source. A lookup or change under a mutex,
  an SQL statement, a read of the random source and a call on a worker interface are actions; any
  number of goroutines interleave between them.
\<close>

section \<open>Actions\<close>

type_synonym 'a goroutine = "(Api, 'a) prog"

definition on_db :: "(Db \<Rightarrow> 'x \<times> Db) \<Rightarrow> ('x \<Rightarrow> 'a goroutine) \<Rightarrow> 'a goroutine" where
  "on_db q k = Act (\<lambda>s. s\<lparr>s_db := snd (q (s_db s))\<rparr>) (\<lambda>s. k (fst (q (s_db s))))"

definition on_keys :: "(KeyCache \<Rightarrow> 'x \<times> KeyCache) \<Rightarrow> ('x \<Rightarrow> 'a goroutine) \<Rightarrow> 'a goroutine" where
  "on_keys q k = Act (\<lambda>s. s\<lparr>s_keys := snd (q (s_keys s))\<rparr>) (\<lambda>s. k (fst (q (s_keys s))))"

definition on_rand :: "(rng \<Rightarrow> 'x \<times> rng) \<Rightarrow> ('x \<Rightarrow> 'a goroutine) \<Rightarrow> 'a goroutine" where
  "on_rand q k = Act (\<lambda>s. s\<lparr>s_rand := snd (q (s_rand s))\<rparr>) (\<lambda>s. k (fst (q (s_rand s))))"

section \<open>The handlers\<close>

definition cache_steps :: "Deps \<Rightarrow> Request \<Rightarrow> string \<Rightarrow> string \<Rightarrow> bytes \<Rightarrow> nat \<Rightarrow> Response goroutine" where
  "cache_steps D r userID password salt status =
     (case DeriveKey (d_crypto D) password salt of
        Ok key \<Rightarrow> Act (\<lambda>s. s\<lparr>s_keys := Put (rq_clock r 1) userID key (s_keys s)\<rparr>)
          (\<lambda>s. Done (issueToken D (rq_clock r 2) userID status))
      | _ \<Rightarrow> Done recovered)"

definition Register_steps :: "Deps \<Rightarrow> Request \<Rightarrow> Response goroutine" where
  "Register_steps D r =
     (case decodeJSON RegisterRequest r of
        None \<Rightarrow> Done (writeError 400 ''invalid request body'')
      | Some req \<Rightarrow>
          if req ''username'' = '''' \<or> req ''password'' = ''''
          then Done (writeError 400 ''username and password are required'')
          else on_rand (Hash (d_crypto D) (d_hasher D) (req ''password''))
            (\<lambda>h. case h of
               Panic \<Rightarrow> Done recovered
             | Fail e \<Rightarrow> Done (writeError 500 ''could not hash password'')
             | Ok hash \<Rightarrow> on_rand (NewSalt KDFSaltLen)
                 (\<lambda>n. case n of
                    Panic \<Rightarrow> Done recovered
                  | Fail e \<Rightarrow> Done (writeError 500 ''could not generate salt'')
                  | Ok salt \<Rightarrow> on_db (UserStore_Create (d_pg D) (rq_clock r 0) (req ''username'') hash salt)
                      (\<lambda>c. case c of
                         Panic \<Rightarrow> Done recovered
                       | Fail e \<Rightarrow> Done (if errors_Is e ErrUsernameTaken then writeError 409 ''username already taken''
                           else writeError 500 ''could not create user'')
                       | Ok i \<Rightarrow> cache_steps D r i (req ''password'') salt 201))))"

definition Login_steps :: "Deps \<Rightarrow> Request \<Rightarrow> Response goroutine" where
  "Login_steps D r =
     (case decodeJSON LoginRequest r of
        None \<Rightarrow> Done (writeError 400 ''invalid request body'')
      | Some req \<Rightarrow> on_db (UserStore_GetByUsername (d_pg D) (req ''username''))
          (\<lambda>q. case q of
             Panic \<Rightarrow> Done recovered
           | Fail e \<Rightarrow> Done (if errors_Is e ErrUserNotFound then writeError 401 ''invalid credentials''
               else writeError 500 ''login failed'')
           | Ok user \<Rightarrow>
               (case Verify (d_crypto D) (d_hasher D) (req ''password'') (u_PasswordHash user) of
                  Panic \<Rightarrow> Done recovered
                | Fail e \<Rightarrow> Done (writeError 401 ''invalid credentials'')
                | Ok good \<Rightarrow>
                    if \<not> good then Done (writeError 401 ''invalid credentials'')
                    else cache_steps D r (u_ID user) (req ''password'') (u_KDFSalt user) 200)))"

definition Logout_steps :: "string option \<Rightarrow> Response goroutine" where
  "Logout_steps ctx =
     (case ctx of
        None \<Rightarrow> Done (writeHeader 204)
      | Some uid \<Rightarrow> Act (\<lambda>s. s\<lparr>s_keys := Delete uid (s_keys s)\<rparr>) (\<lambda>s. Done (writeHeader 204)))"

text \<open>\<open>startAccountLink\<close>: draw the request id, note it as in flight, hand the link to the provider.\<close>

definition start_steps :: "Deps \<Rightarrow> string \<Rightarrow> string \<Rightarrow> string \<Rightarrow> bytes \<Rightarrow> 'a goroutine \<Rightarrow> 'a goroutine" where
  "start_steps D accountID username password key rest =
     (if \<not> d_links D then rest
      else on_rand newLinkID (\<lambda>reqID.
        Act (setLinkReq accountID reqID) (\<lambda>s.
        Act (\<lambda>s. s\<lparr>s_started := s_started s @ [\<lparr>ls_reqID = reqID, ls_username = username, ls_password = password,
          ls_accountID = accountID, ls_key = key\<rparr>]\<rparr>) (\<lambda>s. rest))))"

definition AddSteamAccount_steps :: "Deps \<Rightarrow> string option \<Rightarrow> Request \<Rightarrow> Response goroutine" where
  "AddSteamAccount_steps D ctx r =
     (case ctx of
        None \<Rightarrow> Done (writeError 401 ''unauthorized'')
      | Some uid \<Rightarrow>
          (case decodeJSON SteamAccountRequest r of
             None \<Rightarrow> Done (writeError 400 ''invalid request body'')
           | Some req \<Rightarrow>
               if (req ''steam_username'' = '''') \<noteq> (req ''steam_password'' = '''')
               then Done (writeError 400 ''steam_username and steam_password must be provided together'')
               else on_keys (Get (rq_clock r 1) uid)
                 (\<lambda>k. case k of
                    None \<Rightarrow> Done (writeError 401 ''session expired, please log in again'')
                  | Some key \<Rightarrow> on_db (SteamAccountStore_Create (d_pg D) (rq_clock r 2) uid (req ''steam_username''))
                      (\<lambda>c. case c of
                         Panic \<Rightarrow> Done recovered
                       | Fail e \<Rightarrow> Done (if errors_Is e ErrSteamAccountExists then writeError 409 ''a steam account is already linked''
                           else writeError 500 ''could not link steam account'')
                       | Ok i \<Rightarrow> start_steps D i (req ''steam_username'') (req ''steam_password'') key
                           (Done (writeJSON 201 (SteamAccountDTO_json \<lparr>dto_ID = i, dto_SteamID = '''',
                              dto_SteamUsername = req ''steam_username'', dto_CreatedAt = ''''\<rparr>)))))))"

definition SubmitAccountSteamGuard_steps :: "Deps \<Rightarrow> string \<Rightarrow> string option \<Rightarrow> Request \<Rightarrow> Response goroutine" where
  "SubmitAccountSteamGuard_steps D accID ctx r =
     (case ctx of
        None \<Rightarrow> Done (writeError 401 ''unauthorized'')
      | Some uid \<Rightarrow>
          (case decodeJSON SteamGuardRequest r of
             None \<Rightarrow> Done (writeError 400 ''invalid request body'')
           | Some req \<Rightarrow>
               if req ''code'' = '''' then Done (writeError 400 ''code is required'')
               else on_db (GetByUserID (d_pg D) uid)
                 (\<lambda>g. case g of
                    Panic \<Rightarrow> Done recovered
                  | Fail e \<Rightarrow> Done (if errors_Is e ErrSteamAccountNotFound then writeError 404 ''steam account not found''
                      else writeError 500 ''could not load steam account'')
                  | Ok account \<Rightarrow>
                      if sa_ID account \<noteq> accID then Done (writeError 404 ''steam account not found'')
                      else Act id (\<lambda>s. case getLinkReq accID s of
                           None \<Rightarrow> Done (writeError 409 ''no steam guard prompt in progress'')
                         | Some reqID \<Rightarrow>
                             if \<not> d_links D then Done recovered
                             else Act (\<lambda>s. s\<lparr>s_submitted := s_submitted s @ [(reqID, req ''code'')]\<rparr>)
                               (\<lambda>s. case d_submit D (length (s_submitted s)) reqID (req ''code'') of
                                  Panic \<Rightarrow> Done recovered
                                | Fail e \<Rightarrow> Done (writeError 502 ''could not submit steam guard code'')
                                | Ok u \<Rightarrow> Done (writeHeader 204))))))"

definition ListSteamAccounts_steps :: "Deps \<Rightarrow> string option \<Rightarrow> Response goroutine" where
  "ListSteamAccounts_steps D ctx =
     (case ctx of
        None \<Rightarrow> Done (writeError 401 ''unauthorized'')
      | Some uid \<Rightarrow> on_db (GetByUserID (d_pg D) uid)
          (\<lambda>g. case g of
             Panic \<Rightarrow> Done recovered
           | Fail e \<Rightarrow> Done (if errors_Is e ErrSteamAccountNotFound then writeJSON 200 (JArr [])
               else writeError 500 ''could not list steam accounts'')
           | Ok account \<Rightarrow> Done (writeJSON 200 (JArr [SteamAccountDTO_json (toSteamAccountDTO D account)]))))"

definition DeleteSteamAccount_steps :: "Deps \<Rightarrow> string \<Rightarrow> string option \<Rightarrow> Response goroutine" where
  "DeleteSteamAccount_steps D accID ctx =
     (case ctx of
        None \<Rightarrow> Done (writeError 401 ''unauthorized'')
      | Some uid \<Rightarrow> on_db (SteamAccountStore_Delete (d_pg D) uid accID)
          (\<lambda>x. case x of
             Panic \<Rightarrow> Done recovered
           | Fail e \<Rightarrow> Done (if errors_Is e ErrSteamAccountNotFound then writeError 404 ''steam account not found''
               else writeError 500 ''could not remove steam account'')
           | Ok u \<Rightarrow> Done (writeHeader 204)))"

definition backfill_steps :: "Deps \<Rightarrow> SteamAccount \<Rightarrow> FriendList \<Rightarrow> 'a goroutine \<Rightarrow> 'a goroutine" where
  "backfill_steps D account fl rest =
     (if sa_SteamID account = '''' \<and> fl_OwnerSteamID fl \<noteq> ''''
      then on_db (SetSteamID (d_pg D) (sa_ID account) (fl_OwnerSteamID fl)) (\<lambda>res. rest) else rest)"

definition ListFriends_steps :: "Deps \<Rightarrow> string option \<Rightarrow> Request \<Rightarrow> Response goroutine" where
  "ListFriends_steps D ctx r =
     (case ctx of
        None \<Rightarrow> Done (writeError 401 ''unauthorized'')
      | Some uid \<Rightarrow> on_db (GetByUserID (d_pg D) uid)
          (\<lambda>g. case g of
             Panic \<Rightarrow> Done recovered
           | Fail e \<Rightarrow> Done (if errors_Is e ErrSteamAccountNotFound then writeError 409 ''no steam account linked''
               else writeError 500 ''could not load steam account'')
           | Ok account \<Rightarrow>
               if sa_EncRefreshToken account = [] then Done (writeError 409 ''steam account link not complete'')
               else on_keys (Get (rq_clock r 1) uid)
                 (\<lambda>k. case k of
                    None \<Rightarrow> Done (writeError 401 ''session expired, please log in again'')
                  | Some key \<Rightarrow>
                      (case Decrypt (d_crypto D) key (sa_EncRefreshToken account) (sa_EncRefreshNonce account) of
                         Panic \<Rightarrow> Done recovered
                       | Fail e \<Rightarrow> Done (writeError 500 ''could not decrypt credentials'')
                       | Ok refreshToken \<Rightarrow>
                           Act (\<lambda>s. s\<lparr>s_asked := s_asked s @ [string_of_bytes refreshToken]\<rparr>)
                             (\<lambda>s. case d_friends D (length (s_asked s)) (string_of_bytes refreshToken) of
                                Panic \<Rightarrow> Done recovered
                              | Fail e \<Rightarrow> Done (writeError 502 ''could not fetch friends'')
                              | Ok fl \<Rightarrow> backfill_steps D account fl
                                  (Done (writeJSON 200 (JArr (map FriendDTO_json
                                     (d_sort D (map toFriendDTO (fl_Friends fl))))))))))))"

section \<open>The callbacks\<close>

text \<open>\<open>Broadcast\<close>: the clients are copied under the mutex and written to one after the other outside it.\<close>

fun write_steps :: "string \<Rightarrow> client list \<Rightarrow> 'a goroutine \<Rightarrow> 'a goroutine" where
  "write_steps msg [] rest = rest"
| "write_steps msg (c # cs) rest =
     Act (\<lambda>s. s\<lparr>s_hub := (s_hub s)\<lparr>written := written (s_hub s) @ [(c, msg)]\<rparr>\<rparr>) (\<lambda>s. write_steps msg cs rest)"

definition Broadcast_steps :: "PushEvent \<Rightarrow> 'a goroutine \<Rightarrow> 'a goroutine" where
  "Broadcast_steps ev rest = Act id (\<lambda>s. write_steps (json_encode (event_json ev)) (clients (s_hub s)) rest)"

text \<open>The result says whether the process survived; nothing recovers a panic here.\<close>

definition callback_steps :: "Deps \<Rightarrow> LinkStart \<Rightarrow> LinkCallback \<Rightarrow> bool goroutine" where
  "callback_steps D l cb =
     (case cb of
        OnQrChallenge url \<Rightarrow> Broadcast_steps (AccountQrEvent (ls_accountID l) url) (Done True)
      | OnGuard guardType \<Rightarrow> Broadcast_steps (AccountGuardEvent (ls_accountID l) guardType) (Done True)
      | OnLinked ownerSteamID refreshToken \<Rightarrow>
          Act (clearLinkReq (ls_accountID l)) (\<lambda>s.
          on_rand (Encrypt (d_crypto D) (ls_key l) (bytes_of_string refreshToken))
            (\<lambda>enc. case enc of
               Panic \<Rightarrow> Done False
             | Fail e \<Rightarrow> Broadcast_steps (AccountErrorEvent (ls_accountID l) ''LINK_FAILED'' ''could not store refresh token'') (Done True)
             | Ok (encToken, encNonce) \<Rightarrow>
                 on_db (SaveRefreshToken (d_pg D) (ls_accountID l) ownerSteamID '''' encToken encNonce (expiryFromJWT refreshToken))
                   (\<lambda>res. case res of
                      Ok u \<Rightarrow> Broadcast_steps (AccountLinkedEvent (ls_accountID l) ownerSteamID) (Done True)
                    | Fail e \<Rightarrow> Broadcast_steps (AccountErrorEvent (ls_accountID l) ''LINK_FAILED'' ''could not store refresh token'') (Done True)
                    | Panic \<Rightarrow> Done False)))
      | OnError e \<Rightarrow>
          Act (clearLinkReq (ls_accountID l))
            (\<lambda>s. Broadcast_steps (AccountErrorEvent (ls_accountID l) ''LINK_FAILED'' (error_text e)) (Done True)))"

section \<open>A request\<close>

definition ws_steps :: "Platform \<Rightarrow> Request \<Rightarrow> Response goroutine" where
  "ws_steps P r =
     (case ws_refusal P r of
        Some resp \<Rightarrow> Done resp
      | None \<Rightarrow> Act (\<lambda>s. s\<lparr>s_hub := hub_add (rq_conn r) (s_hub s)\<rparr>) (\<lambda>s. Done switchingProtocols))"

fun endpoint_steps :: "Deps \<Rightarrow> Platform \<Rightarrow> Endpoint \<Rightarrow> string option \<Rightarrow> Request \<Rightarrow> Response goroutine" where
  "endpoint_steps D P E_Register ctx r = Register_steps D r"
| "endpoint_steps D P E_Login ctx r = Login_steps D r"
| "endpoint_steps D P E_Logout ctx r = Logout_steps ctx"
| "endpoint_steps D P E_ListSteamAccounts ctx r = ListSteamAccounts_steps D ctx"
| "endpoint_steps D P E_AddSteamAccount ctx r = AddSteamAccount_steps D ctx r"
| "endpoint_steps D P (E_DeleteSteamAccount i) ctx r = DeleteSteamAccount_steps D i ctx"
| "endpoint_steps D P (E_AccountSteamGuard i) ctx r = SubmitAccountSteamGuard_steps D i ctx r"
| "endpoint_steps D P E_Friends ctx r = ListFriends_steps D ctx r"
| "endpoint_steps D P E_WebSocket ctx r = ws_steps P r"
| "endpoint_steps D P E_Docs ctx r = Done (swagger P r)"
| "endpoint_steps D P e ctx r = Done \<lparr>rs_status = 501, rs_body = TextBody ''{\"error\":\"not implemented\"}''\<rparr>"

definition serve_steps :: "Deps \<Rightarrow> Platform \<Rightarrow> Request \<Rightarrow> Response goroutine" where
  "serve_steps D P r =
     (case route (rq_method r) (rq_path r) of
        None \<Rightarrow> Done (chi_unrouted P r)
      | Some e \<Rightarrow>
          if \<not> needs_auth e then endpoint_steps D P e None r
          else (case bearerToken r of
             None \<Rightarrow> Done (writeError 401 ''missing bearer token'')
           | Some token \<Rightarrow>
               (case VerifyToken (d_jwt D) (d_tokens D) (rq_clock r 0) token of
                  Ok userID \<Rightarrow> endpoint_steps D P e (Some userID) r
                | Fail e \<Rightarrow> Done (writeError 401 ''invalid token'')
                | Panic \<Rightarrow> Done recovered)))"

section \<open>Any number of goroutines\<close>

text \<open>
  The goroutines of requests, with their request, and of the callbacks of started links. They
  share the API state and take their actions in any order.
\<close>

record Threads =
  t_api :: Api
  t_requests :: "(Request \<times> Response goroutine) list"
  t_callbacks :: "(LinkStart \<times> bool goroutine) list"

inductive thread_step :: "Deps \<Rightarrow> Platform \<Rightarrow> Threads \<Rightarrow> Threads \<Rightarrow> bool" for D P where
  request: "thread_step D P t (t\<lparr>t_requests := t_requests t @ [(r, serve_steps D P r)]\<rparr>)"
| request_act: "i < length (t_requests t) \<Longrightarrow> t_requests t ! i = (r, Act f k) \<Longrightarrow>
     thread_step D P t (t\<lparr>t_api := f (t_api t), t_requests := (t_requests t)[i := (r, k (t_api t))]\<rparr>)"
| callback: "l \<in> set (s_started (t_api t)) \<Longrightarrow>
     thread_step D P t (t\<lparr>t_callbacks := t_callbacks t @ [(l, callback_steps D l cb)]\<rparr>)"
| callback_act: "i < length (t_callbacks t) \<Longrightarrow> t_callbacks t ! i = (l, Act f k) \<Longrightarrow>
     thread_step D P t (t\<lparr>t_api := f (t_api t), t_callbacks := (t_callbacks t)[i := (l, k (t_api t))]\<rparr>)"
| ws_close: "thread_step D P t (t\<lparr>t_api := ws_closed c (t_api t)\<rparr>)"

inductive threads_reachable :: "Deps \<Rightarrow> Platform \<Rightarrow> Threads \<Rightarrow> bool" for D P where
  threads_init: "rand_ok r \<Longrightarrow> threads_reachable D P \<lparr>t_api = NewApiServer empty_db (NewKeyCache lifetime) r NewHub,
     t_requests = [], t_callbacks = []\<rparr>"
| threads_next: "threads_reachable D P t \<Longrightarrow> thread_step D P t t' \<Longrightarrow> threads_reachable D P t'"

inductive_cases thread_stepE: "thread_step D P t t'"

section \<open>Alone, a goroutine is its handler\<close>

lemma alone_call [simp]:
  "alone (on_db q k) s = alone (k (fst (q (s_db s)))) (s\<lparr>s_db := snd (q (s_db s))\<rparr>)"
  "alone (on_keys g k') s = alone (k' (fst (g (s_keys s)))) (s\<lparr>s_keys := snd (g (s_keys s))\<rparr>)"
  "alone (on_rand h k'') s = alone (k'' (fst (h (s_rand s)))) (s\<lparr>s_rand := snd (h (s_rand s))\<rparr>)"
  by (simp_all add: on_db_def on_keys_def on_rand_def)

lemma alone_cache: "alone (cache_steps D r i pw salt st) s = cacheKeyAndIssue D r i pw salt st s"
  by (simp add: cache_steps_def cacheKeyAndIssue_def split: outcome.split)

lemma alone_Register: "alone (Register_steps D r) s = Register D r s"
  by (simp add: Register_steps_def Register_def alone_cache split: option.split outcome.split prod.split)

lemma alone_Login: "alone (Login_steps D r) s = Login D r s"
  by (simp add: Login_steps_def Login_def alone_cache split: option.split outcome.split prod.split)

lemma alone_Logout: "alone (Logout_steps ctx) s = Logout ctx r s"
  by (simp add: Logout_steps_def Logout_def split: option.split)

lemma alone_start: "alone (start_steps D i n pw key rest) s = alone rest (startAccountLink D i n pw key s)"
  by (simp add: start_steps_def startAccountLink_def setLinkReq_def Let_def split: prod.split)

lemma alone_AddSteamAccount: "alone (AddSteamAccount_steps D ctx r) s = AddSteamAccount D ctx r s"
  by (simp add: AddSteamAccount_steps_def AddSteamAccount_def alone_start del: fst_Get
      split: option.split outcome.split prod.split)

lemma alone_SubmitAccountSteamGuard: "alone (SubmitAccountSteamGuard_steps D i ctx r) s = SubmitAccountSteamGuard D i ctx r s"
  by (simp add: SubmitAccountSteamGuard_steps_def SubmitAccountSteamGuard_def getLinkReq_def split: option.split outcome.split prod.split)

lemma alone_ListSteamAccounts: "alone (ListSteamAccounts_steps D ctx) s = ListSteamAccounts D ctx r s"
  by (simp add: ListSteamAccounts_steps_def ListSteamAccounts_def split: option.split outcome.split prod.split)

lemma alone_DeleteSteamAccount: "alone (DeleteSteamAccount_steps D i ctx) s = DeleteSteamAccount D i ctx r s"
  by (simp add: DeleteSteamAccount_steps_def DeleteSteamAccount_def split: option.split outcome.split prod.split)

lemma alone_backfill: "alone (backfill_steps D a fl rest) s = alone rest (backfill D a fl s)"
  by (simp add: backfill_steps_def backfill_def)

lemma alone_ListFriends: "alone (ListFriends_steps D ctx r) s = ListFriends D ctx r s"
  by (simp add: ListFriends_steps_def ListFriends_def alone_backfill Let_def del: fst_Get
      split: option.split outcome.split prod.split)

lemma alone_endpoint: "alone (endpoint_steps D P e ctx r) s = handler_of D P e ctx r s"
  by (cases e) (simp_all add: alone_Register alone_Login alone_Logout [where r = r] alone_AddSteamAccount
      alone_SubmitAccountSteamGuard alone_ListSteamAccounts [where r = r] alone_DeleteSteamAccount [where r = r]
      alone_ListFriends ws_steps_def ws_open_def notImplemented_def split: option.split)

lemma alone_serve: "alone (serve_steps D P r) s = serve D P r s"
  by (simp add: serve_steps_def serve_def requireAuth_def alone_endpoint split: option.split outcome.split)

lemma alone_write:
  "alone (write_steps msg cs rest) s = alone rest (s\<lparr>s_hub := (s_hub s)\<lparr>written := written (s_hub s) @ map (\<lambda>c. (c, msg)) cs\<rparr>\<rparr>)"
  by (induction msg cs rest arbitrary: s rule: write_steps.induct) simp_all

lemma alone_Broadcast: "alone (Broadcast_steps ev rest) s = alone rest (push ev s)"
  by (simp add: Broadcast_steps_def alone_write push_def Broadcast_def)

lemma alone_callback:
  "link_callback D l cb s = (case alone (callback_steps D l cb) s of (ok, s') \<Rightarrow> if ok then Some s' else None)"
proof (cases cb)
  case (OnLinked sid tok)
  obtain e g where e: "Encrypt (d_crypto D) (ls_key l) (bytes_of_string tok) (s_rand (clearLinkReq (ls_accountID l) s)) = (e, g)"
    by (rule prod.exhaust)
  show ?thesis
    by (cases e) (auto simp: OnLinked e callback_steps_def link_callback_def persistRefreshToken_def alone_Broadcast Let_def
        split: outcome.split prod.split)
qed (simp_all add: callback_steps_def link_callback_def alone_Broadcast)

end
