(* ===== verification/Api_Interleaving.thy ===== *)
theory Api_Interleaving
  imports Api_Threads Api_Properties
begin

text \<open>
  What holds when the actions of any number of requests and callbacks interleave: the tables grow
  in a way each goroutine can rely on, and the invariant of the API is kept by every single action.
\<close>

declare One_nat_def [simp del]

section \<open>Invariant and growth\<close>

text \<open>
  The invariant without the bookkeeping of request ids, which \<open>startAccountLink\<close> writes one action
  before it hands the link over.
\<close>

definition core_inv :: "Deps \<Rightarrow> Api \<Rightarrow> bool" where
  "core_inv D s \<longleftrightarrow> api_inv D (s\<lparr>s_linkReqs := Map.empty\<rparr>)"

text \<open>Users stay, ids are never used twice, an account keeps its owner, and started links stay.\<close>

definition own_ext :: "pg \<Rightarrow> Db \<Rightarrow> Db \<Rightarrow> bool" where
  "own_ext pg d d' \<longleftrightarrow> uuids_used d \<le> uuids_used d' \<and> set (users d) \<subseteq> set (users d')
     \<and> (\<forall>a' \<in> set (steam_accounts d'). (\<exists>a \<in> set (steam_accounts d). r_id a = r_id a' \<and> r_user_id a = r_user_id a')
          \<or> \<not> used_uuid pg d (r_id a'))"

definition grows :: "Deps \<Rightarrow> Api \<Rightarrow> Api \<Rightarrow> bool" where
  "grows D s s' \<longleftrightarrow> own_ext (d_pg D) (s_db s) (s_db s') \<and> set (s_started s) \<subseteq> set (s_started s')"

lemma own_ext_same [simp]: "own_ext pg d d"
  by (auto simp: own_ext_def)

lemma own_ext_db_ext: "db_ext pg d d' \<Longrightarrow> own_ext pg d d'"
  unfolding own_ext_def db_ext_def same_cred_def by metis

lemma own_ext_trans:
  assumes "own_ext pg d1 d2" "own_ext pg d2 d3"
  shows "own_ext pg d1 d3"
proof -
  have u: "used_uuid pg d1 i \<Longrightarrow> used_uuid pg d2 i" for i
    using assms(1) by (auto simp: own_ext_def intro: used_uuid_mono)
  have "(\<exists>a \<in> set (steam_accounts d1). r_id a = r_id c \<and> r_user_id a = r_user_id c) \<or> \<not> used_uuid pg d1 (r_id c)"
    if c: "c \<in> set (steam_accounts d3)" for c
  proof (cases "used_uuid pg d1 (r_id c)")
    case True
    then obtain b where b: "b \<in> set (steam_accounts d2)" "r_id b = r_id c" "r_user_id b = r_user_id c"
      using assms(2) c u unfolding own_ext_def by blast
    then have "(\<exists>a \<in> set (steam_accounts d1). r_id a = r_id b \<and> r_user_id a = r_user_id b) \<or> \<not> used_uuid pg d1 (r_id b)"
      using assms(1) unfolding own_ext_def by blast
    then show ?thesis using b by simp
  qed simp
  then show ?thesis using assms by (auto simp: own_ext_def)
qed

interpretation api_state: shared_state "core_inv D" "grows D" for D
proof (unfold_locales, goal_cases)
  case (1 s)
  then show ?case by (simp add: grows_def)
next
  case (2 s t u)
  then show ?case using own_ext_trans by (auto simp: grows_def)
qed

text \<open>What the handlers know and keep.\<close>

lemma grows_user: "grows D s s' \<Longrightarrow> u \<in> set (users (s_db s)) \<Longrightarrow> u \<in> set (users (s_db s'))"
  by (auto simp: grows_def own_ext_def)

definition owned :: "Deps \<Rightarrow> Db \<Rightarrow> string \<Rightarrow> string \<Rightarrow> bool" where
  "owned D d i uid \<longleftrightarrow> used_uuid (d_pg D) d i \<and> (\<forall>a \<in> set (steam_accounts d). r_id a = i \<longrightarrow> r_user_id a = uid)"

lemma owned_ext:
  assumes "own_ext (d_pg D) d d'" "owned D d i uid"
  shows "owned D d' i uid"
proof -
  have "used_uuid (d_pg D) d' i" using assms by (auto simp: own_ext_def owned_def intro: used_uuid_mono)
  moreover have "r_user_id a' = uid" if "a' \<in> set (steam_accounts d')" "r_id a' = i" for a'
    using assms that unfolding own_ext_def owned_def by metis
  ultimately show ?thesis by (simp add: owned_def)
qed

lemma grows_owned: "grows D s s' \<Longrightarrow> owned D (s_db s) i uid \<Longrightarrow> owned D (s_db s') i uid"
  using owned_ext by (auto simp: grows_def)

section \<open>Actions\<close>

abbreviation api_safe :: "Deps \<Rightarrow> 'a goroutine \<Rightarrow> Api \<Rightarrow> bool" where
  "api_safe D \<equiv> safe (core_inv D) (grows D)"

lemma core_parts:
  "core_inv D s \<Longrightarrow> rand_ok (s_rand s)" "core_inv D s \<Longrightarrow> db_inv (d_pg D) (s_db s)"
  "core_inv D s \<Longrightarrow> keys_ok D (s_db s) (s_keys s)"
  by (simp_all add: core_inv_def api_inv_def)

lemma core_frame [simp]:
  "core_inv D (s\<lparr>s_hub := h\<rparr>) = core_inv D s" "core_inv D (s\<lparr>s_asked := as\<rparr>) = core_inv D s"
  "core_inv D (s\<lparr>s_submitted := ss\<rparr>) = core_inv D s" "core_inv D (s\<lparr>s_linkReqs := m\<rparr>) = core_inv D s"
  by (simp_all add: core_inv_def api_inv_def)

lemma grows_frame [simp]:
  "grows D s (s'\<lparr>s_hub := h\<rparr>) = grows D s s'" "grows D s (s'\<lparr>s_asked := as\<rparr>) = grows D s s'"
  "grows D s (s'\<lparr>s_submitted := ss\<rparr>) = grows D s s'" "grows D s (s'\<lparr>s_linkReqs := m\<rparr>) = grows D s s'"
  "grows D s (s'\<lparr>s_rand := g\<rparr>) = grows D s s'" "grows D s (s'\<lparr>s_keys := ks\<rparr>) = grows D s s'"
  "grows D s s"
  by (simp_all add: grows_def)

lemma safe_rand:
  assumes "\<And>s' x g. grows D s s' \<Longrightarrow> core_inv D s' \<Longrightarrow> q (s_rand s') = (x, g) \<Longrightarrow>
      rand_ok g \<and> api_safe D (k x) (s'\<lparr>s_rand := g\<rparr>)"
  shows "api_safe D (on_rand q k) s"
proof -
  have "core_inv D (s'\<lparr>s_rand := g\<rparr>)" if "core_inv D s'" "rand_ok g" for s' g
    using that by (simp add: core_inv_def api_inv_def)
  then show ?thesis using assms by (simp add: on_rand_def) (metis prod.collapse)
qed

lemma safe_keys:
  assumes "\<And>s' x ks. grows D s s' \<Longrightarrow> core_inv D s' \<Longrightarrow> q (s_keys s') = (x, ks) \<Longrightarrow>
      keys_ok D (s_db s') ks \<and> api_safe D (k x) (s'\<lparr>s_keys := ks\<rparr>)"
  shows "api_safe D (on_keys q k) s"
proof -
  have "core_inv D (s'\<lparr>s_keys := ks\<rparr>)" if "core_inv D s'" "keys_ok D (s_db s') ks" for s' ks
    using that by (simp add: core_inv_def api_inv_def)
  then show ?thesis using assms by (simp add: on_keys_def) (metis prod.collapse)
qed

text \<open>An SQL statement: the rest may use its answer.\<close>

definition db_keeps :: "Deps \<Rightarrow> Api \<Rightarrow> Db \<Rightarrow> bool" where
  "db_keeps D s d' \<longleftrightarrow> core_inv D (s\<lparr>s_db := d'\<rparr>) \<and> own_ext (d_pg D) (s_db s) d'"

lemma safe_db:
  assumes "\<And>s' x d'. grows D s s' \<Longrightarrow> core_inv D s' \<Longrightarrow> q (s_db s') = (x, d') \<Longrightarrow>
      db_keeps D s' d' \<and> api_safe D (k x) (s'\<lparr>s_db := d'\<rparr>)"
  shows "api_safe D (on_db q k) s"
  using assms by (simp add: on_db_def db_keeps_def grows_def) (metis prod.collapse)

lemma core_inv_lift: "core_inv D s \<Longrightarrow> (\<And>s. api_inv D s \<Longrightarrow> s_db s = d \<Longrightarrow> api_inv D (s\<lparr>s_db := d'\<rparr>)) \<Longrightarrow> s_db s = d \<Longrightarrow>
    core_inv D (s\<lparr>s_db := d'\<rparr>)"
proof -
  assume "core_inv D s" "s_db s = d" and k: "\<And>s. api_inv D s \<Longrightarrow> s_db s = d \<Longrightarrow> api_inv D (s\<lparr>s_db := d'\<rparr>)"
  then have "api_inv D ((s\<lparr>s_linkReqs := Map.empty\<rparr>)\<lparr>s_db := d'\<rparr>)" by (intro k) (simp_all add: core_inv_def)
  then show ?thesis by (simp add: core_inv_def api_inv_def)
qed

lemma keeps_lookups:
  assumes "core_inv D s"
  shows "UserStore_GetByUsername (d_pg D) n (s_db s) = (q, d') \<Longrightarrow> db_keeps D s d'"
    "GetByUserID (d_pg D) uid (s_db s) = (g, d') \<Longrightarrow> db_keeps D s d'"
    "SteamAccountStore_Delete (d_pg D) uid accID (s_db s) = (x, d') \<Longrightarrow> db_keeps D s d'"
    "SetSteamID (d_pg D) accID sid (s_db s) = (x, d') \<Longrightarrow> db_keeps D s d'"
    "SteamAccountStore_Create (d_pg D) now uid n (s_db s) = (c, d') \<Longrightarrow> db_keeps D s d'"
proof -
  have pg: "pg_ok (d_pg D)" using core_parts(2) [OF assms] by (rule db_inv_pg_ok)
  note l = core_inv_lift [OF assms _ refl]
  show "UserStore_GetByUsername (d_pg D) n (s_db s) = (q, d') \<Longrightarrow> db_keeps D s d'"
    unfolding db_keeps_def using ext_GetByUsername own_ext_db_ext api_inv_lookups(1) by (metis l)
  show "GetByUserID (d_pg D) uid (s_db s) = (g, d') \<Longrightarrow> db_keeps D s d'"
    unfolding db_keeps_def using ext_GetByUserID own_ext_db_ext api_inv_lookups(2) by (metis l)
  show "SteamAccountStore_Delete (d_pg D) uid accID (s_db s) = (x, d') \<Longrightarrow> db_keeps D s d'"
    unfolding db_keeps_def using ext_Delete_account own_ext_db_ext api_inv_lookups(3) by (metis l)
  show "SetSteamID (d_pg D) accID sid (s_db s) = (x, d') \<Longrightarrow> db_keeps D s d'"
    unfolding db_keeps_def using ext_SetSteamID own_ext_db_ext api_inv_lookups(4) by (metis l)
  show "SteamAccountStore_Create (d_pg D) now uid n (s_db s) = (c, d') \<Longrightarrow> db_keeps D s d'"
    unfolding db_keeps_def using ext_Create_account [OF pg] own_ext_db_ext api_inv_lookups(5) by (metis l)
qed

section \<open>Every goroutine is safe\<close>

lemma safe_cache:
  assumes D: "deps_ok D" and u: "u \<in> set (users (s_db s))" "Verify (d_crypto D) (d_hasher D) pw (u_PasswordHash u) = Ok True"
  shows "api_safe D (cache_steps D r (u_ID u) pw (u_KDFSalt u) st) s"
proof -
  have a: "argon2_ok (d_crypto D)" using D by (simp add: deps_ok_def)
  obtain key where k: "DeriveKey (d_crypto D) pw (u_KDFSalt u) = Ok key" "length key = 32"
    by (rule DeriveKey_Ok [OF a])
  then have key: "user_key D u key" using u(2) unfolding user_key_def by blast
  have "core_inv D (s'\<lparr>s_keys := Put (rq_clock r 1) (u_ID u) key (s_keys s')\<rparr>)"
    if "grows D s s'" "core_inv D s'" for s'
    using keys_ok_Put [OF core_parts(3) [OF that(2)] grows_user [OF that(1) u(1)] key] that(2)
    by (simp add: core_inv_def api_inv_def)
  then show ?thesis by (simp add: cache_steps_def k)
qed

text \<open>What each call may be followed by.\<close>

lemma safe_Hash:
  assumes "deps_ok D"
    and "\<And>s' enc. Verify (d_crypto D) (d_hasher D) pw enc = Ok True \<Longrightarrow>
      \<forall>pw'. \<exists>b. Verify (d_crypto D) (d_hasher D) pw' enc = Ok b \<Longrightarrow> api_safe D (k (Ok enc)) s'"
    and "\<And>s' e. api_safe D (k (Fail e)) s'" "\<And>s'. api_safe D (k Panic) s'"
  shows "api_safe D (on_rand (Hash (d_crypto D) (d_hasher D) pw) k) s"
proof (rule safe_rand, intro conjI)
  fix s' x g
  assume s': "core_inv D s'" "Hash (d_crypto D) (d_hasher D) pw (s_rand s') = (x, g)"
  note r = core_parts(1) [OF s'(1)]
  show "rand_ok g" by (rule Hash_keeps_rand [OF s'(2) r])
  show "api_safe D (k x) (s'\<lparr>s_rand := g\<rparr>)"
  proof (cases x)
    case (Ok enc)
    then show ?thesis using assms(2) Hash_verifies [OF assms(1) r s'(2) [unfolded Ok]] by simp
  qed (use assms(3,4) in simp_all)
qed

lemma safe_NewSalt: "(\<And>s' x. api_safe D (k x) s') \<Longrightarrow> api_safe D (on_rand (NewSalt n) k) s"
  by (rule safe_rand) (auto dest: NewSalt_keeps_rand core_parts(1))

lemma safe_newLinkID: "(\<And>s' x. grows D s s' \<Longrightarrow> api_safe D (k x) s') \<Longrightarrow> api_safe D (on_rand newLinkID k) s"
  by (rule safe_rand) (auto dest: newLinkID_rand core_parts(1))

lemma safe_Create_user:
  assumes h: "\<forall>pw'. \<exists>b. Verify (d_crypto D) (d_hasher D) pw' hash = Ok b"
    and k: "\<And>s' u. u \<in> set (users (s_db s')) \<Longrightarrow> u_PasswordHash u = hash \<Longrightarrow> u_KDFSalt u = salt \<Longrightarrow> api_safe D (k (Ok (u_ID u))) s'"
    and "\<And>s' e. api_safe D (k (Fail e)) s'" "\<And>s'. api_safe D (k Panic) s'"
  shows "api_safe D (on_db (UserStore_Create (d_pg D) now n hash salt) k) s"
proof (rule safe_db, intro conjI)
  fix s' c d'
  assume s': "core_inv D s'" and c: "UserStore_Create (d_pg D) now n hash salt (s_db s') = (c, d')"
  have new: "\<forall>u \<in> set (users d'). u \<in> set (users (s_db s')) \<or> u_PasswordHash u = hash"
    using c by (cases c) (auto dest!: Create_Ok_form(3) Create_other_form)
  have "api_inv D (t\<lparr>s_db := d'\<rparr>)" if t: "api_inv D t" "s_db t = s_db s'" for t
  proof (rule api_inv_db [OF t(1) _ ext_Create_user [OF c, folded t(2)]])
    show "db_inv (d_pg D) d'" by (rule Create_inv [OF core_parts(2) [OF s'] c])
    show "\<forall>u \<in> set (users d'). hash_good D u" using new t h unfolding api_inv_def hash_good_def by metis
  qed
  from core_inv_lift [OF s' this refl] show "db_keeps D s' d'"
    using own_ext_db_ext [OF ext_Create_user [OF c]] by (simp add: db_keeps_def)
  show "api_safe D (k c) (s'\<lparr>s_db := d'\<rparr>)"
  proof (cases c)
    case (Ok i)
    let ?u = "\<lparr>u_ID = i, u_Username = n, u_PasswordHash = hash, u_KDFSalt = salt, u_CreatedAt = now\<rparr>"
    have "?u \<in> set (users d')" using Create_Ok_form(3) [OF c [unfolded Ok]] by auto
    then show ?thesis using k [of ?u "s'\<lparr>s_db := d'\<rparr>"] Ok by simp
  qed (use assms(3,4) in simp_all)
qed

lemma safe_GetByUsername:
  assumes "\<And>s' u. u \<in> set (users (s_db s')) \<Longrightarrow> api_safe D (k (Ok u)) s'"
    and "\<And>s' e. api_safe D (k (Fail e)) s'" "\<And>s'. api_safe D (k Panic) s'"
  shows "api_safe D (on_db (UserStore_GetByUsername (d_pg D) n) k) s"
proof (rule safe_db, intro conjI)
  fix s' q d'
  assume s': "core_inv D s'" and q: "UserStore_GetByUsername (d_pg D) n (s_db s') = (q, d')"
  show "db_keeps D s' d'" by (rule keeps_lookups(1) [OF s' q])
  show "api_safe D (k q) (s'\<lparr>s_db := d'\<rparr>)"
  proof (cases q)
    case (Ok u)
    have "u \<in> set (users (s_db s'))"
      using ustore.lookup_Ok [OF q [unfolded Ok]] by (auto simp: users_of_def find_Some_iff)
    then show ?thesis using assms(1) Ok by (simp add: users_kept(1) [OF q])
  qed (use assms(2,3) in simp_all)
qed

lemma safe_db_any:
  "(\<And>s' x. api_safe D (k x) s') \<Longrightarrow> api_safe D (on_db (GetByUserID (d_pg D) uid) k) s"
  "(\<And>s' y. api_safe D (k' y) s') \<Longrightarrow> api_safe D (on_db (SteamAccountStore_Delete (d_pg D) uid i) k') s"
  "(\<And>s' y. api_safe D (k' y) s') \<Longrightarrow> api_safe D (on_db (SetSteamID (d_pg D) i sid) k') s"
  by (rule safe_db; use keeps_lookups(2-4) in auto)+

lemma safe_Create_account:
  assumes u: "u \<in> set (users (s_db s))" "u_ID u = uid"
    and k: "\<And>s' i. u \<in> set (users (s_db s')) \<Longrightarrow> owned D (s_db s') i uid \<Longrightarrow> api_safe D (k (Ok i)) s'"
    and "\<And>s' e. api_safe D (k (Fail e)) s'" "\<And>s'. api_safe D (k Panic) s'"
  shows "api_safe D (on_db (SteamAccountStore_Create (d_pg D) now uid n) k) s"
proof (rule safe_db, intro conjI)
  fix s' c d'
  assume g: "grows D s s'" and s': "core_inv D s'" and c: "SteamAccountStore_Create (d_pg D) now uid n (s_db s') = (c, d')"
  show "db_keeps D s' d'" by (rule keeps_lookups(5) [OF s' c])
  show "api_safe D (k c) (s'\<lparr>s_db := d'\<rparr>)"
  proof (cases c)
    case (Ok i)
    note db = core_parts(2) [OF s']
    have u': "u \<in> set (users (s_db s'))" by (rule grows_user [OF g u(1)])
    then have "used_uuid (d_pg D) (s_db s') uid" using db u(2) by (auto simp: db_inv_def)
    then have canon: "uuid_in (d_pg D) uid = Some uid" by (rule used_uuid_canonical [OF db_inv_pg_ok [OF db]])
    obtain v where v: "uuid_in (d_pg D) uid = Some v" "i = gen_uuid (d_pg D) (uuids_used (s_db s'))"
      "d' = (s_db s')\<lparr>queries := Suc (queries (s_db s')), uuids_used := Suc (uuids_used (s_db s')),
        steam_accounts := steam_accounts (s_db s') @ [\<lparr>r_id = i, r_user_id = v, r_steam_id = None,
          r_steam_username = (if n = '''' then None else Some n), r_enc_refresh_token = None, r_enc_refresh_nonce = None,
          r_refresh_token_expires = None, r_created_at = now\<rparr>]\<rparr>"
      by (rule Create_account_Ok [OF c [unfolded Ok]]) blast
    have "r_id a \<noteq> i" if "a \<in> set (steam_accounts (s_db s'))" for a
      using db next_uuid_fresh [OF db_inv_pg_ok [OF db]] v(2) that unfolding db_inv_def by blast
    then have "owned D d' i uid" using v canon by (auto simp: owned_def used_uuid_def)
    then show ?thesis using k [of "s'\<lparr>s_db := d'\<rparr>" i] u' Ok by (simp add: users_kept(3) [OF c])
  qed (use assms(4,5) in simp_all)
qed

text \<open>The key and the account it is for are captured when the link starts.\<close>

lemma core_inv_start:
  assumes s: "core_inv D s" "d_links D" and u: "u \<in> set (users (s_db s))" "user_key D u (ls_key l)"
    and o: "owned D (s_db s) (ls_accountID l) (u_ID u)"
  shows "core_inv D (s\<lparr>s_started := s_started s @ [l]\<rparr>)"
proof -
  have "links_ok D (s_db s) (s_started s @ [l])"
    using s(1) u o unfolding core_inv_def api_inv_def links_ok_def owned_def by auto
  moreover have "\<forall>a \<in> set (steam_accounts (s_db s)). cred_ok D (s_db s) (s_started s @ [l]) a"
    using s(1) cred_ok_more [of D "s_db s" "s_started s" _ "s_started s @ [l]"] unfolding core_inv_def api_inv_def by auto
  ultimately show ?thesis using s by (simp add: core_inv_def api_inv_def reqs_ok_def)
qed

lemma safe_start:
  assumes u: "u \<in> set (users (s_db s))" "user_key D u key" and o: "owned D (s_db s) i (u_ID u)" and k: "\<And>s'. api_safe D rest s'"
  shows "api_safe D (start_steps D i n pw key rest) s"
proof (cases "d_links D")
  case True
  have "api_safe D (on_rand newLinkID (\<lambda>reqID. Act (setLinkReq i reqID) (\<lambda>s.
      Act (\<lambda>s. s\<lparr>s_started := s_started s @ [\<lparr>ls_reqID = reqID, ls_username = n, ls_password = pw, ls_accountID = i,
        ls_key = key\<rparr>]\<rparr>) (\<lambda>s. rest)))) s"
  proof (rule safe_newLinkID)
    fix s1 q assume s1: "grows D s s1"
    show "api_safe D (Act (setLinkReq i q) (\<lambda>s. Act (\<lambda>s. s\<lparr>s_started := s_started s @ [\<lparr>ls_reqID = q, ls_username = n,
        ls_password = pw, ls_accountID = i, ls_key = key\<rparr>]\<rparr>) (\<lambda>s. rest))) s1"
      unfolding safe.simps
    proof (intro allI impI conjI)
      fix s2 assume s2: "grows D s1 s2 \<and> core_inv D s2"
      show "core_inv D (setLinkReq i q s2)" "grows D s2 (setLinkReq i q s2)" using s2 by (simp_all add: setLinkReq_def)
      fix s3 assume s3: "grows D (setLinkReq i q s2) s3 \<and> core_inv D s3"
      have "grows D s2 s3" using s3 by (simp add: grows_def setLinkReq_def)
      then have g: "grows D s s3" using s1 s2 api_state.grows_trans by metis
      show "core_inv D (s3\<lparr>s_started := s_started s3 @ [\<lparr>ls_reqID = q, ls_username = n, ls_password = pw, ls_accountID = i,
          ls_key = key\<rparr>]\<rparr>)"
        by (rule core_inv_start [OF _ True grows_user [OF g u(1)]]) (use s3 u(2) grows_owned [OF g o] in simp_all)
      show "grows D s3 (s3\<lparr>s_started := s_started s3 @ [\<lparr>ls_reqID = q, ls_username = n, ls_password = pw, ls_accountID = i,
          ls_key = key\<rparr>]\<rparr>)" by (auto simp: grows_def)
    qed (rule k)
  qed
  then show ?thesis using True by (simp add: start_steps_def)
qed (use k in \<open>simp add: start_steps_def\<close>)

lemma safe_Get_key:
  assumes "\<And>s' u key. u \<in> set (users (s_db s')) \<Longrightarrow> u_ID u = uid \<Longrightarrow> user_key D u key \<Longrightarrow> api_safe D (k (Some key)) s'"
    and "\<And>s'. api_safe D (k None) s'"
  shows "api_safe D (on_keys (Get now uid) k) s"
proof (rule safe_keys, intro conjI)
  fix s' x ks
  assume s': "core_inv D s'" and g: "Get now uid (s_keys s') = (x, ks)"
  show "keys_ok D (s_db s') ks" using keys_ok_Get [OF core_parts(3) [OF s'], of now uid] g by simp
  show "api_safe D (k x) (s'\<lparr>s_keys := ks\<rparr>)"
  proof (cases x)
    case (Some key)
    have "api_inv D (s'\<lparr>s_linkReqs := Map.empty\<rparr>)" using s' by (simp add: core_inv_def)
    from Get_user_key [OF this, of now uid key ks] obtain u where
      "u \<in> set (users (s_db s'))" "u_ID u = uid" "user_key D u key" using g Some by auto
    then show ?thesis using assms(1) Some by simp
  qed (use assms(2) in simp)
qed

section \<open>Every request and every callback is safe\<close>

lemma safe_Register: "deps_ok D \<Longrightarrow> api_safe D (Register_steps D r) s"
  unfolding Register_steps_def
  by (auto split: option.split intro!: safe_Hash safe_NewSalt split: outcome.split)
    (rule safe_Create_user; use safe_cache [of D] in force)

lemma safe_Login: "deps_ok D \<Longrightarrow> api_safe D (Login_steps D r) s"
  unfolding Login_steps_def
  by (auto split: option.split outcome.split intro!: safe_GetByUsername safe_cache)

lemma safe_Logout: "api_safe D (Logout_steps ctx) s"
proof -
  have "core_inv D (s'\<lparr>s_keys := Delete uid (s_keys s')\<rparr>)" if "core_inv D s'" for s' uid
    using that keys_ok_Delete by (auto simp: core_inv_def api_inv_def)
  then show ?thesis by (simp add: Logout_steps_def split: option.split)
qed

lemma safe_AddSteamAccount: "api_safe D (AddSteamAccount_steps D ctx r) s"
  unfolding AddSteamAccount_steps_def
  by (auto split: option.split intro!: safe_Get_key safe_Create_account [OF _ refl] safe_start)

lemma safe_SubmitAccountSteamGuard: "api_safe D (SubmitAccountSteamGuard_steps D i ctx r) s"
  unfolding SubmitAccountSteamGuard_steps_def
  by (auto split: option.split outcome.split intro!: safe_db_any(1))

lemma safe_ListSteamAccounts: "api_safe D (ListSteamAccounts_steps D ctx) s"
  unfolding ListSteamAccounts_steps_def by (auto split: option.split outcome.split intro!: safe_db_any(1))

lemma safe_DeleteSteamAccount: "api_safe D (DeleteSteamAccount_steps D i ctx) s"
  unfolding DeleteSteamAccount_steps_def by (auto split: option.split outcome.split intro!: safe_db_any(2))

lemma safe_ListFriends: "api_safe D (ListFriends_steps D ctx r) s"
  unfolding ListFriends_steps_def backfill_steps_def
  by (auto split: option.split outcome.split intro!: safe_db_any(1,3) safe_Get_key)

lemma safe_endpoint: "deps_ok D \<Longrightarrow> api_safe D (endpoint_steps D P e ctx r) s"
  by (cases e) (simp_all add: safe_Register safe_Login safe_Logout safe_AddSteamAccount safe_SubmitAccountSteamGuard
      safe_ListSteamAccounts safe_DeleteSteamAccount safe_ListFriends ws_steps_def split: option.split)

lemma safe_serve: "deps_ok D \<Longrightarrow> api_safe D (serve_steps D P r) s"
  by (simp add: serve_steps_def safe_endpoint split: option.split outcome.split)

lemma safe_write: "(\<And>s'. api_safe D rest s') \<Longrightarrow> api_safe D (write_steps msg cs rest) s"
  by (induction msg cs rest arbitrary: s rule: write_steps.induct) auto

lemma safe_Broadcast: "(\<And>s'. api_safe D rest s') \<Longrightarrow> api_safe D (Broadcast_steps ev rest) s"
  by (simp add: Broadcast_steps_def safe_write)

text \<open>The two statements of \<open>persistRefreshToken\<close>: what is stored was sealed for this link.\<close>

lemma keeps_SaveRefreshToken:
  assumes D: "deps_ok D" and s: "core_inv D s" and l: "l \<in> set (s_started s)"
    and q: "SaveRefreshToken (d_pg D) (ls_accountID l) sid name ct non ex (s_db s) = (x, d')"
    and dec: "Decrypt (d_crypto D) (ls_key l) ct non = Ok tok"
  shows "db_keeps D s d'"
proof -
  have "core_inv D (s\<lparr>s_db := d'\<rparr>)"
    using inv_SaveRefreshToken [OF D _ _ _ dec, of "s\<lparr>s_linkReqs := Map.empty\<rparr>" sid name ex x d'] s l q
    by (simp add: core_inv_def api_inv_def)
  moreover have "own_ext (d_pg D) (s_db s) d'"
  proof (cases x)
    case (Ok y)
    obtain i f where "d' = (s_db s)\<lparr>queries := Suc (queries (s_db s)),
        steam_accounts := map (\<lambda>a. if r_id a = i then a\<lparr>r_enc_refresh_token := Some ct, r_enc_refresh_nonce := Some non,
          r_refresh_token_expires := ex, r_steam_id := Some sid, r_steam_username := coalesce_nullif name (r_steam_username a)\<rparr>
          else a) (steam_accounts (s_db s))\<rparr>"
      by (rule exec_update_Ok [OF q [unfolded Ok SaveRefreshToken_def]])
    then show ?thesis by (auto simp: own_ext_def)
  qed (use exec_update_other [OF q [unfolded SaveRefreshToken_def]] in \<open>auto simp: own_ext_def\<close>)
  ultimately show ?thesis by (simp add: db_keeps_def)
qed

lemma safe_Encrypt:
  assumes D: "deps_ok D"
    and k: "\<And>s' ct non. grows D s s' \<Longrightarrow> Decrypt (d_crypto D) key ct non = Ok p \<Longrightarrow> api_safe D (k (Ok (ct, non))) s'"
    and "\<And>s' e. api_safe D (k (Fail e)) s'" "\<And>s'. api_safe D (k Panic) s'"
  shows "api_safe D (on_rand (Encrypt (d_crypto D) key p) k) s"
proof (rule safe_rand, intro conjI)
  fix s' x g
  assume s': "grows D s s'" "core_inv D s'" "Encrypt (d_crypto D) key p (s_rand s') = (x, g)"
  note r = core_parts(1) [OF s'(2)]
  show "rand_ok g" by (rule Encrypt_keeps_rand_ok [OF s'(3) r])
  show "api_safe D (k x) (s'\<lparr>s_rand := g\<rparr>)"
  proof (cases x)
    case (Ok cn)
    obtain ct non where cn: "cn = (ct, non)" by (cases cn)
    have "Decrypt (d_crypto D) key ct non = Ok p"
      by (rule Encrypt_opens [OF _ r s'(3) [unfolded Ok cn]]) (use D in \<open>simp add: deps_ok_def\<close>)
    then show ?thesis using k s'(1) by (simp add: Ok cn)
  qed (use assms(3,4) in simp_all)
qed

lemma safe_SaveRefreshToken:
  assumes D: "deps_ok D" and l: "l \<in> set (s_started s)" and dec: "Decrypt (d_crypto D) (ls_key l) ct non = Ok tok"
    and k: "\<And>s' x. api_safe D (k x) s'"
  shows "api_safe D (on_db (SaveRefreshToken (d_pg D) (ls_accountID l) sid name ct non ex) k) s"
proof (rule safe_db, intro conjI)
  fix s' x d'
  assume s': "grows D s s'" "core_inv D s'" "SaveRefreshToken (d_pg D) (ls_accountID l) sid name ct non ex (s_db s') = (x, d')"
  have "l \<in> set (s_started s')" using l s'(1) by (auto simp: grows_def)
  then show "db_keeps D s' d'" by (rule keeps_SaveRefreshToken [OF D s'(2) _ s'(3) dec])
qed (rule k)

lemma safe_callback:
  assumes D: "deps_ok D" and l: "l \<in> set (s_started s)"
  shows "api_safe D (callback_steps D l cb) s"
proof -
  have fin: "api_safe D (Broadcast_steps ev (Done b)) s'" for ev s' and b :: bool by (rule safe_Broadcast) simp
  have clear: "core_inv D (clearLinkReq a s') = core_inv D s'" "grows D s' (clearLinkReq a s')" for a s'
    by (simp_all add: clearLinkReq_def)
  show ?thesis
  proof (cases cb)
    case (OnLinked sid tok)
    have "api_safe D (on_rand (Encrypt (d_crypto D) (ls_key l) (bytes_of_string tok))
        (\<lambda>enc. case enc of
           Panic \<Rightarrow> Done False
         | Fail e \<Rightarrow> Broadcast_steps (AccountErrorEvent (ls_accountID l) ''LINK_FAILED'' ''could not store refresh token'') (Done True)
         | Ok (encToken, encNonce) \<Rightarrow>
             on_db (SaveRefreshToken (d_pg D) (ls_accountID l) sid '''' encToken encNonce (expiryFromJWT tok))
               (\<lambda>res. case res of
                  Ok u \<Rightarrow> Broadcast_steps (AccountLinkedEvent (ls_accountID l) sid) (Done True)
                | Fail e \<Rightarrow> Broadcast_steps (AccountErrorEvent (ls_accountID l) ''LINK_FAILED'' ''could not store refresh token'') (Done True)
                | Panic \<Rightarrow> Done False))) s'" if "grows D s s'" for s'
      using l that by (intro safe_Encrypt [OF D]) (auto simp: fin grows_def split: outcome.split intro!: safe_SaveRefreshToken [OF D])
    then show ?thesis by (simp add: callback_steps_def OnLinked clear) (use api_state.grows_trans clear in blast)
  qed (simp_all add: callback_steps_def fin clear)
qed

section \<open>Every interleaving keeps the invariant\<close>

definition threads_inv :: "Deps \<Rightarrow> Threads \<Rightarrow> bool" where
  "threads_inv D t \<longleftrightarrow> core_inv D (t_api t) \<and> (\<forall>(r, p) \<in> set (t_requests t). api_safe D p (t_api t))
     \<and> (\<forall>(l, p) \<in> set (t_callbacks t). api_safe D p (t_api t))"

lemma threads_inv_step:
  assumes D: "deps_ok D" and inv: "threads_inv D t" and st: "thread_step D P t t'"
  shows "threads_inv D t'"
proof -
  have c: "core_inv D (t_api t)" and rs: "\<forall>(r, p) \<in> set (t_requests t). api_safe D p (t_api t)"
    and cs: "\<forall>(l, p) \<in> set (t_callbacks t). api_safe D p (t_api t)" using inv by (simp_all add: threads_inv_def)
  from st show ?thesis
  proof (cases rule: thread_step.cases)
    case (request r)
    then show ?thesis using c rs cs safe_serve [OF D] by (simp add: threads_inv_def)
  next
    case (request_act i r f k)
    from api_state.pool_act [OF rs request_act(2,3) c] api_state.pool_later [OF cs] show ?thesis
      using request_act(1) by (simp add: threads_inv_def)
  next
    case (callback l cb)
    then show ?thesis using c rs cs safe_callback [OF D] by (simp add: threads_inv_def)
  next
    case (callback_act i l f k)
    from api_state.pool_act [OF cs callback_act(2,3) c] api_state.pool_later [OF rs] show ?thesis
      using callback_act(1) by (simp add: threads_inv_def)
  next
    case (ws_close w)
    have g: "grows D (t_api t) (ws_closed w (t_api t))" "core_inv D (ws_closed w (t_api t))"
      using c by (simp_all add: ws_closed_def)
    show ?thesis using ws_close g(2) api_state.pool_later [OF rs g(1)] api_state.pool_later [OF cs g(1)]
      by (simp add: threads_inv_def)
  qed
qed

lemma threads_inv_reachable:
  assumes "deps_ok D" "threads_reachable D P t"
  shows "threads_inv D t"
  using assms(2)
proof induction
  case (threads_init r lifetime)
  have "core_inv D (NewApiServer empty_db (NewKeyCache lifetime) r NewHub)"
    using api_inv_init [OF assms(1) threads_init, of lifetime] by (simp add: core_inv_def NewApiServer_def)
  then show ?case by (simp add: threads_inv_def)
qed (rule threads_inv_step [OF assms(1)])

lemma core_inv_reachable: "deps_ok D \<Longrightarrow> threads_reachable D P t \<Longrightarrow> core_inv D (t_api t)"
  using threads_inv_reachable by (simp add: threads_inv_def)

section \<open>Bounds\<close>

lemma at_most_calls: "(\<And>x. at_most n (k x)) \<Longrightarrow> at_most (Suc n) (on_db q k)"
  "(\<And>x. at_most n (k' x)) \<Longrightarrow> at_most (Suc n) (on_keys q' k')" "(\<And>x. at_most n (k'' x)) \<Longrightarrow> at_most (Suc n) (on_rand q'' k'')"
  by (simp_all add: on_db_def on_keys_def on_rand_def)

lemma at_most_cache: "at_most (Suc n) (cache_steps D r i pw salt st)"
  by (simp add: cache_steps_def split: outcome.split)

lemma at_most_serve: "at_most 5 (serve_steps D P r)"
proof -
  have five: "(5 :: nat) = Suc (Suc (Suc (Suc (Suc 0))))" by simp
  have "at_most 5 (endpoint_steps D P e ctx r)" for e ctx
    unfolding five
    by (cases e) (auto simp: Register_steps_def Login_steps_def Logout_steps_def ListSteamAccounts_steps_def
        AddSteamAccount_steps_def start_steps_def DeleteSteamAccount_steps_def SubmitAccountSteamGuard_steps_def
        ListFriends_steps_def backfill_steps_def ws_steps_def intro!: at_most_calls at_most_cache split: option.split outcome.split)
  then show ?thesis by (simp add: serve_steps_def split: option.split outcome.split)
qed

end
