(* ===== verification/Api_Concurrent.thy ===== *)
theory Api_Concurrent
  imports Api_Interleaving Api_Links
begin

text \<open>
  The properties of the interleaved API: whole handlers are among its runs, every request ends after
  a few actions of its own, and in every interleaving secrets stay with their owner.
\<close>

declare One_nat_def [simp del]

section \<open>Runs of whole handlers\<close>

text \<open>A goroutine that no other one interrupts runs to its end.\<close>

lemma run_request:
  "i < length (t_requests t) \<Longrightarrow> t_requests t ! i = (r, p) \<Longrightarrow> alone p (t_api t) = (a, s) \<Longrightarrow>
    \<exists>u. (thread_step D P)\<^sup>*\<^sup>* t u \<and> t_api u = s \<and> t_requests u = (t_requests t)[i := (r, Done a)] \<and> t_callbacks u = t_callbacks t"
proof (induction p arbitrary: t)
  case (Done b)
  then have "(t_requests t)[i := (r, Done a)] = t_requests t" by (auto simp: list_update_same_conv)
  with Done show ?case by (intro exI [of _ t]) simp
next
  case (Act f k)
  let ?v = "t\<lparr>t_api := f (t_api t), t_requests := (t_requests t)[i := (r, k (t_api t))]\<rparr>"
  have v: "thread_step D P t ?v" by (rule request_act [OF Act.prems(1,2)])
  obtain u where "(thread_step D P)\<^sup>*\<^sup>* ?v u" "t_api u = s" "t_requests u = (t_requests ?v)[i := (r, Done a)]"
    "t_callbacks u = t_callbacks ?v"
    using Act.IH [OF rangeI, of ?v] Act.prems by auto
  then show ?case using converse_rtranclp_into_rtranclp [of "thread_step D P", OF v] by (intro exI [of _ u]) simp
qed

lemma run_callback:
  "i < length (t_callbacks t) \<Longrightarrow> t_callbacks t ! i = (l, p) \<Longrightarrow> alone p (t_api t) = (a, s) \<Longrightarrow>
    \<exists>u. (thread_step D P)\<^sup>*\<^sup>* t u \<and> t_api u = s \<and> t_callbacks u = (t_callbacks t)[i := (l, Done a)] \<and> t_requests u = t_requests t"
proof (induction p arbitrary: t)
  case (Done b)
  then have "(t_callbacks t)[i := (l, Done a)] = t_callbacks t" by (auto simp: list_update_same_conv)
  with Done show ?case by (intro exI [of _ t]) simp
next
  case (Act f k)
  let ?v = "t\<lparr>t_api := f (t_api t), t_callbacks := (t_callbacks t)[i := (l, k (t_api t))]\<rparr>"
  have v: "thread_step D P t ?v" by (rule callback_act [OF Act.prems(1,2)])
  obtain u where "(thread_step D P)\<^sup>*\<^sup>* ?v u" "t_api u = s" "t_callbacks u = (t_callbacks ?v)[i := (l, Done a)]"
    "t_requests u = t_requests ?v"
    using Act.IH [OF rangeI, of ?v] Act.prems by auto
  then show ?case using converse_rtranclp_into_rtranclp [of "thread_step D P", OF v] by (intro exI [of _ u]) simp
qed

definition idle :: "Threads \<Rightarrow> bool" where
  "idle t \<longleftrightarrow> (\<forall>(r, p) \<in> set (t_requests t). \<exists>resp. p = Done resp) \<and> (\<forall>(l, p) \<in> set (t_callbacks t). \<exists>ok. p = Done ok)"

text \<open>One step of the sequential API is a run of the goroutines, and leaves them idle.\<close>

lemma sequential_step:
  assumes "api_step D P (t_api t) s'" "idle t"
  shows "\<exists>u. (thread_step D P)\<^sup>*\<^sup>* t u \<and> t_api u = s' \<and> idle u"
  using assms(1)
proof (cases rule: api_step.cases)
  case (http r resp)
  let ?v = "t\<lparr>t_requests := t_requests t @ [(r, serve_steps D P r)]\<rparr>"
  from run_request [of "length (t_requests t)" ?v r "serve_steps D P r" resp s'] obtain u where
    "(thread_step D P)\<^sup>*\<^sup>* ?v u" "t_api u = s'" "t_requests u = t_requests t @ [(r, Done resp)]" "t_callbacks u = t_callbacks t"
    using http by (auto simp: alone_serve)
  moreover have "thread_step D P t ?v" by (rule request)
  ultimately show ?thesis using assms(2) by (intro exI [of _ u]) (auto simp: idle_def intro: converse_rtranclp_into_rtranclp)
next
  case (callback l cb)
  let ?v = "t\<lparr>t_callbacks := t_callbacks t @ [(l, callback_steps D l cb)]\<rparr>"
  have "alone (callback_steps D l cb) (t_api t) = (True, s')"
    using callback(2) by (auto simp: alone_callback split: prod.splits if_splits)
  then obtain u where
    "(thread_step D P)\<^sup>*\<^sup>* ?v u" "t_api u = s'" "t_callbacks u = t_callbacks t @ [(l, Done True)]" "t_requests u = t_requests t"
    using run_callback [of "length (t_callbacks t)" ?v l "callback_steps D l cb" True s'] by auto
  moreover have "thread_step D P t ?v" by (rule thread_step.callback) (rule callback(1))
  ultimately show ?thesis using assms(2) by (intro exI [of _ u]) (auto simp: idle_def intro: converse_rtranclp_into_rtranclp)
next
  case (closed c)
  have "(thread_step D P)\<^sup>*\<^sup>* t (t\<lparr>t_api := ws_closed c (t_api t)\<rparr>)" by (rule r_into_rtranclp) (rule ws_close)
  then show ?thesis using assms(2) closed by (intro exI conjI) (assumption, simp_all add: idle_def)
qed

lemma threads_reachable_steps: "(thread_step D P)\<^sup>*\<^sup>* t u \<Longrightarrow> threads_reachable D P t \<Longrightarrow> threads_reachable D P u"
  by (induction rule: rtranclp_induct) (auto intro: threads_next)

lemma sequential_run:
  assumes "api_reachable D P s"
  shows "\<exists>t. threads_reachable D P t \<and> t_api t = s \<and> idle t"
  using assms
proof induction
  case (api_init r lifetime)
  then show ?case using threads_init [of r D P lifetime] by (intro exI conjI) (assumption, simp_all add: idle_def)
next
  case (api_next s s')
  then obtain t where t: "threads_reachable D P t" "t_api t = s" "idle t" by blast
  with api_next(2) sequential_step [of D P t s'] obtain u where "(thread_step D P)\<^sup>*\<^sup>* t u" "t_api u = s'" "idle u" by blast
  then show ?case using threads_reachable_steps t(1) by blast
qed

section \<open>Actions of one request\<close>

text \<open>\<open>n\<close> actions of request \<open>i\<close> between two states, and any number of the others.\<close>

inductive acts_of :: "Deps \<Rightarrow> Platform \<Rightarrow> nat \<Rightarrow> nat \<Rightarrow> Threads \<Rightarrow> Threads \<Rightarrow> bool" for D P i where
  acts_none: "acts_of D P i 0 t t"
| acts_other: "acts_of D P i n t u \<Longrightarrow> thread_step D P u v \<Longrightarrow> i < length (t_requests v) \<Longrightarrow>
     t_requests v ! i = t_requests u ! i \<Longrightarrow> acts_of D P i n t v"
| acts_own: "acts_of D P i n t u \<Longrightarrow> i < length (t_requests u) \<Longrightarrow> t_requests u ! i = (r, Act f k) \<Longrightarrow>
     acts_of D P i (Suc n) t (u\<lparr>t_api := f (t_api u), t_requests := (t_requests u)[i := (r, k (t_api u))]\<rparr>)"

lemma acts_of_bound:
  assumes "acts_of D P i n t u" "i < length (t_requests t)" "at_most m (snd (t_requests t ! i))"
  shows "n \<le> m \<and> i < length (t_requests u) \<and> at_most (m - n) (snd (t_requests u ! i))"
  using assms
proof induction
  case (acts_own n t u r f k)
  then have "n \<le> m" "at_most (m - n) (Act f k)" by simp_all
  then obtain j where "m - n = Suc j" "\<forall>s. at_most j (k s)" by (cases "m - n") auto
  moreover then have "j = m - Suc n" "Suc n \<le> m" by simp_all
  ultimately show ?case using acts_own by simp
qed simp_all

section \<open>Properties\<close>





text \<open>
  C5: in every interleaving of the accesses of any number of requests and link callbacks, a stored
  refresh token is a valid ciphertext, under its stored nonce, of a key that derives with the
  owner's salt from a password that logs the owner of the account in, and that a link for this
  very account was started with.
\<close>

theorem interleaved_tokens_belong_to_owner:
  assumes "deps_ok D" "threads_reachable D P t" "a \<in> set (steam_accounts (s_db (t_api t)))" "r_enc_refresh_token a = Some ct"
  shows "\<exists>u \<in> set (users (s_db (t_api t))). u_ID u = r_user_id a \<and> (\<exists>pw key non tok.
    Verify (d_crypto D) (d_hasher D) pw (u_PasswordHash u) = Ok True \<and> DeriveKey (d_crypto D) pw (u_KDFSalt u) = Ok key
    \<and> length key = 32 \<and> r_enc_refresh_nonce a = Some non \<and> Decrypt (d_crypto D) key ct non = Ok tok
    \<and> (\<exists>l \<in> set (s_started (t_api t)). ls_accountID l = r_id a \<and> ls_key l = key))"
proof -
  have "cred_ok D (s_db (t_api t)) (s_started (t_api t)) a"
    using core_inv_reachable [OF assms(1,2)] assms(3) by (simp add: core_inv_def api_inv_def)
  then show ?thesis using assms(4) unfolding cred_ok_def user_key_def by blast
qed

theorem interleaved_tokens_belong_to_owner_witness:
  "\<exists>(t :: Threads) (a :: account_row) ct (u :: User). u \<in> set (users (s_db (t_api t))) \<and> u_ID u = r_user_id a
     \<and> r_enc_refresh_token a = Some ct \<and> (\<exists>pw key non tok.
    Verify (d_crypto ref_deps) (d_hasher ref_deps) pw (u_PasswordHash u) = Ok True
    \<and> r_enc_refresh_nonce a = Some non \<and> Decrypt (d_crypto ref_deps) key ct non = Ok tok)"
proof -
  obtain s a ct where s: "api_reachable ref_deps ref_platform s" "a \<in> set (steam_accounts (s_db s))"
    "r_enc_refresh_token a = Some ct" by (rule ann_linked)
  obtain t where t: "threads_reachable ref_deps ref_platform t" "t_api t = s" using sequential_run [OF s(1)] by blast
  obtain u pw key non tok where "u \<in> set (users (s_db s))" "u_ID u = r_user_id a"
    "Verify (d_crypto ref_deps) (d_hasher ref_deps) pw (u_PasswordHash u) = Ok True"
    "r_enc_refresh_nonce a = Some non" "Decrypt (d_crypto ref_deps) key ct non = Ok tok"
    using interleaved_tokens_belong_to_owner [OF ref_deps_ok t(1), of a ct] s(2,3) t(2) by blast
  with s(3) t(2) show ?thesis by blast
qed

text \<open>
  C6: in every interleaving, a key in the cache is filed under an existing user and derives, with
  that user's salt, from a password that logs this user in: a request never works with the key of
  another user, whatever registrations and logins run at the same time.
\<close>

theorem interleaved_keys_belong_to_user:
  assumes "deps_ok D" "threads_reachable D P t" "Get now uid (s_keys (t_api t)) = (Some key, ks)"
  shows "\<exists>u \<in> set (users (s_db (t_api t))). u_ID u = uid \<and> (\<exists>pw.
    Verify (d_crypto D) (d_hasher D) pw (u_PasswordHash u) = Ok True \<and> DeriveKey (d_crypto D) pw (u_KDFSalt u) = Ok key)"
proof -
  have "api_inv D ((t_api t)\<lparr>s_linkReqs := Map.empty\<rparr>)"
    using core_inv_reachable [OF assms(1,2)] by (simp add: core_inv_def)
  then obtain u where "u \<in> set (users (s_db (t_api t)))" "u_ID u = uid" "user_key D u key"
    using Get_user_key [of D "(t_api t)\<lparr>s_linkReqs := Map.empty\<rparr>" now uid key ks] assms(3) by auto
  then show ?thesis unfolding user_key_def by blast
qed

theorem interleaved_keys_belong_to_user_witness:
  "\<exists>(t :: Threads) key (u :: User). Get 5 ''u'' (s_keys (t_api t)) = (Some key, s_keys (t_api t))
     \<and> u \<in> set (users (s_db (t_api t))) \<and> u_ID u = ''u''"
proof -
  obtain s key tok where s: "api_reachable ref_deps ref_platform s" "has_key s 5 ''u'' key"
    using ann_registered by metis
  obtain t where t: "threads_reachable ref_deps ref_platform t" "t_api t = s" using sequential_run [OF s(1)] by blast
  obtain ks where k: "Get 5 ''u'' (s_keys (t_api t)) = (Some key, ks)" using Get_has_key s(2) t(2) by blast
  obtain u where "u \<in> set (users (s_db (t_api t)))" "u_ID u = ''u''"
    using interleaved_keys_belong_to_user [OF ref_deps_ok t(1) k] by blast
  with k Get_live_keeps [OF k] show ?thesis by blast
qed

end
