(* ===== verification/Worker_Machine.thy ===== *)
theory Worker_Machine
  imports Session_Machine Worker_Protocol
begin

text \<open>
  The state machine of the Python worker (\<open>src/worker/state_machine.py\<close>): its enums, its table and
  \<open>next_state\<close>, and how it fits the session machine of the control plane
  (\<open>internal/sessions/state.go\<close>), which follows the same session from the other end of the stream.
\<close>

section \<open>States, events and the table\<close>

datatype Agent_State = STOPPED | STARTING | IDLE | SPECTATING | STOPPING

datatype Agent_Event = STREAM_CONNECTED | START_SPECTATE | STREAM_STARTED | STOP_SPECTATE
  | FATAL_ERROR | CLEANUP_DONE

record InvalidTransition =
  it_state :: Agent_State
  it_event :: Agent_Event

definition TRANSITIONS :: "Agent_State \<times> Agent_Event \<rightharpoonup> Agent_State" where
  "TRANSITIONS = [
     (STOPPED, STREAM_CONNECTED) \<mapsto> IDLE,
     (IDLE, START_SPECTATE) \<mapsto> STARTING,
     (STARTING, STREAM_STARTED) \<mapsto> SPECTATING,
     (STARTING, STOP_SPECTATE) \<mapsto> STOPPING,
     (STARTING, FATAL_ERROR) \<mapsto> STOPPING,
     (SPECTATING, STOP_SPECTATE) \<mapsto> STOPPING,
     (SPECTATING, FATAL_ERROR) \<mapsto> STOPPING,
     (STOPPING, CLEANUP_DONE) \<mapsto> IDLE]"

definition next_state :: "Agent_State \<Rightarrow> Agent_Event \<Rightarrow> InvalidTransition + Agent_State" where
  "next_state cur ev = (case TRANSITIONS (cur, ev) of
     Some s \<Rightarrow> Inr s
   | None \<Rightarrow> Inl \<lparr>it_state = cur, it_event = ev\<rparr>)"

text \<open>A sequence of events, the rejected ones ignored, as the agent does.\<close>

fun agent_drive :: "Agent_State \<Rightarrow> Agent_Event list \<Rightarrow> Agent_State" where
  "agent_drive s [] = s"
| "agent_drive s (e # es) = agent_drive (case next_state s e of Inr s' \<Rightarrow> s' | Inl _ \<Rightarrow> s) es"

text \<open>The number of a state in the messages (\<open>WorkerState\<close> of the protocol).\<close>

fun PROTO_STATE :: "Agent_State \<Rightarrow> WorkerState" where
  "PROTO_STATE STOPPED = 1"
| "PROTO_STATE STARTING = 2"
| "PROTO_STATE IDLE = 3"
| "PROTO_STATE SPECTATING = 4"
| "PROTO_STATE STOPPING = 5"

section \<open>The session as seen from both ends\<close>

fun session_of :: "Agent_State \<Rightarrow> State" where
  "session_of STOPPED = StateOff"
| "session_of STARTING = StateStarting"
| "session_of IDLE = StateOff"
| "session_of SPECTATING = StateWatching"
| "session_of STOPPING = StateStopping"

fun cause_of :: "Agent_Event \<Rightarrow> Event option" where
  "cause_of STREAM_CONNECTED = None"
| "cause_of START_SPECTATE = Some EventStart"
| "cause_of STREAM_STARTED = Some EventStreamStarted"
| "cause_of STOP_SPECTATE = Some EventStop"
| "cause_of FATAL_ERROR = Some EventFatalError"
| "cause_of CLEANUP_DONE = Some EventWorkerIdle"

lemmas machine_defs = next_state_def TRANSITIONS_def

lemma next_state_STREAM_CONNECTED:
  "next_state s STREAM_CONNECTED = (if s = STOPPED then Inr IDLE else Inl \<lparr>it_state = s, it_event = STREAM_CONNECTED\<rparr>)"
  by (cases s) (simp_all add: machine_defs)

lemma never_STOPPED_again: "next_state s e \<noteq> Inr STOPPED"
  by (cases s; cases e) (simp_all add: machine_defs)

lemma step_agrees:
  assumes "s \<noteq> STOPPED" "cause_of e = Some c"
  shows "Next (session_of s) c = (case next_state s e of
      Inr s' \<Rightarrow> (session_of s', None)
    | Inl _ \<Rightarrow> (session_of s, Some \<lparr>From = session_of s, On = c\<rparr>))"
  using assms
  by (cases s; cases e) (auto simp: machine_defs Next_Off Next_Starting Next_Watching Next_Stopping)

lemma drive_agrees:
  "s \<noteq> STOPPED \<Longrightarrow> agent_drive s es \<noteq> STOPPED \<and>
     drive (session_of s) (List.map_filter cause_of es) = session_of (agent_drive s es)"
proof (induction es arbitrary: s)
  case (Cons e es)
  let ?s' = "case next_state s e of Inr s' \<Rightarrow> s' | Inl _ \<Rightarrow> s"
  have ne: "?s' \<noteq> STOPPED" using Cons.prems never_STOPPED_again [of s e] by (auto split: sum.split)
  show ?case
  proof (cases "cause_of e")
    case None
    then have "?s' = s" using Cons.prems by (cases e) (simp_all add: next_state_STREAM_CONNECTED)
    then show ?thesis using Cons None by (simp add: List.map_filter_simps)
  next
    case (Some c)
    have "fst (Next (session_of s) c) = session_of ?s'"
      using step_agrees [OF Cons.prems Some] by (simp split: sum.split)
    then show ?thesis using Cons.IH [OF ne] Some by (simp add: List.map_filter_simps)
  qed
qed (simp add: List.map_filter_simps)

section \<open>Property\<close>

text \<open>
  C35: The worker and the control plane agree on the session. From the moment the stream is connected,
  the same events drive the worker's machine and the control plane's through states that
  correspond (idle to off, spectating to watching), both refuse the same events in corresponding states
  and stay where they are, and the worker is never stopped again; a second connection event changes nothing.
\<close>

theorem worker_follows_session:
  shows "next_state STOPPED STREAM_CONNECTED = Inr IDLE
    \<and> drive StateOff (List.map_filter cause_of es) = session_of (agent_drive IDLE es)
    \<and> agent_drive IDLE es \<noteq> STOPPED
    \<and> agent_drive IDLE (filter (\<lambda>e. e \<noteq> STREAM_CONNECTED) es) = agent_drive IDLE es
    \<and> (\<exists>err. next_state (agent_drive IDLE es) STREAM_CONNECTED = Inl err)
    \<and> (case cause_of e of None \<Rightarrow> True | Some c \<Rightarrow> Next (session_of (agent_drive IDLE es)) c =
        (case next_state (agent_drive IDLE es) e of
           Inr s' \<Rightarrow> (session_of s', None)
         | Inl _ \<Rightarrow> (session_of (agent_drive IDLE es), Some \<lparr>From = session_of (agent_drive IDLE es), On = c\<rparr>)))"
proof -
  have r: "drive StateOff (List.map_filter cause_of es) = session_of (agent_drive IDLE es)" "agent_drive IDLE es \<noteq> STOPPED"
    using drive_agrees [of IDLE es] by simp_all
  moreover have "agent_drive s (filter (\<lambda>e. e \<noteq> STREAM_CONNECTED) es) = agent_drive s es" if "s \<noteq> STOPPED" for s
    using that
  proof (induction es arbitrary: s)
    case (Cons e es)
    show ?case
      using Cons.prems Cons.IH [of s] Cons.IH [of "case next_state s e of Inr s' \<Rightarrow> s' | Inl _ \<Rightarrow> s"] never_STOPPED_again [of s e]
      by (auto simp: next_state_STREAM_CONNECTED split: sum.splits)
  qed simp
  ultimately show ?thesis
    using step_agrees [OF r(2), of e] by (auto simp: next_state_STREAM_CONNECTED split: option.split)
qed

end
