(* ===== verification/Steam_Client.thy ===== *)
theory Steam_Client
  imports Worker_Protocol Go_Base64 Go_Json
begin

text \<open>
  The pure part of \<open>src/worker/steam_client.py\<close>: its exceptions, \<open>derive_status\<close>,
  \<open>classify_confirmation\<close>, and \<open>steam_id_from_jwt\<close> with the base64 decoding of Python. A Python
  \<open>str\<close> is its UTF-8 text. \<open>json.loads\<close>, the \<open>str\<close> of a number, list or dict, and the RSA of
  Cryptodome are parameters.
\<close>

section \<open>Exceptions and parameters\<close>

text \<open>\<open>ValueError\<close> with its subclasses, and every other exception of a library.\<close>

datatype Exn =
    LoginError string
  | SteamGuardRequired string   \<comment> \<open>the guard type\<close>
  | ValueError string
  | OtherError string

fun str_exc :: "Exn \<Rightarrow> string" where
  "str_exc (LoginError m) = m"
| "str_exc (SteamGuardRequired g) = ''steam guard required ('' @ g @ '')''"
| "str_exc (ValueError m) = m"
| "str_exc (OtherError m) = m"

record Py =
  loads :: "bytes \<Rightarrow> Exn + json"
  py_str :: "json \<Rightarrow> string"
  rsa_encrypt_password :: "string \<Rightarrow> string \<Rightarrow> string \<Rightarrow> Exn + string"

fun str_of :: "Py \<Rightarrow> json \<Rightarrow> string" where
  "str_of P (JStr s) = s"
| "str_of P JNull = ''None''"
| "str_of P (JBool b) = (if b then ''True'' else ''False'')"
| "str_of P j = py_str P j"

fun type_name :: "json \<Rightarrow> string" where
  "type_name JNull = ''NoneType''"
| "type_name (JBool b) = ''bool''"
| "type_name (JNum lit) = (if set lit \<inter> set ''.eENI'' = {} then ''int'' else ''float'')"
| "type_name (JStr s) = ''str''"
| "type_name (JArr js) = ''list''"
| "type_name (JObj ms) = ''dict''"

section \<open>Status and confirmations\<close>

definition DOTA2_APP_ID :: int where
  "DOTA2_APP_ID = 570"

definition PERSONA_STATE_OFFLINE :: int where
  "PERSONA_STATE_OFFLINE = 0"

definition derive_status :: "int \<Rightarrow> int option \<Rightarrow> bool \<times> bool" where
  "derive_status persona_state game_app_id =
     (persona_state \<noteq> PERSONA_STATE_OFFLINE, game_app_id = Some DOTA2_APP_ID)"

definition GUARD_NONE :: int where "GUARD_NONE = 1"
definition GUARD_EMAIL_CODE :: int where "GUARD_EMAIL_CODE = 2"
definition GUARD_DEVICE_CODE :: int where "GUARD_DEVICE_CODE = 3"
definition GUARD_DEVICE_CONFIRMATION :: int where "GUARD_DEVICE_CONFIRMATION = 4"
definition GUARD_EMAIL_CONFIRMATION :: int where "GUARD_EMAIL_CONFIRMATION = 5"

definition classify_confirmation :: "int list \<Rightarrow> string" where
  "classify_confirmation confirmation_types =
     (let present = set confirmation_types in
      if GUARD_EMAIL_CODE \<in> present then ''email''
      else if GUARD_DEVICE_CODE \<in> present then ''device''
      else if present \<inter> {GUARD_DEVICE_CONFIRMATION, GUARD_EMAIL_CONFIRMATION} \<noteq> {} then ''poll''
      else ''none'')"

section \<open>Base64 as Python decodes it\<close>

text \<open>
  \<open>binascii.a2b_base64\<close>: characters outside the alphabet are skipped, padding that completes a
  quantum ends the input, an incomplete quantum at the end is an error. The arguments are the
  position in the quantum, the bits left over and the padding seen.
\<close>

fun a2b_base64 :: "nat \<Rightarrow> nat \<Rightarrow> nat \<Rightarrow> string \<Rightarrow> nat list option" where
  "a2b_base64 q left pads [] = (if q = 0 then Some [] else None)"
| "a2b_base64 q left pads (c # cs) =
     (if c = CHR ''='' then
        if 2 \<le> q then (if 4 \<le> q + Suc pads then Some [] else a2b_base64 q left (Suc pads) cs)
        else a2b_base64 q left pads cs
      else case index_of c StdAlphabet of
        None \<Rightarrow> a2b_base64 q left pads cs
      | Some v \<Rightarrow>
          if q = 0 then a2b_base64 1 v 0 cs
          else if q = 1 then map_option ((#) (left * 4 + v div 16)) (a2b_base64 2 (v mod 16) 0 cs)
          else if q = 2 then map_option ((#) (left * 16 + v div 4)) (a2b_base64 3 (v mod 4) 0 cs)
          else map_option ((#) (left * 64 + v)) (a2b_base64 0 0 0 cs))"

fun urlsafe_char :: "char \<Rightarrow> char" where
  "urlsafe_char c = (if c = CHR ''-'' then CHR ''+'' else if c = CHR ''_'' then CHR ''/'' else c)"

text \<open>\<open>base64.urlsafe_b64decode\<close> of a \<open>str\<close>: \<open>None\<close> is a \<open>ValueError\<close>.\<close>

definition urlsafe_b64decode :: "string \<Rightarrow> bytes option" where
  "urlsafe_b64decode s =
     (if ascii s then map_option (map word_of_nat) (a2b_base64 0 0 0 (map urlsafe_char s)) else None)"

definition pad4 :: "string \<Rightarrow> string" where
  "pad4 payload = payload @ replicate (nat ((- int (length payload)) mod 4)) CHR ''=''"

definition steam_id_from_jwt :: "Py \<Rightarrow> string \<Rightarrow> Exn + string" where
  "steam_id_from_jwt P token =
     (case split_on CHR ''.'' token of
        h # payload # segs \<Rightarrow>
          (case urlsafe_b64decode (pad4 payload) of
             None \<Rightarrow> Inr ''''
           | Some b \<Rightarrow>
               (case loads P b of
                  Inl (ValueError m) \<Rightarrow> Inr ''''
                | Inl e \<Rightarrow> Inl e
                | Inr claims \<Rightarrow>
                    (case claims of
                       JObj ms \<Rightarrow> Inr (case map_of (rev ms) ''sub'' of None \<Rightarrow> '''' | Some v \<Rightarrow> str_of P v)
                     | j \<Rightarrow> Inl (OtherError (CHR 0x27 # type_name j @ CHR 0x27 # '' object has no attribute '' @ CHR 0x27 # ''get'' @ [CHR 0x27])))))
      | ws \<Rightarrow> Inr '''')"

section \<open>Decoding what was encoded\<close>

lemma urlsafe_alphabet: "map urlsafe_char URLAlphabet = StdAlphabet"
  by (simp add: URLAlphabet_def StdAlphabet_def)

lemma urlsafe_nth:
  assumes "i < 64"
  shows "index_of (urlsafe_char (URLAlphabet ! i)) StdAlphabet = Some i"
    and "urlsafe_char (URLAlphabet ! i) \<noteq> CHR ''=''"
proof -
  have n: "urlsafe_char (URLAlphabet ! i) = StdAlphabet ! i"
    using assms URLAlphabet_ok nth_map [of i URLAlphabet urlsafe_char] by (simp add: urlsafe_alphabet alphabet_ok_def)
  then show "index_of (urlsafe_char (URLAlphabet ! i)) StdAlphabet = Some i"
    using assms index_of_alphabet [OF StdAlphabet_ok] by simp
  have "StdAlphabet ! i \<in> set StdAlphabet" using assms StdAlphabet_ok by (simp add: alphabet_ok_def)
  moreover have "CHR ''='' \<notin> set StdAlphabet" by (simp add: StdAlphabet_def)
  ultimately show "urlsafe_char (URLAlphabet ! i) \<noteq> CHR ''=''" using n by metis
qed

text \<open>The sextets of three octets, and the octets put together from them.\<close>

lemma mod_64: "m * n = 64 \<Longrightarrow> r < m \<Longrightarrow> (a * m + r) mod 64 = (a mod n) * m + (r :: nat)"
proof -
  assume r: "m * n = 64" "r < m"
  have "a * m = (n * (a div n) + a mod n) * m" by simp
  then have "a * m + r = 64 * (a div n) + (a mod n * m + r)" unfolding r(1) [symmetric] by (simp only: algebra_simps)
  then have "(a * m + r) mod 64 = ((a mod n) * m + r) mod 64" by (simp only: mod_mult_self4)
  moreover have "0 < n" using r(1) by (cases n) auto
  then have "a mod n * m + r < n * m"
    using r(2) mod_less_divisor [of n a] by (metis Suc_leI add_less_le_mono add.commute less_le_trans mult_Suc mult_le_mono1 nat_add_left_cancel_less)
  ultimately show ?thesis using r(1) by (simp add: mult.commute)
qed

lemma sextets_of_octets:
  fixes a b c :: nat
  assumes "b < 256" "c < 256" "v = a * 65536 + b * 256 + c"
  shows "v div 262144 = a div 4" "v div 4096 mod 64 = (a mod 4) * 16 + b div 16"
    "v div 64 mod 64 = (b mod 16) * 4 + c div 64" "v mod 64 = c mod 64"
proof -
  have o: "v div 65536 = a" "v div 256 = a * 256 + b" using assms by simp_all
  have "v div 262144 = v div 65536 div 4" by (simp add: div_mult2_eq [symmetric])
  then show "v div 262144 = a div 4" using o by simp
  have "v div 4096 = v div 256 div 16" by (simp add: div_mult2_eq [symmetric])
  then have "v div 4096 = a * 16 + b div 16" using o by simp
  then show "v div 4096 mod 64 = (a mod 4) * 16 + b div 16" using mod_64 [of 16 4 "b div 16" a] assms(1) by simp
  have "v = (a * 1024 + b * 4) * 64 + c" by (simp add: assms(3))
  then have "v div 64 = a * 1024 + b * 4 + c div 64" "v mod 64 = c mod 64"
    by (metis add.commute div_mult_self3 zero_neq_numeral, metis mod_mult_self3)
  then show "v div 64 mod 64 = (b mod 16) * 4 + c div 64" "v mod 64 = c mod 64"
    using mod_64 [of 4 16 "c div 64" "a * 256 + b"] assms(2) mod_mult_self3 [of "a * 16" 16 b] by (simp_all add: algebra_simps)
qed

lemma a2b_sextet:
  assumes "i < 64"
  shows "a2b_base64 0 l p (urlsafe_char (URLAlphabet ! i) # cs) = a2b_base64 1 i 0 cs"
    and "a2b_base64 1 l p (urlsafe_char (URLAlphabet ! i) # cs) = map_option ((#) (l * 4 + i div 16)) (a2b_base64 2 (i mod 16) 0 cs)"
    and "a2b_base64 2 l p (urlsafe_char (URLAlphabet ! i) # cs) = map_option ((#) (l * 16 + i div 4)) (a2b_base64 3 (i mod 4) 0 cs)"
    and "a2b_base64 3 l p (urlsafe_char (URLAlphabet ! i) # cs) = map_option ((#) (l * 64 + i)) (a2b_base64 0 0 0 cs)"
  using urlsafe_nth [OF assms] by simp_all

lemma a2b_end: "a2b_base64 0 l p [] = Some []" "a2b_base64 2 l 0 ''=='' = Some []" "a2b_base64 3 l 0 ''='' = Some []"
  by simp_all

lemma nat_sextets:
  fixes a b c :: nat
  assumes "a < 256" "b < 256" "c < 256"
  shows "a div 4 < 64" "(a mod 4) * 16 + b div 16 < 64" "(b mod 16) * 4 + c div 64 < 64" "c mod 64 < 64"
    "a div 4 * 4 + ((a mod 4) * 16 + b div 16) div 16 = a"
    "((a mod 4) * 16 + b div 16) mod 16 * 16 + ((b mod 16) * 4 + c div 64) div 4 = b"
    "((b mod 16) * 4 + c div 64) mod 4 * 64 + c mod 64 = c"
proof -
  have "b div 16 < 16" "c div 64 < 4" using assms by auto
  moreover have "a mod 4 < 4" "b mod 16 < 16" by simp_all
  ultimately show "a div 4 < 64" "(a mod 4) * 16 + b div 16 < 64" "(b mod 16) * 4 + c div 64 < 64" "c mod 64 < 64"
    "a div 4 * 4 + ((a mod 4) * 16 + b div 16) div 16 = a"
    "((a mod 4) * 16 + b div 16) mod 16 * 16 + ((b mod 16) * 4 + c div 64) div 4 = b"
    "((b mod 16) * 4 + c div 64) mod 4 * 64 + c mod 64 = c"
    using assms by simp_all
qed

lemma pad_of_two: "replicate (nat ((- int (length [x, y])) mod 4)) c = [c, c]"
  and pad_of_three: "replicate (nat ((- int (length [x, y, z])) mod 4)) c = [c]"
  by (simp_all add: numeral_2_eq_2)

lemma a2b_encoded:
  "al = URLAlphabet \<Longrightarrow> \<forall>x \<in> set ns. x < 256 \<Longrightarrow> a2b_base64 0 l p (map urlsafe_char (encode_quanta al ns) @
     replicate (nat ((- int (length (encode_quanta al ns))) mod 4)) CHR ''='') = Some ns"
proof (induction al ns arbitrary: l p rule: encode_quanta.induct)
  case (1 al)
  then show ?case by simp
next
  case (2 al a)
  then have "a < 256" by simp
  note n = nat_sextets [OF this, of 0 0] and s = sextets_of_octets [of 0 0 "a * 65536" a]
  show ?case
    unfolding encode_quanta.simps Let_def 2(1) pad_of_two using n s
    by (simp add: a2b_sextet a2b_end del: urlsafe_char.simps a2b_base64.simps One_nat_def)
next
  case (3 al a b)
  then have ab: "a < 256" "b < 256" by simp_all
  have "b div 16 mod 16 * 16 + b mod 16 = b" using ab(2) by simp
  note n = this nat_sextets [OF ab, of 0] and s = sextets_of_octets [OF ab(2), of 0 "a * 65536 + b * 256" a]
  show ?case
    unfolding encode_quanta.simps Let_def 3(1) pad_of_three using n(2-) s
    by (simp add: a2b_sextet a2b_end n(1) del: urlsafe_char.simps a2b_base64.simps One_nat_def div_mult2_eq [symmetric])
next
  case (4 al a b c r)
  then have abc: "a < 256" "b < 256" "c < 256" by simp_all
  note n = nat_sextets [OF abc] and s = sextets_of_octets [OF abc(2,3) refl]
  have len: "(- int (length (x # y # z # u # xs))) mod 4 = (- int (length xs)) mod 4" for x y z u :: char and xs
    by simp presburger
  have "a2b_base64 0 0 0 (map urlsafe_char (encode_quanta al r) @
     replicate (nat ((- int (length (encode_quanta al r))) mod 4)) CHR ''='') = Some r" using 4(1) [OF refl 4(2), of 0 0] 4(3) by (simp del: urlsafe_char.simps)
  then show ?case
    unfolding encode_quanta.simps Let_def len unfolding 4(2) s using n
    by (simp add: a2b_sextet del: urlsafe_char.simps a2b_base64.simps One_nat_def)
qed

lemma urlsafe_b64decode_encode:
  "urlsafe_b64decode (pad4 (b64_encode URLAlphabet b)) = Some b"
proof -
  have "\<forall>x \<in> set (map unat b). x < 256" by simp
  from a2b_encoded [OF refl this, of 0 0]
  have "a2b_base64 0 0 0 (map urlsafe_char (pad4 (b64_encode URLAlphabet b))) = Some (map unat b)"
    by (simp add: pad4_def b64_encode_def)
  moreover have "set (b64_encode URLAlphabet b) \<subseteq> set URLAlphabet" by (rule b64_encode_chars) simp
  moreover have "list_all (\<lambda>c. (of_char c :: nat) < 128) URLAlphabet" by (simp add: URLAlphabet_def)
  ultimately show ?thesis
    by (auto simp: urlsafe_b64decode_def ascii_def pad4_def list_all_iff map_idI)
qed

section \<open>Property\<close>

text \<open>The \<open>json.loads\<close> that parses with the JSON grammar of the development.\<close>

definition ref_py :: Py where
  "ref_py = \<lparr>loads = (\<lambda>b. case Unmarshal_value (string_of_bytes b) of
       None \<Rightarrow> Inl (ValueError ''Expecting value'') | Some j \<Rightarrow> Inr j),
     py_str = json_encode, rsa_encrypt_password = (\<lambda>p m e. Inr p)\<rparr>"



end
