(* ===== verification/Worker_Agent.thy ===== *)
theory Worker_Agent
  imports Complex_Main Worker_Machine Steam_Client
begin

text \<open>
  The Python worker (\<open>src/worker/agent.py\<close>, \<open>grpc_client.py\<close> and the stateful part of
  \<open>steam_client.py\<close>): the stream thread that dispatches commands, one thread for every \<open>LinkAccount\<close>
  and \<open>ListFriends\<close>, the Steam session they share and the outbox they write to. A step is one access of
  one thread to what is shared, or one call of a library; what Steam, python-steam and the clock
  answer is a choice of the step: any answer, or any exception. A message is the record of
  \<open>Worker_Protocol\<close>, a duration or a monotonic time a rational number of seconds.
\<close>

section \<open>Events\<close>

definition GUARD_TYPE :: "string \<Rightarrow> SteamGuardType" where
  "GUARD_TYPE g = (if g = ''EMAIL'' then SteamGuardType_EMAIL
     else if g = ''MOBILE'' then SteamGuardType_MOBILE else SteamGuardType_UNSPECIFIED)"

fun FRIENDS_ERROR_CODE :: "Exn \<Rightarrow> string" where
  "FRIENDS_ERROR_CODE (SteamGuardRequired g) = ''STEAM_GUARD_REQUIRED''"
| "FRIENDS_ERROR_CODE (LoginError m) = ''LOGIN_FAILED''"
| "FRIENDS_ERROR_CODE e = ''STEAM_ERROR''"

fun LINK_ERROR_CODE :: "Exn \<Rightarrow> string" where
  "LINK_ERROR_CODE (LoginError m) = ''LOGIN_FAILED''"
| "LINK_ERROR_CODE e = ''STEAM_ERROR''"

definition event :: "WorkerEvent_Payload \<Rightarrow> WorkerEvent" where
  "event p = \<lparr>ev_WorkerId = '''', ev_Payload = Some p\<rparr>"

definition friends_ok_event :: "string \<Rightarrow> string \<Rightarrow> Friend list \<Rightarrow> WorkerEvent" where
  "friends_ok_event request_id owner friends = event (Ev_FriendsResult
     \<lparr>fres_RequestId = request_id, fres_Friends = friends, fres_OwnerSteamId = owner, fres_Error = None\<rparr>)"

definition friends_error_event :: "string \<Rightarrow> Exn \<Rightarrow> WorkerEvent" where
  "friends_error_event request_id e = event (Ev_FriendsResult
     \<lparr>fres_RequestId = request_id, fres_Friends = [], fres_OwnerSteamId = '''',
      fres_Error = Some \<lparr>ee_Code = FRIENDS_ERROR_CODE e, ee_Message = str_exc e, ee_Fatal = False\<rparr>\<rparr>)"

definition link_ok_event :: "string \<Rightarrow> string \<Rightarrow> string \<Rightarrow> WorkerEvent" where
  "link_ok_event request_id owner refresh_token = event (Ev_LinkResult
     \<lparr>lres_RequestId = request_id, lres_OwnerSteamId = owner, lres_Error = None, lres_RefreshToken = refresh_token\<rparr>)"

definition link_error_event :: "string \<Rightarrow> Exn \<Rightarrow> WorkerEvent" where
  "link_error_event request_id e = event (Ev_LinkResult
     \<lparr>lres_RequestId = request_id, lres_OwnerSteamId = '''',
      lres_Error = Some \<lparr>ee_Code = LINK_ERROR_CODE e, ee_Message = str_exc e, ee_Fatal = False\<rparr>,
      lres_RefreshToken = ''''\<rparr>)"

definition qr_challenge_event :: "string \<Rightarrow> string \<Rightarrow> WorkerEvent" where
  "qr_challenge_event request_id url = event (Ev_QrChallenge \<lparr>qr_RequestId = request_id, qr_ChallengeUrl = url\<rparr>)"

definition steam_guard_event :: "string \<Rightarrow> string \<Rightarrow> WorkerEvent" where
  "steam_guard_event request_id guard_type =
     event (Ev_SteamGuard \<lparr>sg_GuardType = GUARD_TYPE guard_type, sg_RequestId = request_id\<rparr>)"

section \<open>What Steam is asked and answers\<close>

record BeginQr_Resp =
  bq_client_id :: "64 word"
  bq_request_id :: bytes
  bq_interval :: rat
  bq_challenge_url :: string

record RsaKey_Resp =
  rk_mod :: string
  rk_exp :: string
  rk_timestamp :: "64 word"

record BeginCred_Resp =
  bc_client_id :: "64 word"
  bc_steamid :: "64 word"
  bc_request_id :: bytes
  bc_interval :: rat
  bc_confirmations :: "int list"

record PollStatus_Resp =
  ps_new_client_id :: "64 word"
  ps_new_challenge_url :: string
  ps_refresh_token :: string

datatype Steam_Request =
    BeginAuthSessionViaQR
  | GetPasswordRSAPublicKey string
  | BeginAuthSessionViaCredentials string string "64 word"
  | UpdateAuthSessionWithSteamGuardCode "64 word" "64 word" string int
  | PollAuthSessionStatus "64 word" bytes

text \<open>An \<open>EResult\<close> of python-steam, with its \<open>repr\<close> when it is not \<open>OK\<close>; a friend of its list.\<close>

datatype EResult = EResult_OK | EResult_Other string

record Steam_User =
  su_state :: "int option"
  su_played :: "int option"
  su_as_64 :: nat
  su_name :: "string option"

section \<open>Threads\<close>

record SteamSession =
  sn_client :: bool              \<comment> \<open>\<open>_client\<close> has been made\<close>
  sn_steam_id :: "string option"
  sn_guard_event :: bool
  sn_guard_code :: "string option"

record Polling =
  pn_client_id :: "64 word"
  pn_request_id :: bytes
  pn_wait :: rat
  pn_deadline :: rat
  pn_on_challenge :: bool        \<comment> \<open>\<open>on_new_challenge\<close> is not None\<close>

text \<open>The command a thread was started for, and where it is.\<close>

datatype job = LinkJob LinkAccount | FriendsJob ListFriends

datatype thread_pc =
    Qr_Begin
  | Cred_Key
  | Cred_Begin string "64 word"
  | Cred_Prompt BeginCred_Resp string
  | Cred_Enter BeginCred_Resp string
  | Cred_Wait BeginCred_Resp string rat
  | Cred_Take BeginCred_Resp string
  | Cred_Clear BeginCred_Resp string "string option"
  | Cred_Update BeginCred_Resp string string
  | Poll_Ask Polling
  | Poll_Sleep Polling rat
  | Fr_Begin
  | Fr_Check string
  | Fr_PreLogin string
  | Fr_Logon string
  | Fr_Record string
  | Fr_List string
  | Reply WorkerEvent
  | Finished

record Thread =
  th_job :: job
  th_pc :: thread_pc
  th_asked :: "Steam_Request list"

fun failure :: "job \<Rightarrow> Exn \<Rightarrow> WorkerEvent" where
  "failure (LinkJob c) e = link_error_event (la_RequestId c) e"
| "failure (FriendsJob c) e = friends_error_event (lf_RequestId c) e"

text \<open>\<open>_link_account\<close>: no credentials is a QR link; the result or the exception becomes the reply.\<close>

definition link_account_pc :: "LinkAccount \<Rightarrow> thread_pc" where
  "link_account_pc c = (if la_SteamUsername c = '''' \<and> la_SteamPassword c = '''' then Qr_Begin else Cred_Key)"

definition link_account_reply :: "LinkAccount \<Rightarrow> Exn + string \<times> string \<Rightarrow> WorkerEvent" where
  "link_account_reply c r = (case r of
     Inl e \<Rightarrow> link_error_event (la_RequestId c) e
   | Inr (owner, refresh_token) \<Rightarrow> link_ok_event (la_RequestId c) owner refresh_token)"

text \<open>The guard type of a verdict, and the code type it is submitted with.\<close>

definition guard_of :: "string \<Rightarrow> string" where
  "guard_of verdict = (if verdict = ''email'' then ''EMAIL'' else ''MOBILE'')"

definition code_type :: "string \<Rightarrow> int" where
  "code_type verdict = (if verdict = ''email'' then GUARD_EMAIL_CODE else GUARD_DEVICE_CODE)"

definition GUARD_CODE_TIMEOUT_SECONDS :: rat where "GUARD_CODE_TIMEOUT_SECONDS = 300"
definition AUTH_POLL_TIMEOUT_SECONDS :: rat where "AUTH_POLL_TIMEOUT_SECONDS = 300"
definition DEFAULT_POLL_INTERVAL :: rat where "DEFAULT_POLL_INTERVAL = 2"

text \<open>\<open>_poll_to_refresh_token\<close>: its start, and one turn of its loop after Steam's answer.\<close>

definition poll_start :: "rat \<Rightarrow> 64 word \<Rightarrow> bytes \<Rightarrow> rat \<Rightarrow> bool \<Rightarrow> thread_pc" where
  "poll_start now client_id request_id interval on_challenge = Poll_Ask
     \<lparr>pn_client_id = client_id, pn_request_id = request_id,
      pn_wait = (if interval = 0 then DEFAULT_POLL_INTERVAL else interval),
      pn_deadline = now + AUTH_POLL_TIMEOUT_SECONDS, pn_on_challenge = on_challenge\<rparr>"

definition poll_turn :: "Py \<Rightarrow> rat \<Rightarrow> LinkAccount \<Rightarrow> Polling \<Rightarrow> PollStatus_Resp \<Rightarrow> thread_pc \<times> WorkerEvent list" where
  "poll_turn P now c p resp =
     (let p' = (if ps_new_client_id resp = 0 then p else p\<lparr>pn_client_id := ps_new_client_id resp\<rparr>);
          evs = (if pn_on_challenge p \<and> ps_new_challenge_url resp \<noteq> ''''
                 then [qr_challenge_event (la_RequestId c) (ps_new_challenge_url resp)] else []) in
      (if ps_refresh_token resp \<noteq> '''' then
         Reply (link_account_reply c (case steam_id_from_jwt P (ps_refresh_token resp) of
           Inl e \<Rightarrow> Inl e | Inr owner \<Rightarrow> Inr (owner, ps_refresh_token resp)))
       else if pn_deadline p < now then
         Reply (link_account_reply c (Inl (LoginError ''steam auth session timed out awaiting confirmation'')))
       else if pn_wait p < 0 then
         Reply (link_account_reply c (Inl (ValueError ''sleep length must be non-negative'')))
       else Poll_Sleep p' (now + pn_wait p), evs))"

text \<open>\<open>begin_qr_link\<close> after the first answer.\<close>

definition qr_begun :: "rat \<Rightarrow> LinkAccount \<Rightarrow> BeginQr_Resp \<Rightarrow> thread_pc \<times> WorkerEvent list" where
  "qr_begun now c resp =
     (poll_start now (bq_client_id resp) (bq_request_id resp) (bq_interval resp) True,
      if bq_challenge_url resp = '''' then [] else [qr_challenge_event (la_RequestId c) (bq_challenge_url resp)])"

text \<open>\<open>begin_credentials_link\<close> after the key, after the session, and with the submitted code.\<close>

definition cred_key :: "Py \<Rightarrow> LinkAccount \<Rightarrow> RsaKey_Resp \<Rightarrow> thread_pc" where
  "cred_key P c rsa = (case rsa_encrypt_password P (la_SteamPassword c) (rk_mod rsa) (rk_exp rsa) of
     Inl e \<Rightarrow> Reply (link_account_reply c (Inl e))
   | Inr enc_password \<Rightarrow> Cred_Begin enc_password (rk_timestamp rsa))"

definition cred_begun :: "rat \<Rightarrow> LinkAccount \<Rightarrow> BeginCred_Resp \<Rightarrow> thread_pc" where
  "cred_begun now c resp =
     (if bc_client_id resp = 0 \<and> bc_steamid resp = 0 then
        Reply (link_account_reply c (Inl (LoginError ''login failed: invalid credentials'')))
      else let verdict = classify_confirmation (bc_confirmations resp) in
        if verdict \<in> {''email'', ''device''} then Cred_Prompt resp verdict
        else poll_start now (bc_client_id resp) (bc_request_id resp) (bc_interval resp) False)"

definition cred_code :: "LinkAccount \<Rightarrow> BeginCred_Resp \<Rightarrow> string \<Rightarrow> string option \<Rightarrow> thread_pc" where
  "cred_code c resp verdict gcode = (case gcode of
     None \<Rightarrow> Reply (link_account_reply c (Inl (LoginError ''empty steam guard code'')))
   | Some k \<Rightarrow> if k = '''' then Reply (link_account_reply c (Inl (LoginError ''empty steam guard code'')))
       else Cred_Update resp verdict k)"

text \<open>\<open>list_friends\<close> on python-steam's list.\<close>

definition friend_of :: "Steam_User \<Rightarrow> Friend" where
  "friend_of u =
     (let persona_state = (case su_state u of None \<Rightarrow> 0 | Some s \<Rightarrow> s);
          game_app_id = (case su_played u of None \<Rightarrow> None | Some p \<Rightarrow> if p = 0 then None else Some p);
          st = derive_status persona_state game_app_id in
      \<lparr>fr_SteamId = show_nat (su_as_64 u), fr_PersonaName = (case su_name u of None \<Rightarrow> '''' | Some n \<Rightarrow> n),
       fr_Online = fst st, fr_InMatch = snd st\<rparr>)"

text \<open>The request a thread has under way.\<close>

fun request_of :: "job \<Rightarrow> thread_pc \<Rightarrow> Steam_Request list" where
  "request_of j Qr_Begin = [BeginAuthSessionViaQR]"
| "request_of (LinkJob c) Cred_Key = [GetPasswordRSAPublicKey (la_SteamUsername c)]"
| "request_of (LinkJob c) (Cred_Begin enc ts) = [BeginAuthSessionViaCredentials (la_SteamUsername c) enc ts]"
| "request_of j (Cred_Update resp v gcode) =
     [UpdateAuthSessionWithSteamGuardCode (bc_client_id resp) (bc_steamid resp) gcode (code_type v)]"
| "request_of j (Poll_Ask p) = [PollAuthSessionStatus (pn_client_id p) (pn_request_id p)]"
| "request_of j pc = []"

text \<open>Where a thread calls a library that may raise.\<close>

fun in_library :: "thread_pc \<Rightarrow> bool" where
  "in_library Qr_Begin = True"
| "in_library Cred_Key = True"
| "in_library (Cred_Begin enc ts) = True"
| "in_library (Cred_Update resp v gcode) = True"
| "in_library (Poll_Ask p) = True"
| "in_library Fr_Begin = True"
| "in_library (Fr_PreLogin sid) = True"
| "in_library (Fr_Logon sid) = True"
| "in_library (Fr_Record sid) = True"
| "in_library (Fr_List sid) = True"
| "in_library pc = False"

definition goes :: "thread_pc \<Rightarrow> Thread \<Rightarrow> Thread" where
  "goes pc t = t\<lparr>th_pc := pc, th_asked := th_asked t @ request_of (th_job t) (th_pc t)\<rparr>"

inductive thread_step :: "Py \<Rightarrow> rat \<Rightarrow> SteamSession \<Rightarrow> Thread \<Rightarrow> SteamSession \<Rightarrow> Thread \<Rightarrow> WorkerEvent list \<Rightarrow> bool"
  for P now where
  raises: "in_library (th_pc t) \<Longrightarrow> thread_step P now s t s (goes (Reply (failure (th_job t) e)) t) []"
| qr_begin: "th_pc t = Qr_Begin \<Longrightarrow> th_job t = LinkJob c \<Longrightarrow> qr_begun now c resp = (pc, evs) \<Longrightarrow>
     thread_step P now s t s (goes pc t) evs"
| key: "th_pc t = Cred_Key \<Longrightarrow> th_job t = LinkJob c \<Longrightarrow> thread_step P now s t s (goes (cred_key P c rsa) t) []"
| cred_begin: "th_pc t = Cred_Begin enc ts \<Longrightarrow> th_job t = LinkJob c \<Longrightarrow>
     thread_step P now s t s (goes (cred_begun now c resp) t) []"
| prompt: "th_pc t = Cred_Prompt resp v \<Longrightarrow> th_job t = LinkJob c \<Longrightarrow>
     thread_step P now s t s (goes (Cred_Enter resp v) t) [steam_guard_event (la_RequestId c) (guard_of v)]"
| enter: "th_pc t = Cred_Enter resp v \<Longrightarrow>
     thread_step P now s t s (goes (if sn_guard_event s then Cred_Take resp v
       else Cred_Wait resp v (now + GUARD_CODE_TIMEOUT_SECONDS)) t) []"
| wait_over: "th_pc t = Cred_Wait resp v until \<Longrightarrow> until \<le> now \<Longrightarrow>
     thread_step P now s t s (goes (Reply (failure (th_job t) (LoginError ''steam guard code not submitted in time''))) t) []"
| take_code: "th_pc t = Cred_Take resp v \<Longrightarrow>
     thread_step P now s t (s\<lparr>sn_guard_code := None\<rparr>) (goes (Cred_Clear resp v (sn_guard_code s)) t) []"
| clear: "th_pc t = Cred_Clear resp v gcode \<Longrightarrow> th_job t = LinkJob c \<Longrightarrow>
     thread_step P now s t (s\<lparr>sn_guard_event := False\<rparr>) (goes (cred_code c resp v gcode) t) []"
| update: "th_pc t = Cred_Update resp v gcode \<Longrightarrow>
     thread_step P now s t s (goes (poll_start now (bc_client_id resp) (bc_request_id resp) (bc_interval resp) False) t) []"
| poll: "th_pc t = Poll_Ask p \<Longrightarrow> th_job t = LinkJob c \<Longrightarrow> poll_turn P now c p resp = (pc, evs) \<Longrightarrow>
     thread_step P now s t s (goes pc t) evs"
| wake_up: "th_pc t = Poll_Sleep p until \<Longrightarrow> until \<le> now \<Longrightarrow> thread_step P now s t s (goes (Poll_Ask p) t) []"
| friends_begin: "th_pc t = Fr_Begin \<Longrightarrow> th_job t = FriendsJob c \<Longrightarrow>
     thread_step P now s t (s\<lparr>sn_client := True\<rparr>) (goes (case steam_id_from_jwt P (lf_RefreshToken c) of
       Inl e \<Rightarrow> Reply (failure (th_job t) e) | Inr sid \<Rightarrow> Fr_Check sid) t) []"
| check: "th_pc t = Fr_Check sid \<Longrightarrow>
     thread_step P now s t s (goes (if logged_on \<and> sn_steam_id s = Some sid then Fr_List sid else Fr_PreLogin sid) t) []"
| pre_login: "th_pc t = Fr_PreLogin sid \<Longrightarrow>
     thread_step P now s t s (goes (case r of EResult_OK \<Rightarrow> Fr_Logon sid
       | EResult_Other m \<Rightarrow> Reply (failure (th_job t) (LoginError (''could not connect to steam: '' @ m)))) t) []"
| logon: "th_pc t = Fr_Logon sid \<Longrightarrow>
     thread_step P now s t s (goes (case r of EResult_OK \<Rightarrow> Fr_Record sid
       | EResult_Other m \<Rightarrow> Reply (failure (th_job t) (LoginError (''token login failed: '' @ m)))) t) []"
| record_id: "th_pc t = Fr_Record sid \<Longrightarrow>
     thread_step P now s t (s\<lparr>sn_steam_id := Some sid\<rparr>) (goes (Fr_List sid) t) []"
| friends: "th_pc t = Fr_List sid \<Longrightarrow> th_job t = FriendsJob c \<Longrightarrow>
     thread_step P now s t s (goes (Reply (friends_ok_event (lf_RequestId c) sid (map friend_of users))) t) []"
| reply: "th_pc t = Reply ev \<Longrightarrow> thread_step P now s t s (goes Finished t) [ev]"

section \<open>The agent\<close>

record Agent =
  ag_state :: Agent_State
  ag_worker_id :: string
  ag_steam :: SteamSession
  ag_outbox :: "WorkerEvent list"
  ag_sent :: "WorkerEvent list"       \<comment> \<open>what the stream has drawn from the outbox, oldest first\<close>
  ag_received :: "Command list"       \<comment> \<open>the commands dispatched so far, oldest first\<close>
  ag_setting :: bool                  \<comment> \<open>the stream thread is inside \<open>submit_guard_code\<close>\<close>
  ag_threads :: "Thread list"
  ag_clock :: rat

definition send :: "WorkerEvent \<Rightarrow> Agent \<Rightarrow> Agent" where
  "send ev a = a\<lparr>ag_outbox := ag_outbox a @ [ev\<lparr>ev_WorkerId := ag_worker_id a\<rparr>]\<rparr>"

definition advance :: "Agent_Event \<Rightarrow> Agent \<Rightarrow> Agent" where
  "advance ev a = (case next_state (ag_state a) ev of
     Inl e \<Rightarrow> a
   | Inr s \<Rightarrow> send (event (Ev_StatusUpdate (PROTO_STATE s))) (a\<lparr>ag_state := s\<rparr>))"

definition spawn :: "job \<Rightarrow> thread_pc \<Rightarrow> Agent \<Rightarrow> Agent" where
  "spawn j pc a = a\<lparr>ag_threads := ag_threads a @ [\<lparr>th_job = j, th_pc = pc, th_asked = []\<rparr>]\<rparr>"

definition on_start_spectate :: "Agent \<Rightarrow> Agent" where
  "on_start_spectate = advance START_SPECTATE"

definition on_stop_spectate :: "Agent \<Rightarrow> Agent" where
  "on_stop_spectate = advance STOP_SPECTATE"

text \<open>\<open>submit_guard_code\<close> in its two halves: the code under the lock, then the event, which wakes every waiter.\<close>

definition on_steam_guard :: "SubmitSteamGuardCode \<Rightarrow> Agent \<Rightarrow> Agent" where
  "on_steam_guard c a = a\<lparr>ag_steam := (ag_steam a)\<lparr>sn_guard_code := Some (sc_Code c)\<rparr>, ag_setting := True\<rparr>"

fun woken :: "Thread \<Rightarrow> Thread" where
  "woken t = (case th_pc t of Cred_Wait resp v until \<Rightarrow> goes (Cred_Take resp v) t | _ \<Rightarrow> t)"

definition guard_event_set :: "Agent \<Rightarrow> Agent" where
  "guard_event_set a = a\<lparr>ag_steam := (ag_steam a)\<lparr>sn_guard_event := True\<rparr>, ag_setting := False,
     ag_threads := map woken (ag_threads a)\<rparr>"

definition on_link_account :: "LinkAccount \<Rightarrow> Agent \<Rightarrow> Agent" where
  "on_link_account c = spawn (LinkJob c) (link_account_pc c)"

definition on_list_friends :: "ListFriends \<Rightarrow> Agent \<Rightarrow> Agent" where
  "on_list_friends c = spawn (FriendsJob c) Fr_Begin"

text \<open>\<open>CommandDispatcher.dispatch\<close>; a command without a known payload is logged and ignored.\<close>

definition dispatch :: "Command option \<Rightarrow> Agent \<Rightarrow> Agent" where
  "dispatch command a = (case command of
     None \<Rightarrow> a
   | Some cmd \<Rightarrow> (let b = a\<lparr>ag_received := ag_received a @ [cmd]\<rparr> in
       case cmd of
         Cmd_StartSpectate c \<Rightarrow> on_start_spectate b
       | Cmd_StopSpectate \<Rightarrow> on_stop_spectate b
       | Cmd_SteamGuard c \<Rightarrow> on_steam_guard c b
       | Cmd_ListFriends c \<Rightarrow> on_list_friends c b
       | Cmd_LinkAccount c \<Rightarrow> on_link_account c b))"

text \<open>\<open>Agent.run\<close> up to the stream loop.\<close>

definition Agent_init :: "string \<Rightarrow> rat \<Rightarrow> Agent" where
  "Agent_init worker_id now = \<lparr>ag_state = STOPPED, ag_worker_id = worker_id,
     ag_steam = \<lparr>sn_client = False, sn_steam_id = None, sn_guard_event = False, sn_guard_code = None\<rparr>,
     ag_outbox = [], ag_sent = [], ag_received = [], ag_setting = False, ag_threads = [], ag_clock = now\<rparr>"

definition run :: "string \<Rightarrow> rat \<Rightarrow> Agent" where
  "run worker_id now = advance STREAM_CONNECTED (send (event Ev_Ready) (Agent_init worker_id now))"

text \<open>The queue between the threads and the stream: \<open>GrpcClient._requests\<close> draws from it.\<close>

definition draw_event :: "Agent \<Rightarrow> (WorkerEvent \<times> Agent) option" where
  "draw_event a = (case ag_outbox a of
     [] \<Rightarrow> None
   | ev # q \<Rightarrow> Some (ev, a\<lparr>ag_outbox := q, ag_sent := ag_sent a @ [ev]\<rparr>))"

definition thread_ran :: "nat \<Rightarrow> SteamSession \<Rightarrow> Thread \<Rightarrow> WorkerEvent list \<Rightarrow> Agent \<Rightarrow> Agent" where
  "thread_ran i s t evs a = fold send evs (a\<lparr>ag_steam := s, ag_threads := (ag_threads a)[i := t]\<rparr>)"

inductive inner_step :: "Py \<Rightarrow> Agent \<Rightarrow> Agent \<Rightarrow> bool" for P where
  set_event: "ag_setting a \<Longrightarrow> inner_step P a (guard_event_set a)"
| thread: "i < length (ag_threads a) \<Longrightarrow> thread_step P (ag_clock a) (ag_steam a) (ag_threads a ! i) s t evs \<Longrightarrow>
     inner_step P a (thread_ran i s t evs a)"
| tick: "ag_clock a \<le> now \<Longrightarrow> inner_step P a (a\<lparr>ag_clock := now\<rparr>)"

inductive agent_step :: "Py \<Rightarrow> Agent \<Rightarrow> Agent \<Rightarrow> bool" for P where
  inner: "inner_step P a b \<Longrightarrow> agent_step P a b"
| command: "\<not> ag_setting a \<Longrightarrow> agent_step P a (dispatch cmd a)"
| drawn: "draw_event a = Some (ev, b) \<Longrightarrow> agent_step P a b"

inductive agent_reachable :: "Py \<Rightarrow> string \<Rightarrow> Agent \<Rightarrow> bool" for P wid where
  agent_init: "agent_reachable P wid (run wid now)"
| agent_next: "agent_reachable P wid a \<Longrightarrow> agent_step P a b \<Longrightarrow> agent_reachable P wid b"

inductive_cases thread_stepE: "thread_step P now s t s' t' evs"
inductive_cases inner_stepE: "inner_step P a b"
inductive_cases agent_stepE: "agent_step P a b"

end
