(* ===== verification/Worker_Agent_Invariants.thy ===== *)
theory Worker_Agent_Invariants
  imports Worker_Agent
begin

text \<open>
  Invariants of the worker in every interleaving of its threads, whatever Steam answers: the count of
  the replies and the commands, the status updates, the guard codes and where they are, and the
  pace of the loop that polls Steam.
\<close>

section \<open>Whose event it is\<close>

fun reply_key :: "WorkerEvent \<Rightarrow> (bool \<times> string) option" where
  "reply_key ev = (case ev_Payload ev of
     Some (Ev_LinkResult r) \<Rightarrow> Some (True, lres_RequestId r)
   | Some (Ev_FriendsResult r) \<Rightarrow> Some (False, fres_RequestId r)
   | _ \<Rightarrow> None)"

fun command_key :: "Command \<Rightarrow> (bool \<times> string) option" where
  "command_key (Cmd_LinkAccount c) = Some (True, la_RequestId c)"
| "command_key (Cmd_ListFriends c) = Some (False, lf_RequestId c)"
| "command_key cmd = None"

fun job_key :: "job \<Rightarrow> bool \<times> string" where
  "job_key (LinkJob c) = (True, la_RequestId c)"
| "job_key (FriendsJob c) = (False, lf_RequestId c)"

fun prompt_id :: "WorkerEvent \<Rightarrow> string option" where
  "prompt_id ev = (case ev_Payload ev of
     Some (Ev_SteamGuard g) \<Rightarrow> Some (sg_RequestId g)
   | Some (Ev_QrChallenge q) \<Rightarrow> Some (qr_RequestId q)
   | _ \<Rightarrow> None)"

definition count_key :: "('a \<Rightarrow> 'k option) \<Rightarrow> 'k \<Rightarrow> 'a list \<Rightarrow> nat" where
  "count_key f k xs = length (filter (\<lambda>x. f x = Some k) xs)"

lemma count_key_simps [simp]: "count_key f k [] = 0"
  "count_key f k (x # xs) = (if f x = Some k then 1 else 0) + count_key f k xs"
  "count_key f k (xs @ ys) = count_key f k xs + count_key f k ys"
  by (simp_all add: count_key_def)

lemma count_key_none: "\<forall>x \<in> set xs. f x = None \<Longrightarrow> count_key f k xs = 0"
  by (induction xs) auto

text \<open>The history of the agent's events, drawn or still queued.\<close>

definition history :: "Agent \<Rightarrow> WorkerEvent list" where
  "history a = ag_sent a @ ag_outbox a"

section \<open>One thread\<close>

fun fits_job :: "job \<Rightarrow> thread_pc \<Rightarrow> bool" where
  "fits_job j (Reply ev) = (reply_key ev = Some (job_key j))"
| "fits_job j Finished = True"
| "fits_job (FriendsJob c) pc = (case pc of Fr_Begin \<Rightarrow> True | Fr_Check _ \<Rightarrow> True | Fr_PreLogin _ \<Rightarrow> True
     | Fr_Logon _ \<Rightarrow> True | Fr_Record _ \<Rightarrow> True | Fr_List _ \<Rightarrow> True | _ \<Rightarrow> False)"
| "fits_job (LinkJob c) pc = (case pc of Fr_Begin \<Rightarrow> False | Fr_Check _ \<Rightarrow> False | Fr_PreLogin _ \<Rightarrow> False
     | Fr_Logon _ \<Rightarrow> False | Fr_Record _ \<Rightarrow> False | Fr_List _ \<Rightarrow> False | _ \<Rightarrow> True)"

lemmas event_defs' = event_def friends_ok_event_def friends_error_event_def link_ok_event_def link_error_event_def
  qr_challenge_event_def steam_guard_event_def

lemma event_keys [simp]:
  "reply_key (failure j e) = Some (job_key j)"
  "reply_key (link_account_reply c r) = Some (True, la_RequestId c)"
  "reply_key (friends_ok_event rid sid fs) = Some (False, rid)"
  "reply_key (friends_error_event rid e) = Some (False, rid)" "reply_key (link_error_event rid e) = Some (True, rid)"
  "reply_key (qr_challenge_event rid u) = None" "prompt_id (qr_challenge_event rid u) = Some rid"
  "reply_key (steam_guard_event rid g) = None" "prompt_id (steam_guard_event rid g) = Some rid"
  by (cases j; auto simp: event_defs' link_account_reply_def split: sum.split)+

declare reply_key.simps [simp del] prompt_id.simps [simp del]

lemma goes_simps [simp]: "th_job (goes pc t) = th_job t" "th_pc (goes pc t) = pc"
  "th_asked (goes pc t) = th_asked t @ request_of (th_job t) (th_pc t)"
  by (simp_all add: goes_def)

lemmas turn_defs = qr_begun_def poll_turn_def poll_start_def cred_key_def cred_begun_def cred_code_def

lemma link_pcs [simp]:
  "fits_job (LinkJob c) (poll_start now cid rid iv b)" "poll_start now cid rid iv b \<noteq> Finished"
  "fits_job (LinkJob c) (cred_key P c rsa)" "cred_key P c rsa \<noteq> Finished"
  "fits_job (LinkJob c) (cred_begun now c cresp)" "cred_begun now c cresp \<noteq> Finished"
  "fits_job (LinkJob c) (cred_code c cresp v gc)" "cred_code c cresp v gc \<noteq> Finished"
  by (auto simp: turn_defs Let_def split: sum.split option.split)

lemma qr_begun_frame:
  "qr_begun now c resp = (pc, evs) \<Longrightarrow> fits_job (LinkJob c) pc \<and> pc \<noteq> Finished \<and>
     (\<forall>ev \<in> set evs. reply_key ev = None \<and> prompt_id ev = Some (la_RequestId c))"
  by (auto simp: qr_begun_def split: if_splits)

lemma poll_turn_frame:
  "poll_turn P now c p resp = (pc, evs) \<Longrightarrow> fits_job (LinkJob c) pc \<and> pc \<noteq> Finished \<and>
     (\<forall>ev \<in> set evs. reply_key ev = None \<and> prompt_id ev = Some (la_RequestId c))"
  by (auto simp: poll_turn_def Let_def split: if_splits)

lemma friends_job: "fits_job j Fr_Begin = (\<exists>c. j = FriendsJob c)" "fits_job j (Fr_Check sid) = (\<exists>c. j = FriendsJob c)"
  "fits_job j (Fr_PreLogin sid) = (\<exists>c. j = FriendsJob c)" "fits_job j (Fr_Logon sid) = (\<exists>c. j = FriendsJob c)"
  "fits_job j (Fr_Record sid) = (\<exists>c. j = FriendsJob c)" "fits_job j (Fr_List sid) = (\<exists>c. j = FriendsJob c)"
  by (cases j; simp)+

lemma link_job: "fits_job j Qr_Begin = (\<exists>c. j = LinkJob c)" "fits_job j Cred_Key = (\<exists>c. j = LinkJob c)"
  "fits_job j (Cred_Begin enc ts) = (\<exists>c. j = LinkJob c)" "fits_job j (Cred_Prompt resp v) = (\<exists>c. j = LinkJob c)"
  "fits_job j (Cred_Enter resp v) = (\<exists>c. j = LinkJob c)" "fits_job j (Cred_Wait resp v u) = (\<exists>c. j = LinkJob c)"
  "fits_job j (Cred_Take resp v) = (\<exists>c. j = LinkJob c)" "fits_job j (Cred_Clear resp v gc) = (\<exists>c. j = LinkJob c)"
  "fits_job j (Cred_Update resp v k) = (\<exists>c. j = LinkJob c)" "fits_job j (Poll_Ask p) = (\<exists>c. j = LinkJob c)"
  "fits_job j (Poll_Sleep p u) = (\<exists>c. j = LinkJob c)"
  by (cases j; simp)+

lemma reply_job: "fits_job j (Reply ev) = (reply_key ev = Some (job_key j))" "fits_job j Finished"
  by (cases j; simp)+

lemmas fits_job_simps = friends_job link_job reply_job

declare fits_job.simps [simp del]
declare fits_job_simps [simp]

lemma thread_step_frame:
  assumes "thread_step P now s t s' t' evs" "fits_job (th_job t) (th_pc t)"
  shows "th_job t' = th_job t \<and> th_pc t \<noteq> Finished \<and> fits_job (th_job t') (th_pc t') \<and>
    (if th_pc t' = Finished then \<exists>ev. evs = [ev] \<and> reply_key ev = Some (job_key (th_job t))
     else \<forall>ev \<in> set evs. reply_key ev = None \<and> (\<exists>c. th_job t = LinkJob c \<and> prompt_id ev = Some (la_RequestId c)))"
  using assms
proof (cases rule: thread_step.cases)
  case (qr_begin c resp pc)
  then show ?thesis using assms(2) qr_begun_frame [of now c resp pc evs] by simp
next
  case (poll p c resp pc)
  then show ?thesis using assms(2) poll_turn_frame [of P now c p resp pc evs] by simp
qed (auto split: sum.split EResult.split)

section \<open>The agent\<close>

fun status_of :: "WorkerEvent \<Rightarrow> WorkerState option" where
  "status_of ev = (case ev_Payload ev of Some (Ev_StatusUpdate s) \<Rightarrow> Some s | _ \<Rightarrow> None)"

lemma stamped [simp]: "reply_key (ev\<lparr>ev_WorkerId := w\<rparr>) = reply_key ev"
  "prompt_id (ev\<lparr>ev_WorkerId := w\<rparr>) = prompt_id ev" "status_of (ev\<lparr>ev_WorkerId := w\<rparr>) = status_of ev"
  by (simp_all add: reply_key.simps prompt_id.simps)

lemma no_status: "reply_key ev = Some k \<or> prompt_id ev = Some r \<Longrightarrow> status_of ev = None"
  by (auto simp: reply_key.simps prompt_id.simps split: option.splits WorkerEvent_Payload.splits)

lemma reply_no_prompt: "reply_key ev = Some k \<Longrightarrow> prompt_id ev = None"
  by (auto simp: reply_key.simps prompt_id.simps split: option.splits WorkerEvent_Payload.splits)

lemma send_simps [simp]: "history (send ev a) = history a @ [ev\<lparr>ev_WorkerId := ag_worker_id a\<rparr>]"
  "ag_worker_id (send ev a) = ag_worker_id a" "ag_steam (send ev a) = ag_steam a" "ag_state (send ev a) = ag_state a"
  "ag_received (send ev a) = ag_received a" "ag_setting (send ev a) = ag_setting a" "ag_threads (send ev a) = ag_threads a"
  "ag_clock (send ev a) = ag_clock a" "ag_sent (send ev a) = ag_sent a"
  by (simp_all add: send_def history_def)

lemma fold_send [simp]: "history (fold send evs a) = history a @ map (\<lambda>ev. ev\<lparr>ev_WorkerId := ag_worker_id a\<rparr>) evs"
  "ag_worker_id (fold send evs a) = ag_worker_id a" "ag_steam (fold send evs a) = ag_steam a" "ag_state (fold send evs a) = ag_state a"
  "ag_received (fold send evs a) = ag_received a" "ag_setting (fold send evs a) = ag_setting a"
  "ag_threads (fold send evs a) = ag_threads a" "ag_clock (fold send evs a) = ag_clock a" "ag_sent (fold send evs a) = ag_sent a"
  by (induction evs arbitrary: a) auto

lemma thread_ran_simps [simp]:
  "history (thread_ran i s t evs a) = history a @ map (\<lambda>ev. ev\<lparr>ev_WorkerId := ag_worker_id a\<rparr>) evs"
  "ag_worker_id (thread_ran i s t evs a) = ag_worker_id a" "ag_steam (thread_ran i s t evs a) = s"
  "ag_state (thread_ran i s t evs a) = ag_state a" "ag_received (thread_ran i s t evs a) = ag_received a"
  "ag_setting (thread_ran i s t evs a) = ag_setting a" "ag_threads (thread_ran i s t evs a) = (ag_threads a)[i := t]"
  "ag_clock (thread_ran i s t evs a) = ag_clock a" "ag_sent (thread_ran i s t evs a) = ag_sent a"
  by (simp_all add: thread_ran_def) (simp add: history_def)

lemma history_frame [simp]: "history (a\<lparr>ag_clock := now\<rparr>) = history a" "history (guard_event_set a) = history a"
  "history (a\<lparr>ag_received := cs\<rparr>) = history a" "history (a\<lparr>ag_state := st\<rparr>) = history a"
  "history (on_steam_guard g a) = history a" "history (spawn j pc a) = history a"
  by (simp_all add: history_def guard_event_set_def on_steam_guard_def spawn_def)

lemma advance_frame [simp]: "ag_worker_id (advance e a) = ag_worker_id a" "ag_steam (advance e a) = ag_steam a"
  "ag_received (advance e a) = ag_received a" "ag_setting (advance e a) = ag_setting a" "ag_threads (advance e a) = ag_threads a"
  "ag_clock (advance e a) = ag_clock a"
  by (simp_all add: advance_def split: sum.split)

lemma advance_history: "history (advance e a) = (case next_state (ag_state a) e of Inl _ \<Rightarrow> history a
    | Inr s \<Rightarrow> history a @ [\<lparr>ev_WorkerId = ag_worker_id a, ev_Payload = Some (Ev_StatusUpdate (PROTO_STATE s))\<rparr>])"
  by (simp add: advance_def event_def split: sum.split)

lemma advance_grows: "\<exists>evs. history (advance e a) = history a @ evs"
  by (simp add: advance_history split: sum.split)

lemma draw_event_frame:
  assumes "draw_event a = Some (ev, b)"
  shows "history b = history a" "ag_worker_id b = ag_worker_id a" "ag_steam b = ag_steam a" "ag_state b = ag_state a"
    "ag_received b = ag_received a" "ag_setting b = ag_setting a" "ag_threads b = ag_threads a" "ag_clock b = ag_clock a"
    "ag_sent b = ag_sent a @ [ev]"
  using assms by (auto simp: draw_event_def history_def split: list.splits)

lemma woken_frame [simp]: "th_job (woken t) = th_job t" "th_pc (woken t) = Finished \<longleftrightarrow> th_pc t = Finished"
  "fits_job (th_job t) (th_pc t) \<Longrightarrow> fits_job (th_job t) (th_pc (woken t))" "th_asked (woken t) = th_asked t"
  by (cases "th_pc t"; simp)+

declare woken.simps [simp del]

section \<open>Every command is answered once\<close>

definition pending_jobs :: "bool \<times> string \<Rightarrow> Thread list \<Rightarrow> nat" where
  "pending_jobs k ts = sum_list (map (\<lambda>t. if th_pc t \<noteq> Finished \<and> job_key (th_job t) = k then 1 else 0) ts)"

definition answers_ok :: "Agent \<Rightarrow> bool" where
  "answers_ok a \<longleftrightarrow> (\<forall>t \<in> set (ag_threads a). fits_job (th_job t) (th_pc t) \<and>
       command_key ` set (ag_received a) \<supseteq> {Some (job_key (th_job t))})
     \<and> (\<forall>k. count_key reply_key k (history a) + pending_jobs k (ag_threads a) = count_key command_key k (ag_received a))
     \<and> (\<forall>ev \<in> set (history a). \<forall>r. prompt_id ev = Some r \<longrightarrow> Some (True, r) \<in> command_key ` set (ag_received a))"

lemma pending_update:
  assumes "i < length ts"
  shows "pending_jobs k (ts[i := t]) + (if th_pc (ts ! i) \<noteq> Finished \<and> job_key (th_job (ts ! i)) = k then 1 else 0) =
     pending_jobs k ts + (if th_pc t \<noteq> Finished \<and> job_key (th_job t) = k then 1 else 0)"
  using assms unfolding pending_jobs_def
proof (induction ts arbitrary: i)
  case (Cons u ts)
  then show ?case by (cases i) (auto split: if_splits)
qed simp

lemma count_stamped [simp]: "count_key reply_key k (map (\<lambda>ev. ev\<lparr>ev_WorkerId := w\<rparr>) evs) = count_key reply_key k evs"
  by (induction evs) auto

lemma pending_woken [simp]: "pending_jobs k (map woken ts) = pending_jobs k ts"
  by (induction ts) (auto simp: pending_jobs_def)

lemma pending_append [simp]: "pending_jobs k (ts @ us) = pending_jobs k ts + pending_jobs k us"
  by (simp add: pending_jobs_def)

lemma answersD: "answers_ok a \<Longrightarrow> count_key reply_key k (history a) + pending_jobs k (ag_threads a) = count_key command_key k (ag_received a)"
  unfolding answers_ok_def by blast

lemma answers_thread:
  assumes ok: "answers_ok a" and i: "i < length (ag_threads a)"
    and st: "thread_step P now s (ag_threads a ! i) s' t evs"
  shows "answers_ok (thread_ran i s' t evs a)"
proof -
  let ?t = "ag_threads a ! i"
  have mem: "?t \<in> set (ag_threads a)" using i by simp
  then have fit: "fits_job (th_job ?t) (th_pc ?t)" "Some (job_key (th_job ?t)) \<in> command_key ` set (ag_received a)"
    using ok by (auto simp: answers_ok_def)
  note f = thread_step_frame [OF st fit(1)]
  have sub: "u = t \<or> u \<in> set (ag_threads a)" if "u \<in> set ((ag_threads a)[i := t])" for u
    using that set_update_subset_insert [of "ag_threads a" i t] by blast
  have count: "count_key reply_key k evs + (if th_pc t \<noteq> Finished \<and> job_key (th_job t) = k then 1 else 0) =
      (if job_key (th_job ?t) = k then 1 else 0)" for k
  proof (cases "th_pc t = Finished")
    case False
    then have "\<forall>ev \<in> set evs. reply_key ev = None" using f by simp
    then show ?thesis using f False by (simp add: count_key_none)
  qed (use f in auto)
  have counts: "count_key reply_key k (history a @ map (\<lambda>ev. ev\<lparr>ev_WorkerId := ag_worker_id a\<rparr>) evs) +
      pending_jobs k ((ag_threads a)[i := t]) = count_key command_key k (ag_received a)" for k
    using count [of k] pending_update [OF i, of k t] answersD [OF ok, of k] f by auto
  have jobs: "\<forall>u \<in> set ((ag_threads a)[i := t]). fits_job (th_job u) (th_pc u) \<and> command_key ` set (ag_received a) \<supseteq> {Some (job_key (th_job u))}"
    using sub f fit ok unfolding answers_ok_def by (metis empty_subsetI insert_subset)
  have new: "Some (True, r) \<in> command_key ` set (ag_received a)" if "ev \<in> set evs" "prompt_id ev = Some r" for ev r
  proof -
    have "th_pc t \<noteq> Finished" using f that reply_no_prompt by (metis empty_iff list.set(1) option.distinct(1) set_ConsD)
    then have "\<forall>ev \<in> set evs. \<exists>c. th_job ?t = LinkJob c \<and> prompt_id ev = Some (la_RequestId c)" using f by simp
    from bspec [OF this that(1)] obtain c where "th_job ?t = LinkJob c" "prompt_id ev = Some (la_RequestId c)" by blast
    then show ?thesis using fit(2) that(2) by simp
  qed
  have "\<forall>ev \<in> set (history a @ map (\<lambda>ev. ev\<lparr>ev_WorkerId := ag_worker_id a\<rparr>) evs).
      \<forall>r. prompt_id ev = Some r \<longrightarrow> Some (True, r) \<in> command_key ` set (ag_received a)"
    using ok new unfolding answers_ok_def by fastforce
  then show ?thesis unfolding answers_ok_def thread_ran_simps by (intro conjI allI jobs counts)
qed

lemma answers_spawn:
  assumes "answers_ok a" "command_key cmd = Some (job_key j)" "fits_job j pc" "pc \<noteq> Finished"
  shows "answers_ok (spawn j pc (a\<lparr>ag_received := ag_received a @ [cmd]\<rparr>))"
proof -
  let ?b = "spawn j pc (a\<lparr>ag_received := ag_received a @ [cmd]\<rparr>)"
  have "count_key reply_key k (history ?b) + pending_jobs k (ag_threads ?b) = count_key command_key k (ag_received ?b)" for k
    using answersD [OF assms(1), of k] assms(2,4) by simp (simp add: spawn_def pending_jobs_def)
  moreover have "\<forall>t \<in> set (ag_threads ?b). fits_job (th_job t) (th_pc t) \<and> command_key ` set (ag_received ?b) \<supseteq> {Some (job_key (th_job t))}"
    using assms unfolding answers_ok_def by (simp add: spawn_def)
  moreover have "\<forall>ev \<in> set (history ?b). \<forall>r. prompt_id ev = Some r \<longrightarrow> Some (True, r) \<in> command_key ` set (ag_received ?b)"
    using assms(1) unfolding answers_ok_def by (simp add: spawn_def history_def)
  ultimately show ?thesis unfolding answers_ok_def by blast
qed

lemma answers_other:
  assumes "answers_ok a" "command_key cmd = None" "ag_threads b = ag_threads a" "ag_received b = ag_received a @ [cmd]"
    "history b = history a @ evs" "\<forall>ev \<in> set evs. reply_key ev = None \<and> prompt_id ev = None"
  shows "answers_ok b"
  using assms by (auto simp: answers_ok_def count_key_none)

lemma answers_ok_step: "agent_step P a b \<Longrightarrow> answers_ok a \<Longrightarrow> answers_ok b"
proof (induction rule: agent_step.induct)
  case (inner a b)
  then show ?case
  proof (cases rule: inner_step.cases)
    case set_event
    then show ?thesis using inner by (auto simp: answers_ok_def guard_event_set_def history_def)
  next
    case (thread i s t evs)
    then show ?thesis using answers_thread inner by blast
  next
    case (tick now)
    then show ?thesis using inner by (simp add: answers_ok_def)
  qed
next
  case (command a cmd)
  show ?case
  proof (cases cmd)
    case None
    then show ?thesis using command by (simp add: dispatch_def)
  next
    case (Some c)
    let ?b = "a\<lparr>ag_received := ag_received a @ [c]\<rparr>"
    have adv: "\<exists>evs. history (advance e ?b) = history a @ evs \<and> (\<forall>ev \<in> set evs. reply_key ev = None \<and> prompt_id ev = None)" for e
      by (auto simp: advance_history reply_key.simps prompt_id.simps split: sum.split)
    show ?thesis
    proof (cases c)
      case (Cmd_StartSpectate x)
      then show ?thesis using adv [of START_SPECTATE] answers_other [OF command(2), of c "advance START_SPECTATE ?b"]
        by (auto simp: dispatch_def Some on_start_spectate_def)
    next
      case Cmd_StopSpectate
      then show ?thesis using adv [of STOP_SPECTATE] answers_other [OF command(2), of c "advance STOP_SPECTATE ?b"]
        by (auto simp: dispatch_def Some on_stop_spectate_def)
    next
      case (Cmd_SteamGuard x)
      then show ?thesis using answers_other [OF command(2), of c "on_steam_guard x ?b" "[]"]
        by (simp add: dispatch_def Some on_steam_guard_def history_def)
    next
      case (Cmd_ListFriends x)
      then show ?thesis using answers_spawn [OF command(2), of c "FriendsJob x" Fr_Begin]
        by (simp add: dispatch_def Some on_list_friends_def)
    next
      case (Cmd_LinkAccount x)
      then show ?thesis using answers_spawn [OF command(2), of c "LinkJob x" "link_account_pc x"]
        by (simp add: dispatch_def Some on_link_account_def link_account_pc_def)
    qed
  qed
next
  case (drawn a ev b)
  then show ?case by (simp add: answers_ok_def draw_event_frame [OF drawn(1)])
qed

lemma run_history: "history (run wid now) = [\<lparr>ev_WorkerId = wid, ev_Payload = Some Ev_Ready\<rparr>,
    \<lparr>ev_WorkerId = wid, ev_Payload = Some (Ev_StatusUpdate (PROTO_STATE IDLE))\<rparr>]"
proof -
  have "history (Agent_init wid now) = []" "ag_state (Agent_init wid now) = STOPPED" "ag_worker_id (Agent_init wid now) = wid"
    by (simp_all add: Agent_init_def history_def)
  then show ?thesis by (simp add: run_def advance_history next_state_STREAM_CONNECTED event_def)
qed

lemma run_simps [simp]: "ag_threads (run wid now) = []" "ag_received (run wid now) = []" "ag_state (run wid now) = IDLE"
  "ag_worker_id (run wid now) = wid" "ag_setting (run wid now) = False" "ag_clock (run wid now) = now"
  "ag_steam (run wid now) = \<lparr>sn_client = False, sn_steam_id = None, sn_guard_event = False, sn_guard_code = None\<rparr>"
  by (simp_all add: run_def advance_def send_def Agent_init_def next_state_STREAM_CONNECTED)

lemma answers_ok_run: "answers_ok (run wid now)"
  by (simp add: answers_ok_def run_history pending_jobs_def reply_key.simps prompt_id.simps)

lemma answers_ok_reachable: "agent_reachable P wid a \<Longrightarrow> answers_ok a"
  by (induction rule: agent_reachable.induct) (auto intro: answers_ok_run answers_ok_step)

section \<open>The contract of a worker\<close>

text \<open>
  What the control plane may rely on: the results and the commands still at work balance the commands
  received, whatever the request id. The repository's worker keeps it.
\<close>

locale answering_worker =
  fixes ok :: "'a \<Rightarrow> bool" and out :: "'a \<Rightarrow> WorkerEvent list"
    and busy :: "bool \<times> string \<Rightarrow> 'a \<Rightarrow> nat" and received :: "'a \<Rightarrow> Command list"
  assumes balance: "ok a \<Longrightarrow> count_key reply_key k (out a) + busy k a = count_key command_key k (received a)"
begin

lemma unasked:
  assumes "ok a" "count_key command_key k (received a) = 0"
  shows "count_key reply_key k (out a) = 0" "busy k a = 0"
  using balance [OF assms(1), of k] assms(2) by simp_all

text \<open>A move of the worker changes what it holds beyond its first \<open>n\<close> events by the commands it received.\<close>

lemma balance_step:
  assumes "ok a" "ok b" "out b = out a @ evs" "n \<le> length (out a)" "received b = received a @ cs"
  shows "busy k b + count_key reply_key k (drop n (out b)) = busy k a + count_key reply_key k (drop n (out a)) + count_key command_key k cs"
  using balance [OF assms(1), of k] balance [OF assms(2), of k] assms(3-5) by simp

end

interpretation agent: answering_worker answers_ok history "\<lambda>k a. pending_jobs k (ag_threads a)" ag_received
  by unfold_locales (rule answersD)

section \<open>Status updates\<close>

text \<open>The states a worker reports up to where it is; no code of it raises the other events.\<close>

fun states_until :: "Agent_State \<Rightarrow> Agent_State list" where
  "states_until STOPPED = []"
| "states_until IDLE = [IDLE]"
| "states_until STARTING = [IDLE, STARTING]"
| "states_until SPECTATING = [IDLE, STARTING, SPECTATING]"
| "states_until STOPPING = [IDLE, STARTING, STOPPING]"

definition status_ok :: "string \<Rightarrow> Agent \<Rightarrow> bool" where
  "status_ok wid a \<longleftrightarrow> ag_state a \<in> {IDLE, STARTING, STOPPING} \<and> ag_worker_id a = wid
     \<and> List.map_filter status_of (history a) = map PROTO_STATE (states_until (ag_state a))
     \<and> (\<exists>evs. history a = \<lparr>ev_WorkerId = wid, ev_Payload = Some Ev_Ready\<rparr> # evs)
     \<and> (\<forall>ev \<in> set (history a). ev_WorkerId ev = wid)"

lemma no_status_filter: "\<forall>ev \<in> set evs. status_of ev = None \<Longrightarrow> List.map_filter status_of evs = []"
  by (induction evs) (auto simp: List.map_filter_simps)

lemma map_filter_append [simp]: "List.map_filter f (xs @ ys) = List.map_filter f xs @ List.map_filter f ys"
  by (simp add: List.map_filter_def)

lemma thread_step_status:
  assumes "thread_step P now s t s' t' evs" "fits_job (th_job t) (th_pc t)"
  shows "\<forall>ev \<in> set evs. status_of ev = None"
  using thread_step_frame [OF assms] no_status by (metis (no_types, lifting) list.set(1,2) empty_iff insert_iff)

lemma status_append:
  assumes "status_ok wid a" "ag_state b = ag_state a" "ag_worker_id b = wid" "history b = history a @ evs"
    "\<forall>ev \<in> set evs. status_of ev = None \<and> ev_WorkerId ev = wid"
  shows "status_ok wid b"
  using assms by (auto simp: status_ok_def no_status_filter)

lemma status_advance:
  assumes "status_ok wid a" "e = START_SPECTATE \<or> e = STOP_SPECTATE"
  shows "status_ok wid (advance e a)"
  using assms by (auto simp: status_ok_def advance_history advance_def machine_defs event_def List.map_filter_simps)

lemma status_ok_step: "agent_step P a b \<Longrightarrow> answers_ok a \<Longrightarrow> status_ok wid a \<Longrightarrow> status_ok wid b"
proof (induction rule: agent_step.induct)
  case (inner a b)
  from inner(1) show ?case
  proof (cases rule: inner_step.cases)
    case set_event
    then show ?thesis by (intro status_append [OF inner(3), of b "[]"]) (use inner(3) in \<open>auto simp: guard_event_set_def history_def status_ok_def\<close>)
  next
    case (thread i s t evs)
    then have "fits_job (th_job (ag_threads a ! i)) (th_pc (ag_threads a ! i))" using inner(2) by (simp add: answers_ok_def)
    from thread_step_status [OF thread(3) this] show ?thesis
      by (intro status_append [OF inner(3)]) (use inner(3) thread in \<open>auto simp: status_ok_def\<close>)
  next
    case (tick now)
    then show ?thesis by (intro status_append [OF inner(3), of b "[]"]) (use inner(3) in \<open>auto simp: status_ok_def\<close>)
  qed
next
  case (command a cmd)
  note same = status_append [OF command(3), where evs = "[]", OF _ _ _]
  show ?case
  proof (cases cmd)
    case (Some c)
    have r: "status_ok wid (a\<lparr>ag_received := cs\<rparr>)" for cs
      by (rule same) (use command(3) in \<open>auto simp: status_ok_def\<close>)
    have w: "ag_worker_id a = wid" using command(3) by (simp add: status_ok_def)
    have "status_ok wid (spawn j pc b)" if "status_ok wid b" "ag_worker_id b = wid" for j pc b
      by (rule status_append [OF that(1), where evs = "[]"]) (simp_all add: that(2), simp_all add: spawn_def that(2))
    moreover have "status_ok wid (on_steam_guard g b)" if "status_ok wid b" "ag_worker_id b = wid" for g b
      by (rule status_append [OF that(1), where evs = "[]"]) (simp_all add: that(2), simp_all add: on_steam_guard_def that(2))
    ultimately show ?thesis
      using r w by (cases c) (simp_all add: Some dispatch_def on_start_spectate_def on_stop_spectate_def on_list_friends_def on_link_account_def status_advance)
  qed (use command in \<open>simp add: dispatch_def\<close>)
next
  case (drawn a ev b)
  then show ?case by (simp add: status_ok_def draw_event_frame [OF drawn(1)])
qed

lemma status_ok_reachable: "agent_reachable P wid a \<Longrightarrow> status_ok wid a"
proof (induction rule: agent_reachable.induct)
  case (agent_init now)
  show ?case by (simp add: status_ok_def run_history List.map_filter_simps)
next
  case (agent_next a b)
  then show ?case using answers_ok_reachable status_ok_step by blast
qed

section \<open>Guard codes\<close>

fun code_in :: "Steam_Request \<Rightarrow> string option" where
  "code_in (UpdateAuthSessionWithSteamGuardCode cid sid k ty) = Some k"
| "code_in r = None"

fun code_in_hand :: "thread_pc \<Rightarrow> string list" where
  "code_in_hand (Cred_Clear resp v (Some k)) = [k]"
| "code_in_hand (Cred_Update resp v k) = [k]"
| "code_in_hand pc = []"

definition codes_of :: "Thread \<Rightarrow> string multiset" where
  "codes_of t = mset (List.map_filter code_in (th_asked t)) + mset (code_in_hand (th_pc t))"

definition held :: "SteamSession \<Rightarrow> string multiset" where
  "held s = (case sn_guard_code s of None \<Rightarrow> {#} | Some k \<Rightarrow> {#k#})"

fun submitted_code :: "Command \<Rightarrow> string option" where
  "submitted_code (Cmd_SteamGuard c) = Some (sc_Code c)"
| "submitted_code c = None"

definition codes_ok :: "Agent \<Rightarrow> bool" where
  "codes_ok a \<longleftrightarrow> sum_list (map codes_of (ag_threads a)) + held (ag_steam a) \<subseteq>#
     mset (List.map_filter submitted_code (ag_received a))"

lemma no_code_in_hand [simp]: "code_in_hand (poll_start now cid rid iv b) = []" "code_in_hand (cred_key P c rsa) = []"
  "code_in_hand (cred_begun now c cresp) = []"
  by (simp_all add: turn_defs Let_def split: sum.split)

lemma code_in_hand_turn: "qr_begun now c resp = (pc, evs) \<Longrightarrow> code_in_hand pc = []"
  "poll_turn P now c p presp = (pc, evs) \<Longrightarrow> code_in_hand pc = []"
  by (auto simp: turn_defs Let_def split: if_splits)

lemma code_in_request: "List.map_filter code_in (request_of j pc) = (case pc of Cred_Update resp v k \<Rightarrow> [k] | _ \<Rightarrow> [])"
  by (cases pc; cases j) (simp_all add: List.map_filter_simps)

lemma thread_step_codes:
  assumes "thread_step P now s t s' t' evs"
  shows "codes_of t' + held s' \<subseteq># codes_of t + held s"
proof -
  have r: "in_library pc \<Longrightarrow> mset (case pc of Cred_Update resp v k \<Rightarrow> [k] | _ \<Rightarrow> []) = mset (code_in_hand pc)" for pc
    by (cases pc) auto
  show ?thesis
    using assms
  proof (cases rule: thread_step.cases)
    case (raises e)
    then show ?thesis using r [of "th_pc t"] by (simp add: codes_of_def code_in_request)
  next
    case (enter resp v)
    then show ?thesis by (cases "sn_guard_event s") (simp_all add: codes_of_def code_in_request)
  next
    case (clear resp v gcode c)
    then show ?thesis by (cases gcode) (auto simp: codes_of_def code_in_request held_def cred_code_def)
  qed (auto simp: codes_of_def code_in_request code_in_hand_turn held_def split: sum.split EResult.split option.split)
qed

lemma codes_update:
  assumes "i < length ts"
  shows "sum_list (map codes_of (ts[i := t])) + codes_of (ts ! i) = sum_list (map codes_of ts) + codes_of t"
  using assms
proof (induction ts arbitrary: i)
  case (Cons u ts)
  then show ?case by (cases i) (auto simp: ac_simps)
qed simp

lemma codes_thread:
  assumes ok: "codes_ok a" and i: "i < length (ag_threads a)" and st: "thread_step P now (ag_steam a) (ag_threads a ! i) s' t evs"
  shows "codes_ok (thread_ran i s' t evs a)"
proof -
  let ?A = "sum_list (map codes_of (ag_threads a))" and ?B = "sum_list (map codes_of ((ag_threads a)[i := t]))"
  let ?c = "codes_of (ag_threads a ! i)"
  have "?B + held s' + ?c = ?A + (codes_of t + held s')"
    using codes_update [OF i, of t] by (simp add: ac_simps)
  also have "\<dots> \<subseteq># ?A + (?c + held (ag_steam a))" using thread_step_codes [OF st] by simp
  finally have "?B + held s' \<subseteq># ?A + held (ag_steam a)"
    by (metis add.assoc add.commute mset_subset_eq_mono_add_right_cancel)
  then show ?thesis using ok unfolding codes_ok_def by (auto intro: subset_mset.order_trans)
qed

lemma codes_woken [simp]: "codes_of (woken t) = codes_of t"
  by (cases "th_pc t") (simp_all add: codes_of_def woken.simps code_in_request)

lemma codes_ok_same:
  assumes "codes_ok a" "map codes_of (ag_threads b) = map codes_of (ag_threads a)" "held (ag_steam b) = held (ag_steam a)"
    "ag_received b = ag_received a @ cs" "List.map_filter submitted_code cs = []"
  shows "codes_ok b"
  using assms by (simp add: codes_ok_def)

lemma codes_spawn: "codes_ok (a\<lparr>ag_received := cs\<rparr>) \<Longrightarrow> code_in_hand pc = [] \<Longrightarrow> codes_ok (spawn j pc (a\<lparr>ag_received := cs\<rparr>))"
  by (simp add: codes_ok_def spawn_def codes_of_def List.map_filter_simps)

lemma codes_ok_step: "agent_step P a b \<Longrightarrow> codes_ok a \<Longrightarrow> codes_ok b"
proof (induction rule: agent_step.induct)
  case (inner a b)
  from inner(1) show ?case
  proof (cases rule: inner_step.cases)
    case set_event
    then show ?thesis by (intro codes_ok_same [OF inner(2), of b "[]"]) (simp_all add: guard_event_set_def held_def List.map_filter_simps)
  next
    case (thread i s t evs)
    then show ?thesis using codes_thread inner by blast
  next
    case (tick now)
    then show ?thesis using inner by (simp add: codes_ok_def)
  qed
next
  case (command a cmd)
  show ?case
  proof (cases cmd)
    case (Some c)
    show ?thesis
    proof (cases "submitted_code c")
      case None
      then have r: "codes_ok (a\<lparr>ag_received := ag_received a @ [c]\<rparr>)"
        by (intro codes_ok_same [OF command(2), of _ "[c]"]) (simp_all add: List.map_filter_simps)
      have "codes_ok (advance e (a\<lparr>ag_received := ag_received a @ [c]\<rparr>))" for e
        by (rule codes_ok_same [OF r, of _ "[]"]) (simp_all add: List.map_filter_simps)
      then show ?thesis using r None codes_spawn [OF r]
        by (cases c) (simp_all add: Some dispatch_def on_start_spectate_def on_stop_spectate_def on_list_friends_def on_link_account_def link_account_pc_def)
    next
      case (Some k)
      then obtain g where "c = Cmd_SteamGuard g" "k = sc_Code g" by (cases c) auto
      moreover have "codes_ok (on_steam_guard g (a\<lparr>ag_received := ag_received a @ [Cmd_SteamGuard g]\<rparr>))"
        using command(2) by (auto simp: codes_ok_def on_steam_guard_def held_def List.map_filter_simps split: option.splits
            dest!: mset_subset_eq_insertD intro: subset_mset.less_imp_le)
      ultimately show ?thesis by (simp add: \<open>cmd = Some c\<close> dispatch_def)
    qed
  qed (use command in \<open>simp add: dispatch_def\<close>)
next
  case (drawn a ev b)
  then show ?case by (simp add: codes_ok_def draw_event_frame [OF drawn(1)])
qed

lemma codes_ok_reachable: "agent_reachable P wid a \<Longrightarrow> codes_ok a"
proof (induction rule: agent_reachable.induct)
  case (agent_init now)
  show ?case by (simp add: codes_ok_def held_def)
qed (rule codes_ok_step)

section \<open>Prompts before codes\<close>

definition prompted :: "string \<Rightarrow> WorkerEvent list \<Rightarrow> job \<Rightarrow> string \<Rightarrow> bool" where
  "prompted wid h j v \<longleftrightarrow> v \<in> {''email'', ''device''} \<and> (\<exists>c. j = LinkJob c \<and>
     (steam_guard_event (la_RequestId c) (guard_of v))\<lparr>ev_WorkerId := wid\<rparr> \<in> set h)"

fun verdict_of :: "thread_pc \<Rightarrow> string option" where
  "verdict_of (Cred_Enter resp v) = Some v"
| "verdict_of (Cred_Wait resp v until) = Some v"
| "verdict_of (Cred_Take resp v) = Some v"
| "verdict_of (Cred_Clear resp v k) = Some v"
| "verdict_of (Cred_Update resp v k) = Some v"
| "verdict_of pc = None"



definition guard_ok :: "string \<Rightarrow> WorkerEvent list \<Rightarrow> Thread \<Rightarrow> bool" where
  "guard_ok wid h t \<longleftrightarrow> (\<forall>v. verdict_of (th_pc t) = Some v \<longrightarrow> prompted wid h (th_job t) v)
     \<and> (\<forall>resp v. th_pc t = Cred_Prompt resp v \<longrightarrow> v \<in> {''email'', ''device''})
     \<and> (\<forall>resp v k. th_pc t = Cred_Update resp v k \<longrightarrow> k \<noteq> '''')
     \<and> (\<forall>cid sid k ty. UpdateAuthSessionWithSteamGuardCode cid sid k ty \<in> set (th_asked t) \<longrightarrow>
          k \<noteq> '''' \<and> (\<exists>v. prompted wid h (th_job t) v \<and> ty = code_type v))"

lemma prompted_mono: "prompted wid h j v \<Longrightarrow> set h \<subseteq> set h' \<Longrightarrow> prompted wid h' j v"
  unfolding prompted_def by blast

lemma guard_ok_mono: "guard_ok wid h t \<Longrightarrow> set h \<subseteq> set h' \<Longrightarrow> guard_ok wid h' t"
  unfolding guard_ok_def using prompted_mono by blast

lemma update_in_request: "UpdateAuthSessionWithSteamGuardCode cid sid k ty \<in> set (request_of j pc) \<longleftrightarrow>
    (\<exists>resp v. pc = Cred_Update resp v k \<and> cid = bc_client_id resp \<and> sid = bc_steamid resp \<and> ty = code_type v)"
  by (cases pc; cases j) auto

text \<open>A step to a position that waits for no code, or to one with the verdict it had.\<close>

lemma guard_ok_goes:
  assumes "guard_ok wid h t" "set h \<subseteq> set h'"
    and "\<forall>v. verdict_of pc = Some v \<longrightarrow> prompted wid h' (th_job t) v" "\<forall>resp v. pc = Cred_Prompt resp v \<longrightarrow> v \<in> {''email'', ''device''}"
    "\<forall>resp v k. pc = Cred_Update resp v k \<longrightarrow> k \<noteq> ''''"
  shows "guard_ok wid h' (goes pc t)"
proof -
  have "k \<noteq> '''' \<and> (\<exists>v. prompted wid h' (th_job t) v \<and> ty = code_type v)"
    if "UpdateAuthSessionWithSteamGuardCode cid sid k ty \<in> set (th_asked t @ request_of (th_job t) (th_pc t))" for cid sid k ty
  proof -
    consider "UpdateAuthSessionWithSteamGuardCode cid sid k ty \<in> set (th_asked t)"
      | resp v where "th_pc t = Cred_Update resp v k" "ty = code_type v"
      using \<open>UpdateAuthSessionWithSteamGuardCode cid sid k ty \<in> _\<close> by (auto simp: update_in_request)
    then show ?thesis
    proof cases
      case 1
      then show ?thesis using guard_ok_mono [OF assms(1,2)] unfolding guard_ok_def by blast
    next
      case 2
      then have "prompted wid h (th_job t) v" "k \<noteq> ''''" using assms(1) by (auto simp: guard_ok_def)
      then show ?thesis using prompted_mono [OF _ assms(2)] 2 by blast
    qed
  qed
  then show ?thesis using assms(3-5) by (simp add: guard_ok_def)
qed

lemma quiet_pcs: "verdict_of (poll_start now cid rid iv b) = None" "verdict_of (cred_key P c rsa) = None"
  "verdict_of (cred_begun now c cresp) = None"
  "qr_begun now c qresp = (pc, evs) \<Longrightarrow> verdict_of pc = None" "poll_turn P now c p presp = (pc, evs) \<Longrightarrow> verdict_of pc = None"
  by (auto simp: turn_defs Let_def split: sum.split if_splits)

lemma prompt_pcs: "poll_start now cid rid iv b \<noteq> Cred_Prompt resp v" "cred_key P c rsa \<noteq> Cred_Prompt resp v"
  "cred_begun now c cresp = Cred_Prompt resp v \<Longrightarrow> v \<in> {''email'', ''device''}"
  "qr_begun now c qresp = (pc, evs) \<Longrightarrow> pc \<noteq> Cred_Prompt resp v" "poll_turn P now c p presp = (pc, evs) \<Longrightarrow> pc \<noteq> Cred_Prompt resp v"
  "cred_code c cresp v' k \<noteq> Cred_Prompt resp v"
  by (auto simp: turn_defs Let_def split: sum.splits if_splits option.splits)

lemma update_pcs: "poll_start now cid rid iv b \<noteq> Cred_Update resp v k" "cred_key P c rsa \<noteq> Cred_Update resp v k"
  "cred_begun now c cresp \<noteq> Cred_Update resp v k"
  "qr_begun now c qresp = (pc, evs) \<Longrightarrow> pc \<noteq> Cred_Update resp v k" "poll_turn P now c p presp = (pc, evs) \<Longrightarrow> pc \<noteq> Cred_Update resp v k"
  "cred_code c cresp v' gk = Cred_Update resp v k \<Longrightarrow> v = v' \<and> k \<noteq> ''''"
  by (auto simp: turn_defs Let_def split: sum.splits if_splits option.splits)

lemma verdict_cred_code: "verdict_of (cred_code c cresp v k) = Some v' \<Longrightarrow> v' = v"
  by (auto simp: cred_code_def split: option.splits if_splits)

lemma thread_step_guard:
  assumes st: "thread_step P now s t s' t' evs" and ok: "guard_ok wid h t"
    and h: "h' = h @ map (\<lambda>ev. ev\<lparr>ev_WorkerId := wid\<rparr>) evs"
  shows "guard_ok wid h' t'"
proof -
  have sub: "set h \<subseteq> set h'" using h by simp
  have old: "verdict_of (th_pc t) = Some v \<Longrightarrow> prompted wid h' (th_job t) v" for v
    using ok prompted_mono [OF _ sub] unfolding guard_ok_def by blast
  note go = guard_ok_goes [OF ok sub]
  show ?thesis
    using st
  proof (cases rule: thread_step.cases)
    case (prompt resp v c)
    have "v \<in> {''email'', ''device''}" using ok prompt(4) unfolding guard_ok_def by blast
    then have "prompted wid h' (th_job t) v" using prompt h by (simp add: prompted_def)
    then show ?thesis unfolding prompt(2) by (intro go) simp_all
  next
    case (clear resp v gcode c)
    then have "prompted wid h' (th_job t) v" using old by simp
    then show ?thesis unfolding clear(2) using verdict_cred_code prompt_pcs(6) update_pcs(6) by (intro go) blast+
  next
    case (qr_begin c resp pc)
    then show ?thesis unfolding qr_begin(2)
      using quiet_pcs(4) [OF qr_begin(5)] prompt_pcs(4) [OF qr_begin(5)] update_pcs(4) [OF qr_begin(5)] by (intro go) simp_all
  next
    case (poll p c resp pc)
    then show ?thesis unfolding poll(2)
      using quiet_pcs(5) [OF poll(5)] prompt_pcs(5) [OF poll(5)] update_pcs(5) [OF poll(5)] by (intro go) simp_all
  next
    case (cred_begin enc ts c resp)
    then show ?thesis unfolding cred_begin(2)
      using quiet_pcs(3) prompt_pcs(3) update_pcs(3) by (intro go) (auto dest: prompt_pcs(3))
  qed (auto intro!: go simp: quiet_pcs prompt_pcs update_pcs old split: sum.splits EResult.splits if_splits)
qed

lemma guard_ok_woken: "guard_ok wid h t \<Longrightarrow> guard_ok wid h (woken t)"
  by (cases "th_pc t") (auto simp: woken.simps intro: guard_ok_goes [where h = h] simp: guard_ok_def)

definition guards_ok :: "Agent \<Rightarrow> bool" where
  "guards_ok a \<longleftrightarrow> (\<forall>t \<in> set (ag_threads a). guard_ok (ag_worker_id a) (history a) t)"

lemma guards_same:
  assumes "guards_ok a" "ag_threads b = ag_threads a" "ag_worker_id b = ag_worker_id a" "history b = history a @ evs"
  shows "guards_ok b"
  unfolding guards_ok_def assms(2-4)
proof
  fix t assume "t \<in> set (ag_threads a)"
  with assms(1) have "guard_ok (ag_worker_id a) (history a) t" by (simp add: guards_ok_def)
  then show "guard_ok (ag_worker_id a) (history a @ evs) t" by (rule guard_ok_mono) simp
qed

lemma guards_spawn:
  assumes "guards_ok a" "verdict_of pc = None" "\<And>resp v. pc \<noteq> Cred_Prompt resp v" "\<And>resp v k. pc \<noteq> Cred_Update resp v k"
  shows "guards_ok (spawn j pc a)"
  using assms by (auto simp: guards_ok_def guard_ok_def spawn_def history_def)

lemma guards_ok_step: "agent_step P a b \<Longrightarrow> guards_ok a \<Longrightarrow> guards_ok b"
proof (induction rule: agent_step.induct)
  case (inner a b)
  from inner(1) show ?case
  proof (cases rule: inner_step.cases)
    case set_event
    then show ?thesis using inner(2) guard_ok_woken by (auto simp: guards_ok_def) (auto simp: guard_event_set_def)
  next
    case (thread i s t evs)
    have h: "history b = history a @ map (\<lambda>ev. ev\<lparr>ev_WorkerId := ag_worker_id a\<rparr>) evs" "ag_worker_id b = ag_worker_id a"
      "ag_threads b = (ag_threads a)[i := t]" by (simp_all add: thread(1))
    have "guard_ok (ag_worker_id a) (history a) (ag_threads a ! i)" using inner(2) thread(2) by (simp add: guards_ok_def)
    note new = thread_step_guard [OF thread(3) this h(1)]
    have "guard_ok (ag_worker_id a) (history b) u" if "u \<in> set (ag_threads a)" for u
    proof (rule guard_ok_mono)
      show "guard_ok (ag_worker_id a) (history a) u" using inner(2) that by (simp add: guards_ok_def)
    qed (simp add: h(1))
    then show ?thesis using new set_update_subset_insert [of "ag_threads a" i t] unfolding guards_ok_def h(2,3) by blast
  next
    case (tick now)
    then show ?thesis using inner(2) by (simp add: guards_ok_def)
  qed
next
  case (command a cmd)
  note same = guards_same [OF command(2), where evs = "[]"]
  show ?case
  proof (cases cmd)
    case (Some c)
    let ?b = "a\<lparr>ag_received := ag_received a @ [c]\<rparr>"
    have r: "guards_ok ?b" by (rule same) simp_all
    have "guards_ok (advance e ?b)" for e
    proof -
      obtain evs where "history (advance e ?b) = history ?b @ evs" using advance_grows by blast
      then show ?thesis by (intro guards_same [OF r, of _ evs]) simp_all
    qed
    moreover have "guards_ok (on_steam_guard g ?b)" for g by (rule guards_same [OF r, of _ "[]"]) (simp_all add: on_steam_guard_def history_def)
    moreover have "guards_ok (spawn j Fr_Begin ?b)" "guards_ok (spawn j (link_account_pc l) ?b)" for j l
      by (rule guards_spawn [OF r]; simp add: link_account_pc_def)+
    ultimately show ?thesis
      by (cases c) (simp_all add: Some dispatch_def on_start_spectate_def on_stop_spectate_def on_list_friends_def on_link_account_def)
  qed (use command in \<open>simp add: dispatch_def\<close>)
next
  case (drawn a ev b)
  then show ?case by (simp add: guards_ok_def draw_event_frame [OF drawn(1)])
qed

lemma guards_ok_reachable: "agent_reachable P wid a \<Longrightarrow> guards_ok a"
proof (induction rule: agent_reachable.induct)
  case (agent_init now)
  show ?case by (simp add: guards_ok_def)
qed (rule guards_ok_step)

section \<open>The poll loop\<close>

fun is_poll :: "Steam_Request \<Rightarrow> bool" where
  "is_poll (PollAuthSessionStatus cid rid) = True"
| "is_poll r = False"

definition polls :: "Thread \<Rightarrow> nat" where
  "polls t = length (filter is_poll (th_asked t))"

text \<open>So many polls, each but the first after a sleep, and no sleep begun after the deadline.\<close>

definition paced :: "nat \<Rightarrow> Polling \<Rightarrow> rat \<Rightarrow> bool" where
  "paced n p now \<longleftrightarrow> pn_deadline p - AUTH_POLL_TIMEOUT_SECONDS + of_nat n * pn_wait p \<le> now
     \<and> pn_wait p \<noteq> 0 \<and> (0 < n \<longrightarrow> 0 < pn_wait p \<and> of_nat (n - 1) * pn_wait p \<le> AUTH_POLL_TIMEOUT_SECONDS)"

fun poll_ok :: "rat \<Rightarrow> nat \<Rightarrow> thread_pc \<Rightarrow> bool" where
  "poll_ok now n (Poll_Ask p) = paced n p now"
| "poll_ok now n (Poll_Sleep p until) = (0 < n \<and> paced n p until \<and> until \<le> pn_deadline p + pn_wait p)"
| "poll_ok now n (Reply ev) = True"
| "poll_ok now n Finished = True"
| "poll_ok now n pc = (n = 0)"

lemma poll_ok_later: "poll_ok now n pc \<Longrightarrow> now \<le> now' \<Longrightarrow> poll_ok now' n pc"
  by (cases pc) (auto simp: paced_def)

lemma poll_ok_start: "poll_ok now 0 (poll_start now cid rid iv b)"
  by (simp add: poll_start_def paced_def DEFAULT_POLL_INTERVAL_def)

lemma poll_ok_pcs: "poll_ok now 0 (cred_key P c rsa)" "poll_ok now 0 (cred_begun now c cresp)" "poll_ok now 0 (cred_code c cresp v k)"
  "qr_begun now c qresp = (pc, evs) \<Longrightarrow> poll_ok now 0 pc"
  using poll_ok_start by (auto simp: cred_key_def cred_begun_def cred_code_def qr_begun_def Let_def split: sum.split option.split)

lemma poll_ok_turn:
  assumes "poll_turn P now c p resp = (pc, evs)" "paced n p now"
  shows "poll_ok now (Suc n) pc"
proof (cases "\<exists>ev. pc = Reply ev")
  case False
  then obtain p' where p: "pc = Poll_Sleep p' (now + pn_wait p)" "pn_wait p' = pn_wait p" "pn_deadline p' = pn_deadline p"
    "now \<le> pn_deadline p" "0 \<le> pn_wait p"
    using assms(1) by (auto simp: poll_turn_def Let_def split: if_splits)
  have "of_nat n * pn_wait p \<le> AUTH_POLL_TIMEOUT_SECONDS" using p(4) assms(2) by (simp add: paced_def)
  then show ?thesis using p assms(2) by (auto simp: paced_def algebra_simps)
qed auto

lemma polls_goes: "polls (goes pc t) = polls t + length (filter is_poll (request_of (th_job t) (th_pc t)))"
  by (simp add: polls_def)

lemma poll_requests: "length (filter is_poll (request_of j pc)) = (case pc of Poll_Ask p \<Rightarrow> 1 | _ \<Rightarrow> 0)"
  by (cases pc; cases j) simp_all

lemma thread_step_polls:
  assumes "thread_step P now s t s' t' evs" "poll_ok now (polls t) (th_pc t)"
  shows "poll_ok now (polls t') (th_pc t')"
  using assms
proof (cases rule: thread_step.cases)
  case (poll p c resp pc)
  then show ?thesis using assms(2) poll_ok_turn [OF poll(5)] by (simp add: polls_goes)
next
  case (wake_up p until)
  then show ?thesis using assms(2) by (auto simp: polls_goes paced_def)
qed (auto simp: polls_goes poll_requests poll_ok_pcs poll_ok_start split: sum.split EResult.split)

definition polls_ok :: "Agent \<Rightarrow> bool" where
  "polls_ok a \<longleftrightarrow> (\<forall>t \<in> set (ag_threads a). poll_ok (ag_clock a) (polls t) (th_pc t))"

lemma poll_ok_woken: "poll_ok now (polls t) (th_pc t) \<Longrightarrow> poll_ok now (polls (woken t)) (th_pc (woken t))"
  by (cases "th_pc t") (simp_all add: woken.simps polls_goes)

lemma polls_spawn: "polls_ok (a\<lparr>ag_received := cs\<rparr>) \<Longrightarrow> poll_ok (ag_clock a) 0 pc \<Longrightarrow> polls_ok (spawn j pc (a\<lparr>ag_received := cs\<rparr>))"
  by (auto simp: polls_ok_def spawn_def polls_def)

lemma polls_ok_step: "agent_step P a b \<Longrightarrow> polls_ok a \<Longrightarrow> polls_ok b"
proof (induction rule: agent_step.induct)
  case (inner a b)
  from inner(1) show ?case
  proof (cases rule: inner_step.cases)
    case set_event
    then show ?thesis using inner(2) poll_ok_woken by (auto simp: polls_ok_def guard_event_set_def)
  next
    case (thread i s t evs)
    have "poll_ok (ag_clock a) (polls (ag_threads a ! i)) (th_pc (ag_threads a ! i))"
      using inner(2) thread(2) by (simp add: polls_ok_def)
    from thread_step_polls [OF thread(3) this] show ?thesis
      using inner(2) set_update_subset_insert [of "ag_threads a" i t] unfolding polls_ok_def thread(1) thread_ran_simps by blast
  next
    case (tick now)
    then show ?thesis using inner(2) poll_ok_later by (auto simp: polls_ok_def)
  qed
next
  case (command a cmd)
  show ?case
  proof (cases cmd)
    case (Some c)
    have "polls_ok (a\<lparr>ag_received := ag_received a @ [c]\<rparr>)" using command(2) by (simp add: polls_ok_def)
    then show ?thesis using polls_spawn
      by (cases c) (simp_all add: Some dispatch_def on_start_spectate_def on_stop_spectate_def on_list_friends_def on_link_account_def
          link_account_pc_def polls_ok_def on_steam_guard_def)
  qed (use command in \<open>simp add: dispatch_def\<close>)
next
  case (drawn a ev b)
  then show ?case by (simp add: polls_ok_def draw_event_frame [OF drawn(1)])
qed

lemma polls_ok_reachable: "agent_reachable P wid a \<Longrightarrow> polls_ok a"
proof (induction rule: agent_reachable.induct)
  case (agent_init now)
  show ?case by (simp add: polls_ok_def)
qed (rule polls_ok_step)

end
