(* ===== verification/Worker_Agent_Properties.thy ===== *)
theory Worker_Agent_Properties
  imports Worker_Agent_Invariants
begin

text \<open>
  What the invariants of the worker give, on a run with two links as an example: every command is
  answered once and under its own id, every submitted guard code reaches Steam at most once, the
  loop that polls Steam is bounded; and a guard code may reach the login of another link.
\<close>

section \<open>A run with two links\<close>

definition demo :: "Thread list \<Rightarrow> SteamSession \<Rightarrow> WorkerEvent list \<Rightarrow> Command list \<Rightarrow> bool \<Rightarrow> Agent" where
  "demo ts s out cs b = \<lparr>ag_state = IDLE, ag_worker_id = ''w'', ag_steam = s, ag_outbox = out, ag_sent = [],
     ag_received = cs, ag_setting = b, ag_threads = ts, ag_clock = 0\<rparr>"

definition stamp :: "WorkerEvent \<Rightarrow> WorkerEvent" where
  "stamp ev = ev\<lparr>ev_WorkerId := ''w''\<rparr>"

lemma demo_send: "fold send evs (demo ts s out cs b) = demo ts s (out @ map stamp evs) cs b"
  by (induction evs arbitrary: out) (simp_all add: demo_def send_def stamp_def)

lemma demo_thread:
  assumes "agent_reachable P ''w'' (demo ts s out cs b)" "i < length ts" "thread_step P 0 s (ts ! i) s' t evs"
  shows "agent_reachable P ''w'' (demo (ts[i := t]) s' (out @ map stamp evs) cs b)"
proof -
  have "inner_step P (demo ts s out cs b) (thread_ran i s' t evs (demo ts s out cs b))"
    by (rule inner_step.thread) (use assms in \<open>simp_all add: demo_def\<close>)
  moreover have "(demo ts s out cs b)\<lparr>ag_steam := s', ag_threads := (ag_threads (demo ts s out cs b))[i := t]\<rparr> = demo (ts[i := t]) s' out cs b"
    by (simp add: demo_def)
  then have "thread_ran i s' t evs (demo ts s out cs b) = demo (ts[i := t]) s' (out @ map stamp evs) cs b"
    by (simp add: thread_ran_def demo_send)
  ultimately show ?thesis using agent_next [OF assms(1) agent_step.inner] by simp
qed

lemma demo_again:
  assumes "agent_reachable P ''w'' (demo (ts[i := t]) s out cs b)" "i < length ts" "thread_step P 0 s t s' t' evs"
  shows "agent_reachable P ''w'' (demo (ts[i := t']) s' (out @ map stamp evs) cs b)"
  using demo_thread [OF assms(1), of i s' t' evs] assms(2,3) by simp

definition demo_link :: "string \<Rightarrow> LinkAccount" where
  "demo_link rid = \<lparr>la_RequestId = rid, la_SteamUsername = ''user'', la_SteamPassword = ''pw''\<rparr>"

definition demo_resp :: BeginCred_Resp where
  "demo_resp = \<lparr>bc_client_id = 7, bc_steamid = 9, bc_request_id = [], bc_interval = 0, bc_confirmations = [2]\<rparr>"

definition waiting :: "string \<Rightarrow> Thread" where
  "waiting rid = \<lparr>th_job = LinkJob (demo_link rid), th_pc = Cred_Wait demo_resp ''email'' 300,
     th_asked = [GetPasswordRSAPublicKey ''user'', BeginAuthSessionViaCredentials ''user'' ''pw'' 0]\<rparr>"

lemma classify_email: "classify_confirmation [2] = ''email''"
  by (simp add: classify_confirmation_def GUARD_EMAIL_CODE_def)

text \<open>A credentials link of an account with email codes, up to where it waits for the code.\<close>

lemma demo_waits:
  assumes "agent_reachable ref_py ''w'' (demo ts s out cs b)" "i < length ts" "\<not> sn_guard_event s"
    "ts ! i = \<lparr>th_job = LinkJob (demo_link rid), th_pc = Cred_Key, th_asked = []\<rparr>"
  shows "agent_reachable ref_py ''w'' (demo (ts[i := waiting rid]) s (out @ [stamp (steam_guard_event rid ''EMAIL'')]) cs b)"
proof -
  let ?t = "ts ! i" and ?j = "LinkJob (demo_link rid)"
  let ?rsa = "\<lparr>rk_mod = '''', rk_exp = '''', rk_timestamp = 0\<rparr>"
  have "thread_step ref_py 0 s ?t s (goes (Cred_Begin ''pw'' 0) ?t) []"
    using key [of ?t "demo_link rid" ref_py 0 s ?rsa] assms(4) by (simp add: cred_key_def ref_py_def demo_link_def)
  note r1 = demo_thread [OF assms(1,2) this]
  let ?t1 = "goes (Cred_Begin ''pw'' 0) ?t"
  have "thread_step ref_py 0 s ?t1 s (goes (Cred_Prompt demo_resp ''email'') ?t1) []"
    using cred_begin [of ?t1 "''pw''" 0 "demo_link rid" ref_py 0 s demo_resp] assms(4)
    by (simp add: cred_begun_def demo_resp_def classify_email)
  then have r2: "agent_reachable ref_py ''w'' (demo (ts[i := goes (Cred_Prompt demo_resp ''email'') ?t1]) s out cs b)"
    using demo_again [OF r1 assms(2)] by force
  let ?t2 = "goes (Cred_Prompt demo_resp ''email'') ?t1"
  have "thread_step ref_py 0 s ?t2 s (goes (Cred_Enter demo_resp ''email'') ?t2) [steam_guard_event rid ''EMAIL'']"
    using prompt [of ?t2 demo_resp "''email''" "demo_link rid" ref_py 0 s] assms(4) by (simp add: guard_of_def demo_link_def)
  then have r3: "agent_reachable ref_py ''w'' (demo (ts[i := goes (Cred_Enter demo_resp ''email'') ?t2]) s (out @ [stamp (steam_guard_event rid ''EMAIL'')]) cs b)"
    using demo_again [OF r2 assms(2)] by force
  let ?t3 = "goes (Cred_Enter demo_resp ''email'') ?t2"
  have "thread_step ref_py 0 s ?t3 s (goes (Cred_Wait demo_resp ''email'' 300) ?t3) []"
    using enter [of ?t3 demo_resp "''email''" ref_py 0 s] assms(3) by (simp add: GUARD_CODE_TIMEOUT_SECONDS_def)
  moreover have "goes (Cred_Wait demo_resp ''email'' 300) ?t3 = waiting rid"
    by (simp add: goes_def assms(4) waiting_def demo_link_def)
  ultimately show ?thesis using demo_again [OF r3 assms(2)] by force
qed

definition idle_session :: SteamSession where
  "idle_session = \<lparr>sn_client = False, sn_steam_id = None, sn_guard_event = False, sn_guard_code = None\<rparr>"

definition hello :: "WorkerEvent list" where
  "hello = [stamp (event Ev_Ready), stamp (event (Ev_StatusUpdate (PROTO_STATE IDLE)))]"

lemma demo_start: "agent_reachable P ''w'' (demo [] idle_session hello [] False)"
proof -
  have "run ''w'' 0 = demo [] idle_session hello [] False"
    by (simp add: run_def advance_def send_def Agent_init_def next_state_STREAM_CONNECTED event_def demo_def idle_session_def hello_def stamp_def)
  then show ?thesis using agent_init [of P "''w''" 0] by simp
qed

lemma demo_link_command:
  "agent_reachable P ''w'' (demo ts s out cs False) \<Longrightarrow> agent_reachable P ''w'' (demo
     (ts @ [\<lparr>th_job = LinkJob (demo_link rid), th_pc = Cred_Key, th_asked = []\<rparr>]) s out (cs @ [Cmd_LinkAccount (demo_link rid)]) False)"
  by (drule agent_next [OF _ command [where cmd = "Some (Cmd_LinkAccount (demo_link rid))"]])
    (simp_all add: demo_def dispatch_def on_link_account_def spawn_def link_account_pc_def demo_link_def)

definition demo_code :: "string \<Rightarrow> Command" where
  "demo_code rid = Cmd_SteamGuard \<lparr>sc_Code = ''K7'', sc_RequestId = rid\<rparr>"

text \<open>A code arrives and the event is set: every waiting login is woken.\<close>

lemma demo_submit:
  assumes "agent_reachable P ''w'' (demo ts s out cs False)"
  shows "agent_reachable P ''w'' (demo (map woken ts) (s\<lparr>sn_guard_code := Some ''K7'', sn_guard_event := True\<rparr>) out (cs @ [demo_code rid]) False)"
proof -
  have "agent_reachable P ''w'' (demo ts (s\<lparr>sn_guard_code := Some ''K7''\<rparr>) out (cs @ [demo_code rid]) True)"
    using agent_next [OF assms command [where cmd = "Some (demo_code rid)"]]
    by (simp add: demo_def dispatch_def on_steam_guard_def demo_code_def)
  from agent_next [OF this agent_step.inner [OF set_event]] show ?thesis by (simp add: demo_def guard_event_set_def)
qed

definition woken_link :: "string \<Rightarrow> Thread" where
  "woken_link rid = (waiting rid)\<lparr>th_pc := Cred_Take demo_resp ''email''\<rparr>"

lemma woken_waiting: "woken (waiting rid) = woken_link rid"
  by (simp add: woken.simps waiting_def goes_def woken_link_def)

text \<open>Both logins wait, the code is submitted for the first, the second is faster.\<close>

definition took :: Thread where
  "took = (waiting ''b'')\<lparr>th_pc := poll_start 0 7 [] 0 False,
     th_asked := th_asked (waiting ''b'') @ [UpdateAuthSessionWithSteamGuardCode 7 9 ''K7'' GUARD_EMAIL_CODE]\<rparr>"

definition missed :: Thread where
  "missed = (waiting ''a'')\<lparr>th_pc := Finished\<rparr>"

definition crossed :: Agent where
  "crossed = demo [missed, took] idle_session
     (hello @ [stamp (steam_guard_event ''a'' ''EMAIL''), stamp (steam_guard_event ''b'' ''EMAIL''),
       stamp (link_error_event ''a'' (LoginError ''empty steam guard code''))])
     [Cmd_LinkAccount (demo_link ''a''), Cmd_LinkAccount (demo_link ''b''), demo_code ''a''] False"

lemma crossed_reachable: "agent_reachable ref_py ''w'' crossed"
proof -
  let ?s1 = "idle_session\<lparr>sn_guard_code := Some ''K7'', sn_guard_event := True\<rparr>" and ?s2 = "idle_session\<lparr>sn_guard_event := True\<rparr>"
  let ?out = "hello @ [stamp (steam_guard_event ''a'' ''EMAIL''), stamp (steam_guard_event ''b'' ''EMAIL'')]"
  let ?cs = "[Cmd_LinkAccount (demo_link ''a''), Cmd_LinkAccount (demo_link ''b''), demo_code ''a'']"
  let ?b1 = "goes (Cred_Clear demo_resp ''email'' (Some ''K7'')) (woken_link ''b'')" and ?b2 = "goes (Cred_Update demo_resp ''email'' ''K7'') (woken_link ''b'')"
  let ?a1 = "goes (Cred_Clear demo_resp ''email'' None) (woken_link ''a'')"
  let ?err = "link_error_event ''a'' (LoginError ''empty steam guard code'')"
  have w: "th_pc (woken_link rid) = Cred_Take demo_resp ''email''" "th_job (woken_link rid) = LinkJob (demo_link rid)" for rid
    by (simp_all add: woken_link_def waiting_def)
  have i: "\<not> sn_guard_event idle_session" by (simp add: idle_session_def)
  note r = demo_link_command [OF demo_start, of ref_py "''a''"]
  have "agent_reachable ref_py ''w'' (demo [waiting ''a''] idle_session (hello @ [stamp (steam_guard_event ''a'' ''EMAIL'')]) [Cmd_LinkAccount (demo_link ''a'')] False)"
    using demo_waits [OF r, of 0 "''a''"] i by simp
  note r' = demo_link_command [OF this, of "''b''"]
  have "agent_reachable ref_py ''w'' (demo [waiting ''a'', waiting ''b''] idle_session ?out (butlast ?cs) False)"
    using demo_waits [OF r', of 1 "''b''"] i by simp
  from demo_submit [OF this, of "''a''"]
  have r1: "agent_reachable ref_py ''w'' (demo [woken_link ''a'', woken_link ''b''] ?s1 ?out ?cs False)" by (simp add: woken_waiting)
  have "thread_step ref_py 0 ?s1 (woken_link ''b'') ?s2 ?b1 []"
    using take_code [OF w(1), of ref_py 0 ?s1] by (simp add: idle_session_def)
  from demo_thread [OF r1, of 1, OF _ ] this
  have r2: "agent_reachable ref_py ''w'' (demo [woken_link ''a'', ?b1] ?s2 ?out ?cs False)" by force
  have "thread_step ref_py 0 ?s2 ?b1 idle_session ?b2 []"
    using clear [of ?b1 demo_resp "''email''" "Some ''K7''" "demo_link ''b''" ref_py 0 ?s2] w by (simp add: cred_code_def idle_session_def goes_def)
  from demo_thread [OF r2, of 1] this
  have r3: "agent_reachable ref_py ''w'' (demo [woken_link ''a'', ?b2] idle_session ?out ?cs False)" by force
  have "thread_step ref_py 0 idle_session ?b2 idle_session took []"
    using update [of ?b2 demo_resp "''email''" "''K7''" ref_py 0 idle_session] w
    by (simp add: goes_def took_def woken_link_def waiting_def demo_resp_def code_type_def)
  from demo_thread [OF r3, of 1] this
  have r4: "agent_reachable ref_py ''w'' (demo [woken_link ''a'', took] idle_session ?out ?cs False)" by force
  have "thread_step ref_py 0 idle_session (woken_link ''a'') idle_session ?a1 []"
    using take_code [OF w(1), of ref_py 0 idle_session] by (simp add: idle_session_def)
  from demo_thread [OF r4, of 0] this
  have r5: "agent_reachable ref_py ''w'' (demo [?a1, took] idle_session ?out ?cs False)" by force
  have "thread_step ref_py 0 idle_session ?a1 idle_session (goes (Reply ?err) ?a1) []"
    using clear [of ?a1 demo_resp "''email''" None "demo_link ''a''" ref_py 0 idle_session] w
    by (simp add: cred_code_def idle_session_def link_account_reply_def demo_link_def)
  from demo_thread [OF r5, of 0] this
  have r6: "agent_reachable ref_py ''w'' (demo [goes (Reply ?err) ?a1, took] idle_session ?out ?cs False)" by force
  have "thread_step ref_py 0 idle_session (goes (Reply ?err) ?a1) idle_session missed [?err]"
    using reply [of "goes (Reply ?err) ?a1" ?err ref_py 0 idle_session] by (simp add: goes_def missed_def woken_link_def waiting_def)
  from demo_thread [OF r6, of 0] this
  show ?thesis unfolding crossed_def by force
qed

lemma step_state: "agent_step P a b \<Longrightarrow> ag_state b = ag_state a \<or> (\<exists>e. next_state (ag_state a) e = Inr (ag_state b) \<and> e \<in> {START_SPECTATE, STOP_SPECTATE})"
proof (induction rule: agent_step.induct)
  case (inner a b)
  then show ?case by (cases rule: inner_step.cases) (simp_all add: guard_event_set_def)
next
  case (command a cmd)
  have adv: "ag_state (advance e b) = ag_state b \<or> next_state (ag_state b) e = Inr (ag_state (advance e b))" for e b
    by (simp add: advance_def split: sum.split)
  show ?case
  proof (cases cmd)
    case (Some c)
    let ?b = "a\<lparr>ag_received := ag_received a @ [c]\<rparr>"
    show ?thesis
      using adv [of START_SPECTATE ?b] adv [of STOP_SPECTATE ?b]
      by (cases c) (auto simp: Some dispatch_def on_start_spectate_def on_stop_spectate_def on_steam_guard_def on_list_friends_def
          on_link_account_def spawn_def)
  qed (simp add: dispatch_def)
next
  case (drawn a ev b)
  then show ?case by (simp add: draw_event_frame [OF drawn(1)])
qed

section \<open>Properties\<close>

text \<open>
  C11: In every interleaving of its threads the worker answers each \<open>ListFriends\<close> and \<open>LinkAccount\<close> once:
  for every request id, the results it has queued or sent of each kind and the threads
  still at work on it are together as many as the commands received with that id, so a finished
  command has exactly one result and none is invented. A guard prompt or QR challenge carries the
  id of a \<open>LinkAccount\<close> command.
\<close>

theorem agent_answers_each_command_once:
  assumes "agent_reachable P wid a"
  shows "count_key reply_key k (history a) + pending_jobs k (ag_threads a) = count_key command_key k (ag_received a)
    \<and> (\<forall>ev r. ev \<in> set (history a) \<longrightarrow> prompt_id ev = Some r \<longrightarrow>
        (\<exists>c. la_RequestId c = r \<and> Cmd_LinkAccount c \<in> set (ag_received a)))"
proof -
  have ok: "answers_ok a" by (rule answers_ok_reachable [OF assms])
  have p: "\<exists>c. la_RequestId c = r \<and> Cmd_LinkAccount c \<in> set (ag_received a)" if "ev \<in> set (history a)" "prompt_id ev = Some r" for ev r
  proof -
    have "Some (True, r) \<in> command_key ` set (ag_received a)" using ok that by (simp add: answers_ok_def)
    then obtain cmd where c: "cmd \<in> set (ag_received a)" "command_key cmd = Some (True, r)" by (auto simp del: command_key.simps)
    show ?thesis by (cases cmd) (use c in auto)
  qed
  show ?thesis by (intro conjI allI impI answersD [OF ok] p)
qed

theorem agent_answers_each_command_once_witness:
  "count_key reply_key (True, ''a'') (history crossed) = 1 \<and> count_key reply_key (True, ''b'') (history crossed) = 0"
proof -
  note a = agent_answers_each_command_once [OF crossed_reachable, THEN conjunct1]
  have p: "pending_jobs (True, ''a'') (ag_threads crossed) = 0" "pending_jobs (True, ''b'') (ag_threads crossed) = 1"
    by (simp_all add: crossed_def demo_def pending_jobs_def missed_def took_def waiting_def demo_link_def poll_start_def)
  have c: "count_key command_key (True, ''a'') (ag_received crossed) = 1" "count_key command_key (True, ''b'') (ag_received crossed) = 1"
    by (simp_all add: crossed_def demo_def demo_link_def demo_code_def)
  show ?thesis using a [of "(True, ''a'')"] a [of "(True, ''b'')"] p c by auto
qed

text \<open>
  C12: A guard code reaches Steam at most once and only when the user was asked: the codes posted by all
  logins together are, counted with multiplicity, among the codes submitted by the control
  plane; none is empty, and each is posted by a link whose prompt for that kind of code
  was queued or sent under the link's own request id, with the code type that fits the prompt.
\<close>

theorem guard_codes_used_once:
  assumes "agent_reachable P wid a"
  shows "sum_list (map (\<lambda>t. mset (List.map_filter code_in (th_asked t))) (ag_threads a))
      \<subseteq># mset (List.map_filter submitted_code (ag_received a))
    \<and> (t \<in> set (ag_threads a) \<longrightarrow> UpdateAuthSessionWithSteamGuardCode cid sid k ty \<in> set (th_asked t) \<longrightarrow> k \<noteq> '''' \<and>
        (\<exists>c v. th_job t = LinkJob c \<and> v \<in> {''email'', ''device''} \<and> ty = code_type v \<and>
          (steam_guard_event (la_RequestId c) (guard_of v))\<lparr>ev_WorkerId := wid\<rparr> \<in> set (history a)))"
proof -
  have "sum_list (map (\<lambda>t. mset (List.map_filter code_in (th_asked t))) ts) \<subseteq># sum_list (map codes_of ts)" for ts
  proof (induction ts)
    case (Cons u ts)
    have "mset (List.map_filter code_in (th_asked u)) \<subseteq># codes_of u" by (simp add: codes_of_def)
    with Cons show ?case by (simp add: subset_mset.add_mono)
  qed simp
  moreover have "sum_list (map codes_of (ag_threads a)) \<subseteq># mset (List.map_filter submitted_code (ag_received a))"
    using codes_ok_reachable [OF assms] unfolding codes_ok_def by (metis mset_subset_eq_add_left subset_mset.order_trans)
  ultimately have "sum_list (map (\<lambda>t. mset (List.map_filter code_in (th_asked t))) (ag_threads a))
      \<subseteq># mset (List.map_filter submitted_code (ag_received a))" by (rule subset_mset.order_trans)
  moreover have "k \<noteq> '''' \<and> (\<exists>v. prompted wid (history a) (th_job t) v \<and> ty = code_type v)"
    if "t \<in> set (ag_threads a)" "UpdateAuthSessionWithSteamGuardCode cid sid k ty \<in> set (th_asked t)"
  proof -
    have "ag_worker_id a = wid" using status_ok_reachable [OF assms] by (simp add: status_ok_def)
    then have "guard_ok wid (history a) t" using guards_ok_reachable [OF assms] that(1) by (simp add: guards_ok_def)
    then show ?thesis using that(2) unfolding guard_ok_def by blast
  qed
  ultimately show ?thesis unfolding prompted_def by blast
qed

theorem guard_codes_used_once_witness:
  "(steam_guard_event ''b'' ''EMAIL'')\<lparr>ev_WorkerId := ''w''\<rparr> \<in> set (history crossed)"
proof -
  have t: "took \<in> set (ag_threads crossed)" by (simp add: crossed_def demo_def)
  have u: "UpdateAuthSessionWithSteamGuardCode 7 9 ''K7'' GUARD_EMAIL_CODE \<in> set (th_asked took)" by (simp add: took_def)
  obtain c v where c: "th_job took = LinkJob c" "v \<in> {''email'', ''device''}" "GUARD_EMAIL_CODE = code_type v"
    "(steam_guard_event (la_RequestId c) (guard_of v))\<lparr>ev_WorkerId := ''w''\<rparr> \<in> set (history crossed)"
    using guard_codes_used_once [OF crossed_reachable, of took 7 9 "''K7''" GUARD_EMAIL_CODE] t u by blast
  have "la_RequestId c = ''b''" using c(1) by (auto simp: took_def waiting_def demo_link_def)
  moreover have "v = ''email''" using c(2,3) by (auto simp: code_type_def GUARD_EMAIL_CODE_def GUARD_DEVICE_CODE_def)
  ultimately show ?thesis using c(4) by (simp add: guard_of_def)
qed

text \<open>
  The handoff has one cell and no request id: with two logins waiting, a code submitted for the one can
  be taken by the other, which posts it to Steam for its own account, while the first fails
  with an empty code.
\<close>

theorem guard_code_can_cross:
  "\<exists>a t c e. agent_reachable ref_py ''w'' a \<and> t \<in> set (ag_threads a) \<and> th_job t = LinkJob c \<and> la_RequestId c = ''b''
    \<and> UpdateAuthSessionWithSteamGuardCode 7 9 ''K7'' GUARD_EMAIL_CODE \<in> set (th_asked t)
    \<and> filter (\<lambda>cmd. submitted_code cmd \<noteq> None) (ag_received a) = [Cmd_SteamGuard \<lparr>sc_Code = ''K7'', sc_RequestId = ''a''\<rparr>]
    \<and> (link_error_event ''a'' e)\<lparr>ev_WorkerId := ''w''\<rparr> \<in> set (history a)"
proof (intro exI conjI)
  show "agent_reachable ref_py ''w'' crossed" by (rule crossed_reachable)
  show "took \<in> set (ag_threads crossed)" by (simp add: crossed_def demo_def)
  show "th_job took = LinkJob (demo_link ''b'')" by (simp add: took_def waiting_def)
  show "la_RequestId (demo_link ''b'') = ''b''" by (simp add: demo_link_def)
  show "UpdateAuthSessionWithSteamGuardCode 7 9 ''K7'' GUARD_EMAIL_CODE \<in> set (th_asked took)" by (simp add: took_def)
  show "filter (\<lambda>cmd. submitted_code cmd \<noteq> None) (ag_received crossed) = [Cmd_SteamGuard \<lparr>sc_Code = ''K7'', sc_RequestId = ''a''\<rparr>]"
    by (simp add: crossed_def demo_def demo_code_def)
  show "(link_error_event ''a'' (LoginError ''empty steam guard code''))\<lparr>ev_WorkerId := ''w''\<rparr> \<in> set (history crossed)"
    by (simp add: crossed_def demo_def history_def stamp_def)
qed

text \<open>
  C37: The stream starts with \<open>Ready\<close>, every event carries the worker's id, and the status updates are
  a prefix of idle, starting, stopping that ends with the state the worker is in. Nothing in the
  worker reports a started stream or a finished clean-up yet: once it is stopping, no command and
  no thread takes it out of that state.
\<close>

theorem worker_reports_in_order:
  assumes "agent_reachable P wid a"
  shows "hd (history a) = \<lparr>ev_WorkerId = wid, ev_Payload = Some Ev_Ready\<rparr>
    \<and> ev_WorkerId ` set (history a) = {wid}
    \<and> List.map_filter status_of (history a) \<in> {[3], [3, 2], [3, 2, 5]}
    \<and> last (List.map_filter status_of (history a)) = PROTO_STATE (ag_state a)
    \<and> (ag_state a = STOPPING \<longrightarrow> (agent_step P)\<^sup>*\<^sup>* a b \<longrightarrow> ag_state b = STOPPING)"
proof -
  have s: "status_ok wid a" by (rule status_ok_reachable [OF assms])
  have "ag_state b = STOPPING" if "(agent_step P)\<^sup>*\<^sup>* a b" "ag_state a = STOPPING"
    using that
  proof (induction rule: rtranclp_induct)
    case (step b c)
    then show ?case using step_state [OF step(2)] by (auto simp: machine_defs)
  qed simp
  moreover obtain evs where "history a = \<lparr>ev_WorkerId = wid, ev_Payload = Some Ev_Ready\<rparr> # evs"
    using s by (auto simp: status_ok_def)
  ultimately show ?thesis using s unfolding status_ok_def by auto
qed

theorem worker_reports_in_order_witness:
  "List.map_filter status_of (history (advance STOP_SPECTATE (advance START_SPECTATE (run ''w'' 0)))) \<in> {[3], [3, 2], [3, 2, 5 :: WorkerState]}"
proof -
  have "agent_reachable ref_py ''w'' (dispatch (Some Cmd_StopSpectate) (dispatch (Some (Cmd_StartSpectate \<lparr>ss_SessionId = '''', ss_TargetSteamId = '''', ss_RefreshToken = ''''\<rparr>)) (run ''w'' 0)))"
    (is "agent_reachable _ _ ?a")
    by (rule agent_next, rule agent_next, rule agent_init; rule command)
      (simp_all add: dispatch_def on_start_spectate_def)
  from worker_reports_in_order [OF this]
  have "List.map_filter status_of (history ?a) \<in> {[3], [3, 2], [3, 2, 5]}" by blast
  moreover have "history ?a = history (advance STOP_SPECTATE (advance START_SPECTATE (run ''w'' 0)))"
    by (simp add: dispatch_def on_start_spectate_def on_stop_spectate_def advance_history) (simp add: advance_def machine_defs advance_history)
  ultimately show ?thesis by simp
qed

text \<open>
  C36: The loop that polls Steam for the token is bounded. While a login polls at the interval Steam
  gave (two seconds when it gave none), it has polled at most 300 divided by the interval plus
  one times, its interval is not zero, after the first poll it is positive, and it sleeps at most one
  interval past its deadline.
\<close>

theorem poll_loop_bounded:
  assumes "agent_reachable P wid a" "t \<in> set (ag_threads a)" "th_pc t = Poll_Ask p \<or> th_pc t = Poll_Sleep p until"
  shows "pn_wait p \<noteq> 0 \<and> (polls t = 0 \<or> 0 < pn_wait p \<and> of_nat (polls t) \<le> 300 / pn_wait p + 1)
    \<and> (th_pc t = Poll_Sleep p until \<longrightarrow> until \<le> pn_deadline p + pn_wait p)"
proof -
  have "poll_ok (ag_clock a) (polls t) (th_pc t)" using polls_ok_reachable [OF assms(1)] assms(2) by (simp add: polls_ok_def)
  then obtain now where p: "paced (polls t) p now" "th_pc t = Poll_Sleep p until \<longrightarrow> until \<le> pn_deadline p + pn_wait p"
    using assms(3) by auto
  have "of_nat (polls t) \<le> 300 / pn_wait p + 1" if "0 < polls t" "0 < pn_wait p"
  proof -
    have "of_nat (polls t - 1) * pn_wait p \<le> 300" using p(1) that by (simp add: paced_def AUTH_POLL_TIMEOUT_SECONDS_def)
    then have "of_nat (polls t - 1) \<le> 300 / pn_wait p" using that(2) by (simp add: field_simps)
    then show ?thesis using that(1) by (simp add: of_nat_diff)
  qed
  then show ?thesis using p by (auto simp: paced_def)
qed

theorem poll_loop_bounded_witness:
  "of_nat (polls took) \<le> 300 / (2 :: rat) + 1"
proof -
  have t: "took \<in> set (ag_threads crossed)" by (simp add: crossed_def demo_def)
  have "th_pc took = Poll_Ask \<lparr>pn_client_id = 7, pn_request_id = [], pn_wait = 2, pn_deadline = 300, pn_on_challenge = False\<rparr>"
    by (simp add: took_def poll_start_def DEFAULT_POLL_INTERVAL_def AUTH_POLL_TIMEOUT_SECONDS_def)
  with poll_loop_bounded [OF crossed_reachable t] show ?thesis by auto
qed

end
