(* ===== verification/Worker_Joined.thy ===== *)
theory Worker_Joined
  imports Worker_Runs Worker_Agent_Invariants
begin

text \<open>
  The worker pool of the control plane joined with the repository's own worker: every connection is an
  agent, the commands a stream's pump has put on the wire reach it in order, and the events it sends
  reach the stream's loop in order. In the pool alone a worker may send anything; here it sends
  what \<open>Worker_Agent\<close> sends.
\<close>

section \<open>The joined system\<close>

record Joint =
  j_pool :: Pool
  j_agents :: "handle_ref \<rightharpoonup> Agent"
  j_taken :: "handle_ref \<Rightarrow> nat"     \<comment> \<open>commands of the wire the agent has received\<close>
  j_given :: "handle_ref \<Rightarrow> nat"     \<comment> \<open>events of the agent the stream has received\<close>

definition joint_start :: Joint where
  "joint_start = \<lparr>j_pool = pool_start, j_agents = Map.empty, j_taken = (\<lambda>w. 0), j_given = (\<lambda>w. 0)\<rparr>"

text \<open>A step of the pool that is neither a new connection nor the receipt of an event.\<close>

definition own_step :: "Pool \<Rightarrow> Pool \<Rightarrow> bool" where
  "own_step p p' \<longleftrightarrow> pool_step p p' \<and> dom (handles p') = dom (handles p)
     \<and> (\<nexists>w wk ev. streams p w = Receiving \<and> handles p w = Some wk \<and> p' = receive w ev wk p)"

inductive joint_step :: "Py \<Rightarrow> Joint \<Rightarrow> Joint \<Rightarrow> bool" for P where
  j_connect: "handles (j_pool j) w = None \<Longrightarrow> pool_step (j_pool j) p \<Longrightarrow> dom (handles p) = insert w (dom (handles (j_pool j))) \<Longrightarrow>
     joint_step P j (j\<lparr>j_pool := p, j_agents := (j_agents j)(w \<mapsto> run wid now),
       j_taken := (j_taken j)(w := 0), j_given := (j_given j)(w := 0)\<rparr>)"
| j_own: "own_step (j_pool j) p \<Longrightarrow> joint_step P j (j\<lparr>j_pool := p\<rparr>)"
| j_inner: "j_agents j w = Some a \<Longrightarrow> inner_step P a b \<Longrightarrow> joint_step P j (j\<lparr>j_agents := (j_agents j)(w \<mapsto> b)\<rparr>)"
| j_command: "j_agents j w = Some a \<Longrightarrow> \<not> ag_setting a \<Longrightarrow> j_taken j w < length (wire (j_pool j) w) \<Longrightarrow>
     joint_step P j (j\<lparr>j_agents := (j_agents j)(w \<mapsto> dispatch (Some (wire (j_pool j) w ! j_taken j w)) a),
       j_taken := (j_taken j)(w := Suc (j_taken j w))\<rparr>)"
| j_draw: "j_agents j w = Some a \<Longrightarrow> draw_event a = Some (ev, b) \<Longrightarrow> joint_step P j (j\<lparr>j_agents := (j_agents j)(w \<mapsto> b)\<rparr>)"
| j_event: "j_agents j w = Some a \<Longrightarrow> j_given j w < length (ag_sent a) \<Longrightarrow> streams (j_pool j) w = Receiving \<Longrightarrow>
     handles (j_pool j) w = Some wk \<Longrightarrow>
     joint_step P j (j\<lparr>j_pool := receive w (ag_sent a ! j_given j w) wk (j_pool j), j_given := (j_given j)(w := Suc (j_given j w))\<rparr>)"

inductive joint_reachable :: "Py \<Rightarrow> Joint \<Rightarrow> bool" for P where
  joint_init: "joint_reachable P joint_start"
| joint_next: "joint_reachable P j \<Longrightarrow> joint_step P j j' \<Longrightarrow> joint_reachable P j'"

section \<open>Both parts of it\<close>

lemma joint_pool: "joint_reachable P j \<Longrightarrow> pool_reachable (j_pool j)"
proof (induction rule: joint_reachable.induct)
  case joint_init
  show ?case by (simp add: joint_start_def pool_init)
next
  case (joint_next j j')
  from joint_next(2) joint_next.IH show ?case
    by (cases rule: joint_step.cases) (auto simp: own_step_def intro: pool_next recv)
qed

lemma joint_agents: "joint_reachable P j \<Longrightarrow> j_agents j w = Some a \<Longrightarrow> \<exists>wid. agent_reachable P wid a"
proof (induction arbitrary: w a rule: joint_reachable.induct)
  case joint_init
  then show ?case by (simp add: joint_start_def)
next
  case (joint_next j j')
  note old = joint_next.IH
  have upd: "a = b \<or> j_agents j w = Some a" if "j_agents j' = (j_agents j)(w' \<mapsto> b)" for w' b
    using that joint_next.prems by (auto split: if_splits)
  from joint_next(2) show ?case
  proof (cases rule: joint_step.cases)
    case (j_connect w' p wid now)
    have "a = run wid now \<or> j_agents j w = Some a" by (rule upd) (simp add: j_connect(1))
    then show ?thesis using old agent_init by blast
  next
    case (j_own p)
    then show ?thesis using old joint_next.prems by simp
  next
    case (j_inner w' a' b)
    have "a = b \<or> j_agents j w = Some a" by (rule upd) (simp add: j_inner(1))
    then show ?thesis using old [OF j_inner(2)] old [of w a] agent_next [OF _ agent_step.inner [OF j_inner(3)]] by blast
  next
    case (j_command w' a')
    have "a = dispatch (Some (wire (j_pool j) w' ! j_taken j w')) a' \<or> j_agents j w = Some a" by (rule upd) (simp add: j_command(1))
    then show ?thesis using old [OF j_command(2)] old [of w a] agent_next [OF _ command [OF j_command(3)]] by blast
  next
    case (j_draw w' a' ev b)
    have "a = b \<or> j_agents j w = Some a" by (rule upd) (simp add: j_draw(1))
    then show ?thesis using old [OF j_draw(2)] old [of w a] agent_next [OF _ drawn [OF j_draw(3)]] by blast
  next
    case (j_event w' a' wk)
    then show ?thesis using old joint_next.prems by simp
  qed
qed

section \<open>Wires\<close>

lemma pool_wire:
  assumes "pool_step p p'"
  shows "\<exists>cs. wire p' w = wire p w @ cs" "handles p w = None \<Longrightarrow> wire p' w = wire p w"
  using assms by (cases rule: pool_step.cases; auto simp: begin_call_def end_call_def)+

lemma inner_frame: "inner_step P a b \<Longrightarrow> ag_received b = ag_received a \<and> ag_sent b = ag_sent a \<and> (\<exists>evs. history b = history a @ evs)"
proof (induction rule: inner_step.induct)
  case (set_event a)
  then show ?case by simp (simp add: guard_event_set_def)
qed simp_all

lemma advance_sent [simp]: "ag_sent (advance e a) = ag_sent a"
  by (simp add: advance_def split: sum.split)

lemma dispatch_frame: "ag_received (dispatch (Some cmd) a) = ag_received a @ [cmd]" "ag_sent (dispatch (Some cmd) a) = ag_sent a"
  "\<exists>evs. history (dispatch (Some cmd) a) = history a @ evs"
proof -
  let ?b = "a\<lparr>ag_received := ag_received a @ [cmd]\<rparr>"
  show "ag_received (dispatch (Some cmd) a) = ag_received a @ [cmd]" "ag_sent (dispatch (Some cmd) a) = ag_sent a"
    by (cases cmd; simp add: dispatch_def on_start_spectate_def on_stop_spectate_def on_steam_guard_def on_list_friends_def
        on_link_account_def spawn_def)+
  show "\<exists>evs. history (dispatch (Some cmd) a) = history a @ evs"
    using advance_grows [of START_SPECTATE ?b] advance_grows [of STOP_SPECTATE ?b]
    by (cases cmd) (simp_all add: dispatch_def on_start_spectate_def on_stop_spectate_def on_list_friends_def on_link_account_def)
qed

definition wired :: "Joint \<Rightarrow> bool" where
  "wired j \<longleftrightarrow> (\<forall>w. (handles (j_pool j) w = None \<longrightarrow> j_agents j w = None \<and> wire (j_pool j) w = [])
     \<and> j_taken j w \<le> length (wire (j_pool j) w)
     \<and> (\<forall>a. j_agents j w = Some a \<longrightarrow> ag_received a = take (j_taken j w) (wire (j_pool j) w)
         \<and> j_given j w \<le> length (ag_sent a)))"

lemma wiredD: "wired j \<Longrightarrow> handles (j_pool j) w = None \<Longrightarrow> j_agents j w = None \<and> wire (j_pool j) w = []"
  "wired j \<Longrightarrow> j_agents j w = Some a \<Longrightarrow> ag_received a = take (j_taken j w) (wire (j_pool j) w) \<and> j_given j w \<le> length (ag_sent a)"
  "wired j \<Longrightarrow> j_taken j w \<le> length (wire (j_pool j) w)"
  by (simp_all add: wired_def)

lemma wired_step: "joint_step P j j' \<Longrightarrow> wired j \<Longrightarrow> wired j'"
proof (induction rule: joint_step.induct)
  case (j_connect j w p wid now)
  have none: "handles p v = None \<longleftrightarrow> handles (j_pool j) v = None \<and> v \<noteq> w" for v
    using j_connect(3) by (metis domIff insert_iff)
  show ?case
    unfolding wired_def
  proof (intro allI conjI impI)
    fix v a
    let ?j = "j\<lparr>j_pool := p, j_agents := (j_agents j)(w \<mapsto> run wid now), j_taken := (j_taken j)(w := 0), j_given := (j_given j)(w := 0)\<rparr>"
    show "j_agents ?j v = None" "wire (j_pool ?j) v = []" if "handles (j_pool ?j) v = None"
      using that none [of v] wiredD(1) [OF j_connect(4), of v] pool_wire(2) [OF j_connect(2), of v] by auto
    show "j_taken ?j v \<le> length (wire (j_pool ?j) v)"
      using wiredD(3) [OF j_connect(4), of v] pool_wire(1) [OF j_connect(2), of v] by auto
    assume a: "j_agents ?j v = Some a"
    have "ag_received a = take (j_taken ?j v) (wire p v) \<and> j_given ?j v \<le> length (ag_sent a)"
    proof (cases "v = w")
      case False
      then show ?thesis using a wiredD(2,3) [OF j_connect(4), of v] pool_wire(1) [OF j_connect(2), of v] by auto
    qed (use a in auto)
    then show "ag_received a = take (j_taken ?j v) (wire (j_pool ?j) v)" "j_given ?j v \<le> length (ag_sent a)"
      by simp_all
  qed
next
  case (j_own j p)
  have st: "pool_step (j_pool j) p" and d: "dom (handles p) = dom (handles (j_pool j))" using j_own(1) by (simp_all add: own_step_def)
  have none: "handles p v = None \<longleftrightarrow> handles (j_pool j) v = None" for v using d by (metis domIff)
  have "ag_received a = take (j_taken j v) (wire p v) \<and> j_given j v \<le> length (ag_sent a)"
    if "j_agents j v = Some a" for v a
    using wiredD(2) [OF j_own(2) that] wiredD(3) [OF j_own(2), of v] pool_wire(1) [OF st, of v] by auto
  moreover have "j_taken j v \<le> length (wire p v)" for v
    using wiredD(3) [OF j_own(2), of v] pool_wire(1) [OF st, of v] by auto
  ultimately show ?case using none wiredD(1) [OF j_own(2)] pool_wire(2) [OF st] by (simp add: wired_def)
next
  case (j_inner j w a b)
  then show ?case using inner_frame [OF j_inner(2)] unfolding wired_def by auto
next
  case (j_command j w a)
  then show ?case unfolding wired_def by (auto simp: dispatch_frame(1,2) take_Suc_conv_app_nth)
next
  case (j_draw j w a ev b)
  then show ?case using draw_event_frame(5,9) [OF j_draw(2)] unfolding wired_def by (auto intro: le_SucI)
next
  case (j_event j w a wk)
  obtain wk' where "handles (receive w (ag_sent a ! j_given j w) wk (j_pool j)) = (handles (j_pool j))(w \<mapsto> wk')"
    using receive_handles by blast
  then show ?case using j_event unfolding wired_def by auto
qed

lemma wired_reachable: "joint_reachable P j \<Longrightarrow> wired j"
proof (induction rule: joint_reachable.induct)
  case joint_init
  show ?case by (simp add: joint_start_def wired_def pool_start_def)
qed (rule wired_step)

section \<open>Where the reply of a call is\<close>

text \<open>
  A call sends one command, and the agent turns one command into one result: there is at most one
  token for it, in a queue, on a wire, with a thread, among the events under way, in the hands of a stream
  loop, on the call's channel, or taken by the call.
\<close>

definition call_key :: "Call \<Rightarrow> bool \<times> string" where
  "call_key k = (is_link (c_req k), c_id k)"

definition answered_call :: "Call \<Rightarrow> bool" where
  "answered_call k \<longleftrightarrow> is_friends (c_req k) \<or> is_link (c_req k)"

definition queued :: "Joint \<Rightarrow> handle_ref \<Rightarrow> Command list" where
  "queued j w = (case handles (j_pool j) w of None \<Rightarrow> [] | Some wk \<Rightarrow> w_send wk) @ drop (j_taken j w) (wire (j_pool j) w)"

definition at_work :: "bool \<times> string \<Rightarrow> Joint \<Rightarrow> handle_ref \<Rightarrow> nat" where
  "at_work key j w = (case j_agents j w of None \<Rightarrow> 0
     | Some a \<Rightarrow> pending_jobs key (ag_threads a) + count_key reply_key key (drop (j_given j w) (history a)))"

fun putting :: "call_ref \<Rightarrow> stream_pc \<Rightarrow> nat" where
  "putting c (Putting c' r) = (if c' = c then 1 else 0)"
| "putting c pc = 0"

definition tokens :: "bool \<times> string \<Rightarrow> call_ref \<Rightarrow> Joint \<Rightarrow> handle_ref \<Rightarrow> nat" where
  "tokens key c j w = count_key command_key key (queued j w) + at_work key j w + putting c (streams (j_pool j) w)"

fun got :: "call_pc \<Rightarrow> nat" where
  "got (Leaving (Answered r)) = 1"
| "got (Returned (Answered r)) = 1"
| "got pc = 0"

fun unsent :: "call_pc \<Rightarrow> bool" where
  "unsent Added = True"
| "unsent (Sending w) = True"
| "unsent pc = False"

definition one_token :: "call_ref \<Rightarrow> Call \<Rightarrow> Joint \<Rightarrow> bool" where
  "one_token c k j \<longleftrightarrow> (\<exists>w0. (\<forall>w. w \<noteq> w0 \<longrightarrow> tokens (call_key k) c j w = 0)
       \<and> tokens (call_key k) c j w0 + length (chans (j_pool j) c) + got (c_pc k) \<le> (if unsent (c_pc k) then 0 else 1))"

definition reply_tokens_ok :: "Joint \<Rightarrow> bool" where
  "reply_tokens_ok j \<longleftrightarrow> (\<forall>c k. calls (j_pool j) c = Some k \<longrightarrow> answered_call k \<longrightarrow> sole (j_pool j) c k \<longrightarrow> one_token c k j)"

text \<open>A token does not multiply: no more of it at any worker, nor on the channel and with the call.\<close>

lemma one_token_le:
  assumes "one_token c k j" "call_key k' = call_key k" "unsent (c_pc k') \<longrightarrow> unsent (c_pc k)"
    "\<And>w. tokens (call_key k) c j' w \<le> tokens (call_key k) c j w"
    "length (chans (j_pool j') c) + got (c_pc k') \<le> length (chans (j_pool j) c) + got (c_pc k)"
  shows "one_token c k' j'"
proof -
  obtain w0 where w0: "\<And>w. w \<noteq> w0 \<Longrightarrow> tokens (call_key k) c j w = 0"
    "tokens (call_key k) c j w0 + length (chans (j_pool j) c) + got (c_pc k) \<le> (if unsent (c_pc k) then 0 else 1)"
    using assms(1) unfolding one_token_def by blast
  have "tokens (call_key k) c j' w = 0" if "w \<noteq> w0" for w using w0(1) [OF that] assms(4) [of w] by simp
  moreover have "tokens (call_key k) c j' w0 + length (chans (j_pool j') c) + got (c_pc k') \<le> (if unsent (c_pc k') then 0 else 1)"
    using w0(2) assms(3,5) assms(4) [of w0] by (auto split: if_splits)
  ultimately show ?thesis unfolding one_token_def assms(2) by blast
qed

text \<open>The token of a call moves from a stream to the channel.\<close>

lemma one_token_put:
  assumes "one_token c k j" "tokens (call_key k) c j w = Suc (tokens (call_key k) c j' w)"
    "\<And>v. v \<noteq> w \<Longrightarrow> tokens (call_key k) c j' v = tokens (call_key k) c j v"
    "length (chans (j_pool j') c) = Suc (length (chans (j_pool j) c))"
  shows "one_token c k j'"
proof -
  obtain w0 where w0: "\<And>w. w \<noteq> w0 \<Longrightarrow> tokens (call_key k) c j w = 0"
    "tokens (call_key k) c j w0 + length (chans (j_pool j) c) + got (c_pc k) \<le> (if unsent (c_pc k) then 0 else 1)"
    using assms(1) unfolding one_token_def by blast
  have "w = w0" using w0(1) [of w] assms(2) by (cases "w = w0") auto
  then show ?thesis using w0 assms(2-4) unfolding one_token_def by (intro exI [of _ w0]) auto
qed

section \<open>Steps of the pool\<close>

lemma tokens_pool: "tokens key c (j\<lparr>j_pool := p\<rparr>) w =
    count_key command_key key (case handles p w of None \<Rightarrow> [] | Some wk \<Rightarrow> w_send wk) +
    count_key command_key key (drop (j_taken j w) (wire p w)) + at_work key j w + putting c (streams p w)"
  by (simp add: tokens_def queued_def at_work_def split: option.split)

lemma tokens_now: "tokens key c j w =
    count_key command_key key (case handles (j_pool j) w of None \<Rightarrow> [] | Some wk \<Rightarrow> w_send wk) +
    count_key command_key key (drop (j_taken j w) (wire (j_pool j) w)) + at_work key j w + putting c (streams (j_pool j) w)"
  by (simp add: tokens_def queued_def)



lemma call_key_cong: "c_req k' = c_req k \<Longrightarrow> c_id k' = c_id k \<Longrightarrow> call_key k' = call_key k"
  "c_req k' = c_req k \<Longrightarrow> answered_call k' = answered_call k"
  by (simp_all add: call_key_def answered_call_def)

lemma call_key_pc [simp]: "call_key (k\<lparr>c_pc := pc\<rparr>) = call_key k"
  by (simp add: call_key_def)

lemma command_key_of: "command_key (command_of k) = (if answered_call k then Some (call_key k) else None)"
  by (cases "c_req k") (simp_all add: answered_call_def call_key_def)

lemma putting_upd: "putting c (if w = v then Receiving else s) \<le> putting c s" "putting c (if w = v then Ended else s) \<le> putting c s"
  by simp_all

text \<open>A step of the pool moves no token to a worker, unless it queues the command of a call.\<close>

lemma own_tokens_le:
  assumes st: "own_step (j_pool j) p" and w: "wired j"
  shows "(\<forall>key c v. tokens key c (j\<lparr>j_pool := p\<rparr>) v \<le> tokens key c j v) \<or>
    (\<exists>d k v wk wk'. calls (j_pool j) d = Some k \<and> c_pc k = Sending v \<and> handles (j_pool j) v = Some wk \<and>
      Send_enqueue (command_of k) wk = Some wk' \<and>
      p = set_pc d k (after_send (c_req k)) ((j_pool j)\<lparr>handles := (handles (j_pool j))(v \<mapsto> wk')\<rparr>))"
    (is "?le \<or> ?enq")
proof -
  have ps: "pool_step (j_pool j) p" and d: "dom (handles p) = dom (handles (j_pool j))"
    and no: "\<nexists>w wk ev. streams (j_pool j) w = Receiving \<and> handles (j_pool j) w = Some wk \<and> p = receive w ev wk (j_pool j)"
    using st unfolding own_step_def by blast+
  show ?thesis
    using ps
  proof (cases rule: pool_step.cases)
    case (connect w)
    then show ?thesis using d by (auto simp: domIff)
  next
    case (recv w wk ev)
    then show ?thesis using no by blast
  next
    case (pump w wk cmd cs)
    have "tokens key c (j\<lparr>j_pool := p\<rparr>) v \<le> tokens key c j v" for key c v
      using pump wiredD(3) [OF w, of v] unfolding tokens_pool tokens_now [of key c j] by (cases "v = w") auto
    then show ?thesis by blast
  next
    case (enqueue d k w wk wk')
    then show ?thesis by blast
  qed (rule disjI1, auto simp: tokens_pool tokens_now [of _ _ j] begin_call_def end_call_def)
qed

lemma own_call:
  assumes "pool_step p p'" "calls p c = Some k" "calls p' c = Some k'"
  shows "(unsent (c_pc k') \<longrightarrow> unsent (c_pc k)) \<and>
    (length (chans p' c) + got (c_pc k') \<le> length (chans p c) + got (c_pc k) \<or>
     (\<exists>v r q. streams p v = Putting c r \<and> q = chans p c @ [r] \<and> p' = p\<lparr>chans := (chans p)(c := q), streams := (streams p)(v := Receiving)\<rparr>))"
  using assms
proof (cases rule: pool_step.cases)
  case (put w d r q)
  then have "q = chans p d @ [r]" by (auto simp: chan_send_def split: if_splits)
  then show ?thesis using put assms(2,3) by (cases "d = c") auto
next
  case (enqueue d l w wk wk')
  then show ?thesis using assms(2,3) after_send_cases [of "c_req l"] by (auto split: if_splits)
next
  case (leave d l a)
  then show ?thesis using assms(2,3) by (cases a) (auto split: if_splits)
qed (use assms(2,3) in \<open>auto split: if_splits\<close>)

lemma pool_commands:
  assumes "pool_inv s" "cmd \<in> set (wire s w) \<or> (\<exists>wk. handles s w = Some wk \<and> cmd \<in> set (w_send wk))"
  shows "\<exists>c k. calls s c = Some k \<and> command_of k = cmd"
proof -
  have "commands_ok s" using assms(1) by (simp add: pool_inv_def)
  then show ?thesis using assms(2) unfolding commands_ok_def by blast
qed

lemma pool_replies: "pool_inv s \<Longrightarrow> r \<in> set (chans s c) \<Longrightarrow> fits_call (calls s) c r"
  "pool_inv s \<Longrightarrow> streams s w = Putting c r \<Longrightarrow> fits_call (calls s) c r"
  by (simp_all add: pool_inv_def replies_ok_def)

lemma no_tokens_yet:
  assumes inv: "pool_inv (j_pool j)" and w: "wired j" and ans: "\<And>a. j_agents j w = Some a \<Longrightarrow> answers_ok a"
    and fresh: "calls (j_pool j) c = None" "\<And>d k. calls (j_pool j) d = Some k \<Longrightarrow> answered_call k \<Longrightarrow> call_key k \<noteq> key"
  shows "tokens key c j w = 0" "chans (j_pool j) c = []"
proof -
  have cmds: "command_key cmd \<noteq> Some key" if "cmd \<in> set (wire (j_pool j) v) \<or> (\<exists>wk. handles (j_pool j) v = Some wk \<and> cmd \<in> set (w_send wk))" for cmd v
  proof -
    from pool_commands [OF inv that] obtain d k where "calls (j_pool j) d = Some k" "command_of k = cmd" by blast
    then show ?thesis using fresh(2) [of d k] command_key_of [of k] by (auto simp del: command_of.simps split: if_splits)
  qed
  have none: "count_key command_key key xs = 0" if "\<And>cmd. cmd \<in> set xs \<Longrightarrow> command_key cmd \<noteq> Some key" for xs
    using that by (induction xs) auto
  have "count_key command_key key (queued j w) = 0"
    by (rule none, rule cmds [of _ w]) (auto simp: queued_def dest: in_set_dropD split: option.splits)
  moreover have "at_work key j w = 0"
  proof (cases "j_agents j w")
    case (Some a)
    have "count_key command_key key (ag_received a) = 0"
      by (rule none, rule cmds [of _ w]) (use wiredD(2) [OF w Some] in \<open>auto dest: in_set_takeD\<close>)
    then have z: "count_key reply_key key (history a) = 0" "pending_jobs key (ag_threads a) = 0"
      using agent.unasked [OF ans [OF Some]] by simp_all
    have "count_key reply_key key (drop (j_given j w) (history a)) \<le> count_key reply_key key (history a)"
      using append_take_drop_id [of "j_given j w" "history a"] count_key_simps(3) [of reply_key key "take (j_given j w) (history a)" "drop (j_given j w) (history a)"] by simp
    then show ?thesis using z Some by (simp add: at_work_def)
  qed (simp add: at_work_def)
  moreover have f: "\<not> fits_call (calls (j_pool j)) c r" for r using fresh(1) by (simp add: fits_call_def)
  then have "putting c (streams (j_pool j) w) = 0"
    using pool_replies(2) [OF inv, of w c] by (cases "streams (j_pool j) w") auto
  ultimately show "tokens key c j w = 0" by (simp add: tokens_def)
  show "chans (j_pool j) c = []" using pool_replies(1) [OF inv, of _ c] f by (cases "chans (j_pool j) c") (simp, metis list.set_intros(1))
qed

lemma reply_tokens_ok_own:
  assumes st: "own_step (j_pool j) p" and w: "wired j" and inv: "pool_inv (j_pool j)"
    and ans: "\<And>v a. j_agents j v = Some a \<Longrightarrow> answers_ok a" and ok: "reply_tokens_ok j"
  shows "reply_tokens_ok (j\<lparr>j_pool := p\<rparr>)"
  unfolding reply_tokens_ok_def
proof (intro allI impI)
  fix c k' assume k': "calls (j_pool (j\<lparr>j_pool := p\<rparr>)) c = Some k'" "answered_call k'" "sole (j_pool (j\<lparr>j_pool := p\<rparr>)) c k'"
  let ?j = "j\<lparr>j_pool := p\<rparr>" and ?p = "j_pool j"
  have ps: "pool_step ?p p" using st by (simp add: own_step_def)
  show "one_token c k' ?j"
  proof (cases "calls ?p c")
    case None
    have "\<exists>rid q. p = begin_call c rid q ?p"
      using ps None k'(1) by (cases rule: pool_step.cases) (auto split: if_splits)
    then obtain rid q where p: "p = begin_call c rid q ?p" by blast
    then have k: "k' = \<lparr>c_req = q, c_id = rid, c_pc = Added\<rparr>" using k'(1) by simp
    have fresh: "call_key l \<noteq> call_key k'" if "calls ?p d = Some l" "answered_call l" for d l
    proof -
      have "d \<noteq> c" using that None by auto
      then have "calls p d = Some l" using that(1) p by simp
      then show ?thesis using soleD [of p c k' d l] k'(3) \<open>d \<noteq> c\<close> that(2) by (auto simp: answered_call_def call_key_def)
    qed
    have "tokens (call_key k') c ?j v = 0" for v
    proof -
      have "tokens (call_key k') c ?j v = tokens (call_key k') c j v"
        unfolding tokens_pool tokens_now [of _ c j] using p by (simp add: begin_call_def)
      then show ?thesis using no_tokens_yet(1) [OF inv w ans None fresh] by simp
    qed
    moreover have "chans p c = []" using no_tokens_yet(2) [OF inv w ans None fresh] p by simp
    ultimately show ?thesis by (simp add: one_token_def k)
  next
    case (Some k)
    have same: "c_req k' = c_req k" "c_id k' = c_id k" using step_keeps_call [OF ps Some] k'(1) by auto
    have tok: "one_token c k j"
      using ok Some k'(2) sole_before [OF ps Some] k'(1,3) call_key_cong(2) [OF same(1)] unfolding reply_tokens_ok_def by simp
    note key = call_key_cong(1) [OF same]
    have un: "unsent (c_pc k') \<longrightarrow> unsent (c_pc k)" and put: "length (chans p c) + got (c_pc k') \<le> length (chans ?p c) + got (c_pc k) \<or>
     (\<exists>v r q. streams ?p v = Putting c r \<and> q = chans ?p c @ [r] \<and> p = ?p\<lparr>chans := (chans ?p)(c := q), streams := (streams ?p)(v := Receiving)\<rparr>)"
      using own_call [OF ps Some] k'(1) by simp_all
    from own_tokens_le [OF st w] show ?thesis
    proof
      assume le: "\<forall>key c v. tokens key c ?j v \<le> tokens key c j v"
      from put show ?thesis
      proof
        assume "length (chans p c) + got (c_pc k') \<le> length (chans ?p c) + got (c_pc k)"
        then show ?thesis by (intro one_token_le [OF tok key un]) (use le in blast, simp)
      next
        assume "\<exists>v r q. streams ?p v = Putting c r \<and> q = chans ?p c @ [r] \<and> p = ?p\<lparr>chans := (chans ?p)(c := q), streams := (streams ?p)(v := Receiving)\<rparr>"
        then obtain v r where v: "streams ?p v = Putting c r" "p = ?p\<lparr>chans := (chans ?p)(c := chans ?p c @ [r]), streams := (streams ?p)(v := Receiving)\<rparr>" by blast
        have "calls p = calls ?p" by (subst v(2)) simp
        then have "k' = k" using Some k'(1) by simp
        have t: "tokens (call_key k) c ?j u = tokens (call_key k) c j u - (if u = v then 1 else 0)" for u
          unfolding tokens_pool tokens_now [of _ c j] by (subst (1 2 3) v(2)) (simp add: v(1))
        have "tokens (call_key k) c j v = Suc (tokens (call_key k) c ?j v)"
          using t [of v] v(1) by (simp add: tokens_now [of _ c j])
        moreover have "length (chans p c) = Suc (length (chans ?p c))" by (subst v(2)) simp
        ultimately show ?thesis unfolding \<open>k' = k\<close> using t by (intro one_token_put [OF tok, of v]) simp_all
      qed
    next
      assume "\<exists>d l v wk wk'. calls ?p d = Some l \<and> c_pc l = Sending v \<and> handles ?p v = Some wk \<and>
        Send_enqueue (command_of l) wk = Some wk' \<and> p = set_pc d l (after_send (c_req l)) (?p\<lparr>handles := (handles ?p)(v \<mapsto> wk')\<rparr>)"
      then obtain d l v wk wk' where e: "calls ?p d = Some l" "c_pc l = Sending v" "handles ?p v = Some wk"
        "Send_enqueue (command_of l) wk = Some wk'" and p: "p = set_pc d l (after_send (c_req l)) (?p\<lparr>handles := (handles ?p)(v \<mapsto> wk')\<rparr>)" by blast
      have q: "w_send wk' = w_send wk @ [command_of l]"
        using e(4) by (auto simp: Send_enqueue_def chan_send_def simp del: command_of.simps split: if_splits)
      have t: "tokens (call_key k) c ?j u = tokens (call_key k) c j u +
          (if u = v \<and> answered_call l \<and> call_key l = call_key k then 1 else 0)" for u
        unfolding tokens_pool tokens_now [of _ c j] by (subst (1 2 3) p) (simp add: e(3) q command_key_of del: command_of.simps)
      have ch: "chans p c = chans ?p c" by (subst p) simp
      show ?thesis
      proof (cases "d = c")
        case False
        have "answered_call l \<Longrightarrow> call_key l \<noteq> call_key k"
        proof -
          assume "answered_call l"
          moreover have "calls p d = Some (l\<lparr>c_pc := after_send (c_req l)\<rparr>)" by (subst p) simp
          ultimately show "call_key l \<noteq> call_key k"
            using soleD [of p c k' d "l\<lparr>c_pc := after_send (c_req l)\<rparr>"] k'(3) False same by (auto simp: answered_call_def call_key_def)
        qed
        then have "tokens (call_key k) c ?j u \<le> tokens (call_key k) c j u" for u using t [of u] by auto
        moreover have "calls p c = calls ?p c" using False by (subst p) simp
        then have "k' = k" using Some k'(1) by simp
        ultimately show ?thesis using tok ch by (intro one_token_le [OF tok key un]) simp_all
      next
        case True
        then have l: "l = k" using e(1) Some by simp
        have k2: "k' = k\<lparr>c_pc := after_send (c_req k)\<rparr>" using k'(1) True l by (simp add: p)
        have "unsent (c_pc k)" using e(2) l by simp
        then have z: "tokens (call_key k) c j u = 0" "chans ?p c = []" "got (c_pc k) = 0" for u
          using tok unfolding one_token_def by (metis add_is_0 le_zero_eq, auto)
        have "\<not> unsent (c_pc k')" "got (c_pc k') = 0" using after_send_cases [of "c_req k"] by (auto simp: k2)
        then show ?thesis using t z ch unfolding one_token_def key by (intro exI [of _ v]) auto
      qed
    qed
  qed
qed

section \<open>Steps of the agents and between the two\<close>

lemma reply_tokens_ok_le:
  assumes ok: "reply_tokens_ok j" and p: "calls (j_pool j') = calls (j_pool j)" "chans (j_pool j') = chans (j_pool j)"
    and le: "\<And>c k w. calls (j_pool j) c = Some k \<Longrightarrow> tokens (call_key k) c j' w \<le> tokens (call_key k) c j w"
  shows "reply_tokens_ok j'"
  unfolding reply_tokens_ok_def
proof (intro allI impI)
  fix c k assume k: "calls (j_pool j') c = Some k" "answered_call k" "sole (j_pool j') c k"
  have "sole (j_pool j) c k" using k(3) by (simp add: sole_def p(1))
  then have "one_token c k j" using ok k(1,2) p(1) unfolding reply_tokens_ok_def by simp
  then show "one_token c k j'" by (rule one_token_le) (use le k(1) p in simp_all)
qed

text \<open>The tokens an agent holds follow from the contract of a worker.\<close>

lemma tokens_agent: "tokens key c (j\<lparr>j_agents := (j_agents j)(w \<mapsto> b)\<rparr>) v =
    (if v = w then count_key command_key key (queued j w) + (pending_jobs key (ag_threads b) +
       count_key reply_key key (drop (j_given j w) (history b))) + putting c (streams (j_pool j) w) else tokens key c j v)"
  by (simp add: tokens_def queued_def at_work_def split: option.split)

lemma given_le: "wired j \<Longrightarrow> j_agents j w = Some a \<Longrightarrow> j_given j w \<le> length (history a)"
  using wiredD(2) [of j w a] by (simp add: history_def)

lemma reply_tokens_ok_agent:
  assumes ok: "reply_tokens_ok j" and w: "wired j" and a: "j_agents j w = Some a"
    and ans: "answers_ok a" "answers_ok b" and b: "history b = history a @ evs" "ag_received b = ag_received a"
  shows "reply_tokens_ok (j\<lparr>j_agents := (j_agents j)(w \<mapsto> b)\<rparr>)"
proof (rule reply_tokens_ok_le [OF ok])
  fix c k v
  show "tokens (call_key k) c (j\<lparr>j_agents := (j_agents j)(w \<mapsto> b)\<rparr>) v \<le> tokens (call_key k) c j v"
    using agent.balance_step [OF ans b(1) given_le [OF w a], of "[]" "call_key k"] b(2) a
    by (simp add: tokens_agent) (simp add: tokens_def at_work_def)
qed simp_all

lemma reply_tokens_ok_command:
  assumes ok: "reply_tokens_ok j" and w: "wired j" and a: "j_agents j w = Some a" and i: "j_taken j w < length (wire (j_pool j) w)"
    and ans: "answers_ok a" "answers_ok (dispatch (Some (wire (j_pool j) w ! j_taken j w)) a)"
  shows "reply_tokens_ok (j\<lparr>j_agents := (j_agents j)(w \<mapsto> dispatch (Some (wire (j_pool j) w ! j_taken j w)) a),
       j_taken := (j_taken j)(w := Suc (j_taken j w))\<rparr>)"
proof (rule reply_tokens_ok_le [OF ok])
  fix c k v
  let ?cmd = "wire (j_pool j) w ! j_taken j w"
  let ?b = "dispatch (Some ?cmd) a" and ?key = "call_key k"
  obtain evs where h: "history ?b = history a @ evs" using dispatch_frame(3) by blast
  have "pending_jobs ?key (ag_threads ?b) + count_key reply_key ?key (drop (j_given j w) (history ?b)) =
    pending_jobs ?key (ag_threads a) + count_key reply_key ?key (drop (j_given j w) (history a)) + count_key command_key ?key [?cmd]"
    by (rule agent.balance_step [OF ans h given_le [OF w a] dispatch_frame(1)])
  moreover have "drop (j_taken j w) (wire (j_pool j) w) = ?cmd # drop (Suc (j_taken j w)) (wire (j_pool j) w)"
    using i by (rule Cons_nth_drop_Suc [symmetric])
  ultimately show "tokens ?key c (j\<lparr>j_agents := (j_agents j)(w \<mapsto> ?b), j_taken := (j_taken j)(w := Suc (j_taken j w))\<rparr>) v \<le> tokens ?key c j v"
    using a by (cases "v = w") (simp_all add: tokens_def at_work_def queued_def split: option.split)
qed simp_all

text \<open>An event becomes a reply in the hands of the stream only for the call it names.\<close>

lemma is_friends_not_link: "is_friends q \<Longrightarrow> \<not> is_link q"
  by (cases q) simp_all

lemma receive_putting:
  assumes inv: "pool_inv p" and k: "calls p c = Some k" and w: "streams p w = Receiving"
  shows "putting c (streams (receive w ev wk p) v) \<le> (if v = w \<and> reply_key ev = Some (call_key k) then 1 else putting c (streams p v))"
proof -
  obtain wk' s' eff where h: "handle w ev wk (server p) = (wk', s', eff)" by (rule prod_cases3)
  show ?thesis
  proof (cases eff)
    case (PutReply d r)
    have t: "table_ok is_friends (pf_chans (pending (server p))) (calls p)" "table_ok is_link (pl_chans (links (server p))) (calls p)"
      using inv by (simp_all add: pool_inv_def tables_ok_def)
    have key: "pf_chans (pending (server p)) i = Some c \<Longrightarrow> call_key k = (False, i)"
      "pl_chans (links (server p)) i = Some c \<Longrightarrow> call_key k = (True, i)" for i
      using table_okD [OF t(1), of i c] table_okD [OF t(2), of i c] k is_friends_not_link by (auto simp: call_key_def)
    have "d = c \<Longrightarrow> reply_key ev = Some (call_key k)"
      using h PutReply key
      by (auto simp: handle_def pf_deliver_def pl_deliver_def reply_key.simps split: option.splits WorkerEvent_Payload.splits)
    then show ?thesis using PutReply w by (simp add: receive_def h)
  qed (use w in \<open>simp_all add: receive_def h\<close>)
qed

lemma reply_tokens_ok_event:
  assumes ok: "reply_tokens_ok j" and inv: "pool_inv (j_pool j)" and w: "wired j" and a: "j_agents j w = Some a"
    and i: "j_given j w < length (ag_sent a)" and r: "streams (j_pool j) w = Receiving" and h: "handles (j_pool j) w = Some wk"
  shows "reply_tokens_ok (j\<lparr>j_pool := receive w (ag_sent a ! j_given j w) wk (j_pool j), j_given := (j_given j)(w := Suc (j_given j w))\<rparr>)"
proof (rule reply_tokens_ok_le [OF ok])
  fix c k v
  assume k: "calls (j_pool j) c = Some k"
  let ?ev = "ag_sent a ! j_given j w" and ?key = "call_key k"
  let ?p = "receive w ?ev wk (j_pool j)"
  obtain wk' where hs: "handles ?p = (handles (j_pool j))(w \<mapsto> wk')" "w_send wk' = w_send wk" using receive_handles by blast
  have "drop (j_given j w) (history a) = ?ev # drop (Suc (j_given j w)) (history a)"
    using i Cons_nth_drop_Suc [of "j_given j w" "history a"] by (simp add: history_def nth_append)
  moreover note receive_putting [OF inv k r, of ?ev wk v]
  ultimately show "tokens ?key c (j\<lparr>j_pool := ?p, j_given := (j_given j)(w := Suc (j_given j w))\<rparr>) v \<le> tokens ?key c j v"
    using a h hs by (cases "v = w") (auto simp: tokens_def at_work_def queued_def split: option.splits if_splits)
qed simp_all

lemma reply_tokens_ok_connect:
  assumes ok: "reply_tokens_ok j" and w: "wired j" and none: "handles (j_pool j) w = None" and st: "pool_step (j_pool j) p"
    and d: "dom (handles p) = insert w (dom (handles (j_pool j)))"
  shows "reply_tokens_ok (j\<lparr>j_pool := p, j_agents := (j_agents j)(w \<mapsto> run wid now), j_taken := (j_taken j)(w := 0), j_given := (j_given j)(w := 0)\<rparr>)"
proof -
  have new: "w \<in> dom (handles p)" "w \<notin> dom (handles (j_pool j))" using d none by auto
  have "p = (j_pool j)\<lparr>handles := (handles (j_pool j))(w \<mapsto> \<lparr>w_ID = '''', w_send = []\<rparr>),
       streams := (streams (j_pool j))(w := Receiving), pumping := (pumping (j_pool j))(w := True)\<rparr>"
    using st
  proof (cases rule: pool_step.cases)
    case (connect v)
    then have "v = w" using new by auto
    then show ?thesis using connect by simp
  next
    case (recv v wk ev)
    obtain wk' where "handles p = (handles (j_pool j))(v \<mapsto> wk')" using receive_handles recv(1) by blast
    then show ?thesis using recv(3) new by (auto split: if_splits)
  qed (use new in \<open>auto simp: begin_call_def end_call_def split: if_splits\<close>)
  note p = this
  have e: "count_key reply_key key (history (run wid now)) = 0" for key
    by (simp add: run_history reply_key.simps)
  show ?thesis
  proof (rule reply_tokens_ok_le [OF ok])
    fix c k v
    assume "calls (j_pool j) c = Some k"
    show "tokens (call_key k) c (j\<lparr>j_pool := p, j_agents := (j_agents j)(w \<mapsto> run wid now), j_taken := (j_taken j)(w := 0), j_given := (j_given j)(w := 0)\<rparr>) v
        \<le> tokens (call_key k) c j v"
      using wiredD(1) [OF w none] e
      by (cases "v = w") (simp_all add: p tokens_def at_work_def queued_def pending_jobs_def split: option.split)
  qed (simp_all add: p)
qed

lemma joint_answers: "joint_reachable P j \<Longrightarrow> j_agents j w = Some a \<Longrightarrow> answers_ok a"
  using joint_agents answers_ok_reachable by blast

lemma reply_tokens_ok_reachable: "joint_reachable P j \<Longrightarrow> reply_tokens_ok j"
proof (induction rule: joint_reachable.induct)
  case joint_init
  show ?case by (simp add: joint_start_def reply_tokens_ok_def pool_start_def)
next
  case (joint_next j j')
  note ok = joint_next.IH and w = wired_reachable [OF joint_next(1)] and ans = joint_answers [OF joint_next(1)]
  have inv: "pool_inv (j_pool j)" by (rule pool_inv_reachable [OF joint_pool [OF joint_next(1)]])
  note next_reach = joint_reachable.joint_next [OF joint_next(1,2)]
  from joint_next(2) show ?case
  proof (cases rule: joint_step.cases)
    case (j_connect w' p wid now)
    then show ?thesis using reply_tokens_ok_connect [OF ok w] by blast
  next
    case (j_own p)
    show ?thesis unfolding j_own(1) by (rule reply_tokens_ok_own [OF j_own(2) w inv _ ok]) (rule ans)
  next
    case (j_inner w' a b)
    obtain evs where "history b = history a @ evs" using inner_frame [OF j_inner(3)] by blast
    moreover have "answers_ok b" by (rule joint_answers [OF next_reach, of w']) (simp add: j_inner(1))
    ultimately show ?thesis unfolding j_inner(1)
      using inner_frame [OF j_inner(3)] by (intro reply_tokens_ok_agent [OF ok w j_inner(2) ans [OF j_inner(2)]]) simp_all
  next
    case (j_command w' a)
    have "answers_ok (dispatch (Some (wire (j_pool j) w' ! j_taken j w')) a)"
      by (rule joint_answers [OF next_reach, of w']) (simp add: j_command(1))
    then show ?thesis unfolding j_command(1) using reply_tokens_ok_command [OF ok w j_command(2,4) ans [OF j_command(2)]] by blast
  next
    case (j_draw w' a ev b)
    have "answers_ok b" by (rule joint_answers [OF next_reach, of w']) (simp add: j_draw(1))
    then show ?thesis unfolding j_draw(1)
      using draw_event_frame [OF j_draw(3)] by (intro reply_tokens_ok_agent [OF ok w j_draw(2) ans [OF j_draw(2)], of b "[]"]) simp_all
  next
    case (j_event w' a wk)
    then show ?thesis using reply_tokens_ok_event [OF ok inv w] by blast
  qed
qed

section \<open>A run\<close>

text \<open>
  The agent connects and says it is ready, a friends call reaches it, Steam fails, and the result is
  in the hands of the stream loop.
\<close>

lemma own_stepI:
  "pool_step p p' \<Longrightarrow> dom (handles p') = dom (handles p) \<Longrightarrow> calls p' \<noteq> calls p \<or> wire p' \<noteq> wire p \<Longrightarrow> own_step p p'"
  unfolding own_step_def using receive_frame(1,5) by metis

lemma run_agent: "run wid now = \<lparr>ag_state = IDLE, ag_worker_id = wid,
    ag_steam = \<lparr>sn_client = False, sn_steam_id = None, sn_guard_event = False, sn_guard_code = None\<rparr>,
    ag_outbox = [\<lparr>ev_WorkerId = wid, ev_Payload = Some Ev_Ready\<rparr>, \<lparr>ev_WorkerId = wid, ev_Payload = Some (Ev_StatusUpdate (PROTO_STATE IDLE))\<rparr>],
    ag_sent = [], ag_received = [], ag_setting = False, ag_threads = [], ag_clock = now\<rparr>"
  by (simp add: run_def advance_def send_def Agent_init_def next_state_STREAM_CONNECTED event_def)

definition ask :: ListFriends where
  "ask = \<lparr>lf_RequestId = ''r1'', lf_RefreshToken = ''t''\<rparr>"

definition failed :: WorkerEvent where
  "failed = (friends_error_event ''r1'' (OtherError ''timeout''))\<lparr>ev_WorkerId := ''w1''\<rparr>"

definition demo_pool :: "call_pc \<Rightarrow> Command list \<Rightarrow> Command list \<Rightarrow> stream_pc \<Rightarrow> Pool" where
  "demo_pool pc q ws st = \<lparr>server = \<lparr>reg = \<lparr>current = Some 0\<rparr>, pending = \<lparr>pf_chans = [''r1'' \<mapsto> 0]\<rparr>, links = newPendingLinks\<rparr>,
     handles = [0 \<mapsto> \<lparr>w_ID = ''w1'', w_send = q\<rparr>], streams = (\<lambda>w. Ended)(0 := st), pumping = (\<lambda>w. False)(0 := True),
     wire = (\<lambda>w. [])(0 := ws), calls = [0 \<mapsto> \<lparr>c_req = AskFriends ''t'', c_id = ''r1'', c_pc = pc\<rparr>], chans = (\<lambda>c. []), ran = []\<rparr>"

definition demo_agent :: "WorkerEvent list \<Rightarrow> WorkerEvent list \<Rightarrow> Command list \<Rightarrow> Thread list \<Rightarrow> Agent" where
  "demo_agent out sent cs ts = \<lparr>ag_state = IDLE, ag_worker_id = ''w1'',
    ag_steam = \<lparr>sn_client = False, sn_steam_id = None, sn_guard_event = False, sn_guard_code = None\<rparr>,
    ag_outbox = out, ag_sent = sent, ag_received = cs, ag_setting = False, ag_threads = ts, ag_clock = 0\<rparr>"

definition demo_joint :: "Pool \<Rightarrow> Agent \<Rightarrow> nat \<Rightarrow> nat \<Rightarrow> Joint" where
  "demo_joint p a n m = \<lparr>j_pool = p, j_agents = [0 \<mapsto> a], j_taken = (\<lambda>w. 0)(0 := n), j_given = (\<lambda>w. 0)(0 := m)\<rparr>"

definition ready_ev :: WorkerEvent where "ready_ev = \<lparr>ev_WorkerId = ''w1'', ev_Payload = Some Ev_Ready\<rparr>"
definition idle_ev :: WorkerEvent where "idle_ev = \<lparr>ev_WorkerId = ''w1'', ev_Payload = Some (Ev_StatusUpdate (PROTO_STATE IDLE))\<rparr>"

lemma demo_own: "joint_reachable P (demo_joint p a n m) \<Longrightarrow> own_step p p' \<Longrightarrow> joint_reachable P (demo_joint p' a n m)"
  by (drule joint_next [OF _ j_own, of P _ p']) (simp_all add: demo_joint_def)

lemma demo_inner: "joint_reachable P (demo_joint p a n m) \<Longrightarrow> inner_step P a b \<Longrightarrow> joint_reachable P (demo_joint p b n m)"
  by (drule joint_next [OF _ j_inner [of _ 0 a P b]]) (simp_all add: demo_joint_def)

lemma demo_draw: "joint_reachable P (demo_joint p (demo_agent (ev # out) sent cs ts) n m) \<Longrightarrow>
    joint_reachable P (demo_joint p (demo_agent out (sent @ [ev]) cs ts) n m)"
  by (drule joint_next [OF _ j_draw [of _ 0 "demo_agent (ev # out) sent cs ts" ev "demo_agent out (sent @ [ev]) cs ts"]])
    (simp_all add: demo_joint_def draw_event_def demo_agent_def)

lemma demo_event: "joint_reachable P (demo_joint p a n m) \<Longrightarrow> m < length (ag_sent a) \<Longrightarrow> streams p 0 = Receiving \<Longrightarrow> handles p 0 = Some wk \<Longrightarrow>
    joint_reachable P (demo_joint (receive 0 (ag_sent a ! m) wk p) a n (Suc m))"
  by (drule joint_next [OF _ j_event [of _ 0 a wk]]) (simp_all add: demo_joint_def)

lemma demo_command: "joint_reachable P (demo_joint p a n m) \<Longrightarrow> \<not> ag_setting a \<Longrightarrow> n < length (wire p 0) \<Longrightarrow>
    joint_reachable P (demo_joint p (dispatch (Some (wire p 0 ! n)) a) (Suc n) m)"
  by (drule joint_next [OF _ j_command [of _ 0 a]]) (simp_all add: demo_joint_def)

lemma demo_connected: "joint_reachable P (demo_joint ready_pool (demo_agent [idle_ev] [ready_ev] [] []) 0 1)"
proof -
  let ?p = "pool_start\<lparr>handles := (handles pool_start)(0 \<mapsto> \<lparr>w_ID = '''', w_send = []\<rparr>),
    streams := (streams pool_start)(0 := Receiving), pumping := (pumping pool_start)(0 := True)\<rparr>"
  have "pool_step pool_start ?p" by (rule connect) (simp add: pool_start_def)
  then have "joint_step P joint_start (joint_start\<lparr>j_pool := ?p, j_agents := (j_agents joint_start)(0 \<mapsto> run ''w1'' 0),
      j_taken := (j_taken joint_start)(0 := 0), j_given := (j_given joint_start)(0 := 0)\<rparr>)"
    by (intro j_connect) (simp_all add: joint_start_def pool_start_def)
  moreover have "joint_start\<lparr>j_pool := ?p, j_agents := (j_agents joint_start)(0 \<mapsto> run ''w1'' 0),
      j_taken := (j_taken joint_start)(0 := 0), j_given := (j_given joint_start)(0 := 0)\<rparr> = demo_joint ?p (demo_agent [ready_ev, idle_ev] [] [] []) 0 0"
    by (simp add: joint_start_def demo_joint_def run_agent demo_agent_def ready_ev_def idle_ev_def)
  ultimately have "joint_reachable P (demo_joint ?p (demo_agent [ready_ev, idle_ev] [] [] []) 0 0)"
    using joint_next [OF joint_init] by metis
  from demo_event [OF demo_draw [OF this], of "\<lparr>w_ID = '''', w_send = []\<rparr>"]
  have "joint_reachable P (demo_joint (receive 0 ready_ev \<lparr>w_ID = '''', w_send = []\<rparr> ?p) (demo_agent [idle_ev] [ready_ev] [] []) 0 1)"
    by (simp add: demo_agent_def)
  moreover have "receive 0 ready_ev \<lparr>w_ID = '''', w_send = []\<rparr> ?p = ready_pool"
    by (simp add: receive_def handle_def ready_pool_def pool_start_def NewServer_def NewRegistry_def register_def ready_ev_def)
  ultimately show ?thesis by simp
qed

lemma receive_status: "handles p w = Some wk \<Longrightarrow> receive w idle_ev wk p = p"
  by (simp add: receive_def handle_def idle_ev_def map_upd_triv)

definition reply_at_stream :: Joint where
  "reply_at_stream = demo_joint (demo_pool Waiting [] [Cmd_ListFriends ask] (Putting 0 (FriendsReply
       \<lparr>fres_RequestId = ''r1'', fres_Friends = [], fres_OwnerSteamId = '''',
        fres_Error = Some \<lparr>ee_Code = ''STEAM_ERROR'', ee_Message = ''timeout'', ee_Fatal = False\<rparr>\<rparr>)))
     (demo_agent [] [ready_ev, idle_ev, failed] [Cmd_ListFriends ask] [\<lparr>th_job = FriendsJob ask, th_pc = Finished, th_asked = []\<rparr>]) 1 3"

lemma reply_at_stream_reachable: "joint_reachable P reply_at_stream"
proof -
  let ?k = "\<lambda>pc. \<lparr>c_req = AskFriends ''t'', c_id = ''r1'', c_pc = pc\<rparr>" and ?cmd = "Cmd_ListFriends ask"
  let ?t = "\<lambda>pc. \<lparr>th_job = FriendsJob ask, th_pc = pc, th_asked = []\<rparr>"
  let ?err = "friends_error_event ''r1'' (OtherError ''timeout'')"
  have cmd: "command_of (?k pc) = ?cmd" for pc by (simp add: ask_def)
  have "begin_call 0 ''r1'' (AskFriends ''t'') ready_pool = demo_pool Added [] [] Receiving"
    by (simp add: begin_call_def ready_pool_def demo_pool_def pool_start_def NewServer_def pf_add_def newPendingFriends_def fun_upd_idem)
  moreover have "pool_step ready_pool (begin_call 0 ''r1'' (AskFriends ''t'') ready_pool)"
    by (rule begin_it) (simp add: ready_pool_def pool_start_def)
  ultimately have "pool_step ready_pool (demo_pool Added [] [] Receiving)" by simp
  then have "own_step ready_pool (demo_pool Added [] [] Receiving)"
    by (rule own_stepI) (simp_all add: demo_pool_def ready_pool_def pool_start_def)
  note r1 = demo_own [OF demo_connected this]
  have "pool_step (demo_pool Added [] [] Receiving) (set_pc 0 (?k Added) (Sending 0) (demo_pool Added [] [] Receiving))"
    by (rule pick) (simp_all add: demo_pool_def Send_target_def Current_def)
  moreover have "set_pc 0 (?k Added) (Sending 0) (demo_pool Added [] [] Receiving) = demo_pool (Sending 0) [] [] Receiving"
    by (simp add: set_pc_def demo_pool_def)
  ultimately have "pool_step (demo_pool Added [] [] Receiving) (demo_pool (Sending 0) [] [] Receiving)" by simp
  then have "own_step (demo_pool Added [] [] Receiving) (demo_pool (Sending 0) [] [] Receiving)"
    by (rule own_stepI) (simp_all add: demo_pool_def fun_eq_iff)
  note r2 = demo_own [OF r1 this]
  have "pool_step (demo_pool (Sending 0) [] [] Receiving) (set_pc 0 (?k (Sending 0)) (after_send (AskFriends ''t''))
      ((demo_pool (Sending 0) [] [] Receiving)\<lparr>handles := (handles (demo_pool (Sending 0) [] [] Receiving))(0 \<mapsto> \<lparr>w_ID = ''w1'', w_send = [?cmd]\<rparr>)\<rparr>))"
    using enqueue [of "demo_pool (Sending 0) [] [] Receiving" 0 "?k (Sending 0)" 0 "\<lparr>w_ID = ''w1'', w_send = []\<rparr>" "\<lparr>w_ID = ''w1'', w_send = [?cmd]\<rparr>"]
    by (simp add: demo_pool_def Send_enqueue_def chan_send_def send_cap_def ask_def)
  moreover have "set_pc 0 (?k (Sending 0)) (after_send (AskFriends ''t''))
      ((demo_pool (Sending 0) [] [] Receiving)\<lparr>handles := (handles (demo_pool (Sending 0) [] [] Receiving))(0 \<mapsto> \<lparr>w_ID = ''w1'', w_send = [?cmd]\<rparr>)\<rparr>)
      = demo_pool Waiting [?cmd] [] Receiving"
    by (simp add: set_pc_def demo_pool_def)
  ultimately have "pool_step (demo_pool (Sending 0) [] [] Receiving) (demo_pool Waiting [?cmd] [] Receiving)" by simp
  then have "own_step (demo_pool (Sending 0) [] [] Receiving) (demo_pool Waiting [?cmd] [] Receiving)"
    by (rule own_stepI) (simp_all add: demo_pool_def fun_eq_iff)
  note r3 = demo_own [OF r2 this]
  have "pool_step (demo_pool Waiting [?cmd] [] Receiving) (demo_pool Waiting [] [?cmd] Receiving)"
    using pump [of "demo_pool Waiting [?cmd] [] Receiving" 0 "\<lparr>w_ID = ''w1'', w_send = [?cmd]\<rparr>" ?cmd "[]"] by (simp add: demo_pool_def)
  then have "own_step (demo_pool Waiting [?cmd] [] Receiving) (demo_pool Waiting [] [?cmd] Receiving)"
    by (rule own_stepI) (simp_all add: demo_pool_def fun_eq_iff)
  note r4 = demo_own [OF r3 this]
  let ?p = "demo_pool Waiting [] [?cmd] Receiving"
  have r5: "joint_reachable P (demo_joint ?p (demo_agent [idle_ev] [ready_ev] [?cmd] [?t Fr_Begin]) 1 1)"
    using demo_command [OF r4] by (simp add: demo_agent_def demo_pool_def dispatch_def on_list_friends_def spawn_def)
  have "inner_step P (demo_agent [idle_ev] [ready_ev] [?cmd] [?t Fr_Begin]) (demo_agent [idle_ev] [ready_ev] [?cmd] [?t (Reply ?err)])"
    using inner_step.thread [of 0 "demo_agent [idle_ev] [ready_ev] [?cmd] [?t Fr_Begin]", OF _ raises [of _ P _ _ "OtherError ''timeout''"]]
    by (simp add: demo_agent_def thread_ran_def goes_def ask_def)
  note r6 = demo_inner [OF r5 this]
  have "inner_step P (demo_agent [idle_ev] [ready_ev] [?cmd] [?t (Reply ?err)]) (demo_agent [idle_ev, failed] [ready_ev] [?cmd] [?t Finished])"
    using inner_step.thread [of 0 "demo_agent [idle_ev] [ready_ev] [?cmd] [?t (Reply ?err)]", OF _ reply [of _ ?err P]]
    by (simp add: demo_agent_def thread_ran_def goes_def send_def failed_def)
  note r7 = demo_draw [OF demo_draw [OF demo_inner [OF r6 this]]]
  have h: "handles ?p 0 = Some \<lparr>w_ID = ''w1'', w_send = []\<rparr>" "streams ?p 0 = Receiving" by (simp_all add: demo_pool_def)
  have r8: "joint_reachable P (demo_joint ?p (demo_agent [] [ready_ev, idle_ev, failed] [?cmd] [?t Finished]) 1 2)"
    using demo_event [OF r7 _ h(2,1)] by (simp add: demo_agent_def receive_status [OF h(1)] numeral_2_eq_2)
  have "receive 0 failed \<lparr>w_ID = ''w1'', w_send = []\<rparr> ?p = demo_pool Waiting [] [?cmd] (Putting 0 (FriendsReply
       \<lparr>fres_RequestId = ''r1'', fres_Friends = [], fres_OwnerSteamId = '''',
        fres_Error = Some \<lparr>ee_Code = ''STEAM_ERROR'', ee_Message = ''timeout'', ee_Fatal = False\<rparr>\<rparr>))"
    by (simp add: receive_def handle_def failed_def event_defs' pf_deliver_def demo_pool_def)
  then show ?thesis
    using demo_event [OF r8 _ h(2,1)] unfolding reply_at_stream_def by (simp add: demo_agent_def numeral_3_eq_3 numeral_2_eq_2)
qed

section \<open>Property\<close>

text \<open>
  C10: With the repository's worker at the other end, the stream loop never blocks on a reply. Whenever
  a stream is about to put a reply on the channel of a call whose id no other call uses,
  the channel is empty and the send goes through, no other stream has a reply for the call, and the
  call has not had one: every command makes one result, and the result is in one place at a time, from
  the worker's thread through its outbox and the stream to the channel.
\<close>

theorem own_worker_never_blocks_stream:
  assumes "joint_reachable P j" "streams (j_pool j) w = Putting c r" "calls (j_pool j) c = Some k" "sole (j_pool j) c k"
  shows "chans (j_pool j) c = []
    \<and> pool_step (j_pool j) ((j_pool j)\<lparr>chans := (chans (j_pool j))(c := [r]), streams := (streams (j_pool j))(w := Receiving)\<rparr>)
    \<and> (\<forall>v r'. streams (j_pool j) v = Putting c r' \<longrightarrow> v = w)
    \<and> c_pc k \<noteq> Leaving (Answered r') \<and> c_pc k \<noteq> Returned (Answered r')"
proof -
  have "pool_inv (j_pool j)" by (rule pool_inv_reachable [OF joint_pool [OF assms(1)]])
  from pool_replies(2) [OF this assms(2)] obtain k' where "calls (j_pool j) c = Some k'" "fits k' r" by (auto simp: fits_call_def)
  then have "answered_call k" using assms(3) by (cases r) (auto simp: answered_call_def)
  then have "one_token c k j" using reply_tokens_ok_reachable [OF assms(1)] assms(3,4) by (simp add: reply_tokens_ok_def)
  then obtain w0 where w0: "\<And>v. v \<noteq> w0 \<Longrightarrow> tokens (call_key k) c j v = 0"
    "tokens (call_key k) c j w0 + length (chans (j_pool j) c) + got (c_pc k) \<le> (if unsent (c_pc k) then 0 else 1)"
    unfolding one_token_def by blast
  have put: "1 \<le> tokens (call_key k) c j v" if "streams (j_pool j) v = Putting c r'" for v r'
    using that by (simp add: tokens_now)
  then have at: "v = w0" if "streams (j_pool j) v = Putting c r'" for v r' using w0(1) [of v] put [OF that] by (cases "v = w0") auto
  have "tokens (call_key k) c j w0 + length (chans (j_pool j) c) + got (c_pc k) \<le> 1" using w0(2) by (auto split: if_splits)
  moreover have "1 \<le> tokens (call_key k) c j w0" using put [OF assms(2)] at [OF assms(2)] by simp
  ultimately have "length (chans (j_pool j) c) = 0" "got (c_pc k) = 0" by linarith+
  then have z: "chans (j_pool j) c = []" "got (c_pc k) = 0" by simp_all
  then show ?thesis using at assms(2) reply_put [OF assms(2) z(1)] by auto
qed

theorem own_worker_never_blocks_stream_witness:
  "chans (j_pool reply_at_stream) 0 = []"
proof -
  have "calls (j_pool reply_at_stream) 0 = Some \<lparr>c_req = AskFriends ''t'', c_id = ''r1'', c_pc = Waiting\<rparr>"
    by (simp add: reply_at_stream_def demo_joint_def demo_pool_def)
  moreover have "sole (j_pool reply_at_stream) 0 \<lparr>c_req = AskFriends ''t'', c_id = ''r1'', c_pc = Waiting\<rparr>"
    by (simp add: sole_def reply_at_stream_def demo_joint_def demo_pool_def)
  moreover have "\<exists>r. streams (j_pool reply_at_stream) 0 = Putting 0 r" by (simp add: reply_at_stream_def demo_joint_def demo_pool_def)
  ultimately show ?thesis using own_worker_never_blocks_stream [OF reply_at_stream_reachable] by blast
qed

end
