(* ===== verification/Db_Schema.thy ===== *)
theory Db_Schema
  imports Steam_Account_Store
begin

text \<open>
  The migrations of \<open>db/migrations\<close> as data, the DDL they use as a function on a database of tables,
  and the constraints of a table (types, NOT NULL, unique indexes, foreign keys) as a check of its rows.
  The last section holds the tables of \<open>Pg_Store\<close> against the schema the migrations make.
\<close>

section \<open>Statements\<close>

datatype sql_type = UUID | TEXT | BYTEA | TIMESTAMPTZ | BIGINT

text \<open>\<open>REFERENCES\<close> has the table, its column and whether a delete cascades; a default is its text.\<close>

datatype column_opt = PRIMARY_KEY | UNIQUE | NOT_NULL | DEFAULT string | REFERENCES string string bool

type_synonym column_def = "string \<times> sql_type \<times> column_opt list"

datatype alter_action = ADD_COLUMN string sql_type bool | DROP_COLUMN string | DROP_NOT_NULL string

datatype ddl =
    CREATE_TABLE string "column_def list"
  | CREATE_INDEX bool string string "string list"   \<comment> \<open>whether it is unique, its name, table and columns\<close>
  | ALTER_TABLE string "alter_action list"

section \<open>Tables\<close>

datatype sql_value = V_uuid string | V_text string | V_bytea bytes | V_timestamptz time | V_bigint int

type_synonym row = "(string \<times> sql_value option) list"

record table_column =
  tc_name :: string
  tc_type :: sql_type
  tc_not_null :: bool
  tc_default :: "string option"

record table =
  tb_columns :: "table_column list"
  tb_primary :: "string list"
  tb_indexes :: "(string \<times> bool \<times> string list) list"
  tb_refs :: "(string \<times> string \<times> string \<times> bool) list"
  tb_rows :: "row list"

type_synonym database = "(string \<times> table) list"

definition relation_names :: "database \<Rightarrow> string list" where
  "relation_names db = concat (map (\<lambda>(n, t). n # map fst (tb_indexes t)) db)"

definition column_names :: "table \<Rightarrow> string list" where
  "column_names t = map tc_name (tb_columns t)"

text \<open>The SQLSTATEs of a rejected statement.\<close>

definition duplicateTable :: string where "duplicateTable = ''42P07''"
definition undefinedTable :: string where "undefinedTable = ''42P01''"
definition duplicateColumn :: string where "duplicateColumn = ''42701''"
definition undefinedColumn :: string where "undefinedColumn = ''42703''"
definition invalidTableDefinition :: string where "invalidTableDefinition = ''42P16''"
definition invalidForeignKey :: string where "invalidForeignKey = ''42830''"
definition dependentObjects :: string where "dependentObjects = ''2BP01''"
definition notNullViolation :: string where "notNullViolation = ''23502''"

lemmas ddl_state_defs = duplicateTable_def undefinedTable_def duplicateColumn_def undefinedColumn_def
  invalidTableDefinition_def invalidForeignKey_def dependentObjects_def notNullViolation_def

definition cell :: "row \<Rightarrow> string \<Rightarrow> sql_value option" where
  "cell r c = (case map_of r c of None \<Rightarrow> None | Some v \<Rightarrow> v)"

text \<open>A unique index: the keys without a NULL are pairwise distinct.\<close>

definition unique_rows :: "string list \<Rightarrow> row list \<Rightarrow> bool" where
  "unique_rows cols rows = distinct (filter (\<lambda>k. None \<notin> set k) (map (\<lambda>r. map (cell r) cols) rows))"

section \<open>Running a statement\<close>

definition make_column :: "column_def \<Rightarrow> table_column" where
  "make_column d = (case d of (n, ty, opts) \<Rightarrow>
     \<lparr>tc_name = n, tc_type = ty, tc_not_null = NOT_NULL \<in> set opts \<or> PRIMARY_KEY \<in> set opts,
      tc_default = (case List.map_filter (\<lambda>p. case p of DEFAULT e \<Rightarrow> Some e | _ \<Rightarrow> None) opts of [] \<Rightarrow> None | e # es \<Rightarrow> Some e)\<rparr>)"

definition make_table :: "string \<Rightarrow> column_def list \<Rightarrow> table" where
  "make_table n ds =
     \<lparr>tb_columns = map make_column ds,
      tb_primary = map fst (filter (\<lambda>(c, ty, opts). PRIMARY_KEY \<in> set opts) ds),
      tb_indexes = map (\<lambda>(c, ty, opts). (n @ ''_pkey'', True, [c])) (filter (\<lambda>(c, ty, opts). PRIMARY_KEY \<in> set opts) ds)
        @ map (\<lambda>(c, ty, opts). (n @ ''_'' @ c @ ''_key'', True, [c])) (filter (\<lambda>(c, ty, opts). UNIQUE \<in> set opts) ds),
      tb_refs = concat (map (\<lambda>(c, ty, opts). List.map_filter (\<lambda>p. case p of
        REFERENCES t c' cascade \<Rightarrow> Some (c, t, c', cascade) | _ \<Rightarrow> None) opts) ds),
      tb_rows = []\<rparr>"

definition ref_error :: "database \<Rightarrow> string \<times> string \<times> string \<times> bool \<Rightarrow> string option" where
  "ref_error db r = (case r of (c, t, c', cascade) \<Rightarrow>
     (case map_of db t of
        None \<Rightarrow> Some undefinedTable
      | Some tab \<Rightarrow> if c' \<notin> set (column_names tab) then Some undefinedColumn
          else if list_ex (\<lambda>(i, u, cols). u \<and> cols = [c']) (tb_indexes tab) then None
          else Some invalidForeignKey))"

definition create_table :: "string \<Rightarrow> column_def list \<Rightarrow> database \<Rightarrow> sql_error + database" where
  "create_table n ds db =
     (let t = make_table n ds in
      if n \<in> set (relation_names db) then Inl (PgError duplicateTable)
      else if \<not> distinct (map fst ds) then Inl (PgError duplicateColumn)
      else if 1 < length (tb_primary t) then Inl (PgError invalidTableDefinition)
      else case List.map_filter (ref_error (db @ [(n, t)])) (tb_refs t) of
        e # es \<Rightarrow> Inl (PgError e)
      | [] \<Rightarrow> Inr (db @ [(n, t)]))"

text \<open>A change of one table, in its place.\<close>

definition on_table :: "string \<Rightarrow> (table \<Rightarrow> sql_error + table) \<Rightarrow> database \<Rightarrow> sql_error + database" where
  "on_table n f db = (case map_of db n of
     None \<Rightarrow> Inl (PgError undefinedTable)
   | Some t \<Rightarrow> (case f t of Inl e \<Rightarrow> Inl e | Inr t' \<Rightarrow> Inr (map (\<lambda>(m, u). (m, if m = n then t' else u)) db)))"

definition create_index :: "bool \<Rightarrow> string \<Rightarrow> string list \<Rightarrow> table \<Rightarrow> sql_error + table" where
  "create_index unique i cols t =
     (if \<not> set cols \<subseteq> set (column_names t) then Inl (PgError undefinedColumn)
      else if unique \<and> \<not> unique_rows cols (tb_rows t) then Inl (PgError uniqueViolation)
      else Inr (t\<lparr>tb_indexes := tb_indexes t @ [(i, unique, cols)]\<rparr>))"

fun alter :: "database \<Rightarrow> string \<Rightarrow> alter_action \<Rightarrow> table \<Rightarrow> sql_error + table" where
  "alter db n (ADD_COLUMN c ty not_null) t =
     (if c \<in> set (column_names t) then Inl (PgError duplicateColumn)
      else if not_null \<and> tb_rows t \<noteq> [] then Inl (PgError notNullViolation)
      else Inr (t\<lparr>tb_columns := tb_columns t @ [\<lparr>tc_name = c, tc_type = ty, tc_not_null = not_null, tc_default = None\<rparr>],
        tb_rows := map (\<lambda>r. r @ [(c, None)]) (tb_rows t)\<rparr>))"
| "alter db n (DROP_COLUMN c) t =
     (if c \<notin> set (column_names t) then Inl (PgError undefinedColumn)
      else if list_ex (\<lambda>(m, u). list_ex (\<lambda>(d, t', c', cascade). t' = n \<and> c' = c) (tb_refs u)) db then Inl (PgError dependentObjects)
      else Inr (t\<lparr>tb_columns := filter (\<lambda>k. tc_name k \<noteq> c) (tb_columns t),
        tb_primary := (if c \<in> set (tb_primary t) then [] else tb_primary t),
        tb_indexes := filter (\<lambda>(i, u, cols). c \<notin> set cols) (tb_indexes t),
        tb_refs := filter (\<lambda>(d, t', c', cascade). d \<noteq> c) (tb_refs t),
        tb_rows := map (filter (\<lambda>(d, v). d \<noteq> c)) (tb_rows t)\<rparr>))"
| "alter db n (DROP_NOT_NULL c) t =
     (if c \<notin> set (column_names t) then Inl (PgError undefinedColumn)
      else if c \<in> set (tb_primary t) then Inl (PgError invalidTableDefinition)
      else Inr (t\<lparr>tb_columns := map (\<lambda>k. if tc_name k = c then k\<lparr>tc_not_null := False\<rparr> else k) (tb_columns t)\<rparr>))"

fun alters :: "string \<Rightarrow> alter_action list \<Rightarrow> database \<Rightarrow> sql_error + database" where
  "alters n [] db = Inr db"
| "alters n (x # xs) db = (case on_table n (alter db n x) db of Inl e \<Rightarrow> Inl e | Inr db' \<Rightarrow> alters n xs db')"

fun exec_ddl :: "ddl \<Rightarrow> database \<Rightarrow> sql_error + database" where
  "exec_ddl (CREATE_TABLE n ds) db = create_table n ds db"
| "exec_ddl (CREATE_INDEX unique i n cols) db =
     (if i \<in> set (relation_names db) then Inl (PgError duplicateTable) else on_table n (create_index unique i cols) db)"
| "exec_ddl (ALTER_TABLE n xs) db = alters n xs db"

text \<open>The statements of one file run in one transaction: at the first error none of them has an effect.\<close>

fun exec_script :: "ddl list \<Rightarrow> database \<Rightarrow> sql_error + database" where
  "exec_script [] db = Inr db"
| "exec_script (s # ss) db = (case exec_ddl s db of Inl e \<Rightarrow> Inl e | Inr db' \<Rightarrow> exec_script ss db')"

section \<open>The migrations\<close>

definition id_column :: column_def where
  "id_column = (''id'', UUID, [PRIMARY_KEY, DEFAULT ''uuidv7()''])"

definition created_at_column :: column_def where
  "created_at_column = (''created_at'', TIMESTAMPTZ, [NOT_NULL, DEFAULT ''now()''])"

definition init_001 :: "ddl list" where
  "init_001 =
    [CREATE_TABLE ''users''
       [id_column,
        (''username'', TEXT, [UNIQUE, NOT_NULL]),
        (''password_hash'', TEXT, [NOT_NULL]),
        created_at_column],
     CREATE_TABLE ''steam_accounts''
       [id_column,
        (''user_id'', UUID, [NOT_NULL, REFERENCES ''users'' ''id'' True]),
        (''steam_id'', TEXT, [NOT_NULL]),
        (''steam_username'', TEXT, [NOT_NULL]),
        (''enc_password'', BYTEA, [NOT_NULL]),
        (''enc_nonce'', BYTEA, [NOT_NULL]),
        (''sentry_hash'', BYTEA, []),
        created_at_column],
     CREATE_INDEX True ''steam_accounts_user_id_key'' ''steam_accounts'' [''user_id''],
     CREATE_TABLE ''workers''
       [id_column,
        (''state'', TEXT, [NOT_NULL, DEFAULT ''STOPPED'']),
        (''last_seen'', TIMESTAMPTZ, []),
        created_at_column],
     CREATE_TABLE ''sessions''
       [id_column,
        (''user_id'', UUID, [NOT_NULL, REFERENCES ''users'' ''id'' False]),
        (''worker_id'', UUID, [REFERENCES ''workers'' ''id'' False]),
        (''steam_account_id'', UUID, [REFERENCES ''steam_accounts'' ''id'' False]),
        (''target_steam_id'', TEXT, [NOT_NULL]),
        (''match_id'', BIGINT, []),
        (''state'', TEXT, [NOT_NULL, DEFAULT ''OFF'']),
        (''webrtc_url'', TEXT, []),
        (''started_at'', TIMESTAMPTZ, []),
        (''ended_at'', TIMESTAMPTZ, []),
        created_at_column],
     CREATE_INDEX False ''sessions_user_id_idx'' ''sessions'' [''user_id''],
     CREATE_INDEX False ''sessions_worker_id_idx'' ''sessions'' [''worker_id'']]"

definition user_kdf_salt_002 :: "ddl list" where
  "user_kdf_salt_002 = [ALTER_TABLE ''users'' [ADD_COLUMN ''kdf_salt'' BYTEA True]]"

definition steam_id_nullable_003 :: "ddl list" where
  "steam_id_nullable_003 = [ALTER_TABLE ''steam_accounts'' [DROP_NOT_NULL ''steam_id'']]"

definition refresh_token_004 :: "ddl list" where
  "refresh_token_004 =
    [ALTER_TABLE ''steam_accounts''
       [DROP_COLUMN ''sentry_hash'', DROP_COLUMN ''enc_password'', DROP_COLUMN ''enc_nonce'',
        ADD_COLUMN ''enc_refresh_token'' BYTEA False,
        ADD_COLUMN ''enc_refresh_nonce'' BYTEA False,
        ADD_COLUMN ''refresh_token_expires'' TIMESTAMPTZ False],
     ALTER_TABLE ''steam_accounts'' [DROP_NOT_NULL ''steam_username'']]"

section \<open>Consistency\<close>

fun type_of_value :: "sql_value \<Rightarrow> sql_type" where
  "type_of_value (V_uuid u) = UUID"
| "type_of_value (V_text s) = TEXT"
| "type_of_value (V_bytea b) = BYTEA"
| "type_of_value (V_timestamptz x) = TIMESTAMPTZ"
| "type_of_value (V_bigint i) = BIGINT"

definition cell_fits :: "table_column \<Rightarrow> string \<times> sql_value option \<Rightarrow> bool" where
  "cell_fits k cv = (fst cv = tc_name k \<and> (case snd cv of None \<Rightarrow> \<not> tc_not_null k | Some v \<Rightarrow> type_of_value v = tc_type k))"

definition refs_met :: "database \<Rightarrow> row list \<Rightarrow> string \<times> string \<times> string \<times> bool \<Rightarrow> bool" where
  "refs_met db rows r = (case r of (c, t, c', cascade) \<Rightarrow>
     list_all (\<lambda>r. cell r c = None \<or> (case map_of db t of None \<Rightarrow> False
       | Some tab \<Rightarrow> list_ex (\<lambda>r'. cell r' c' = cell r c) (tb_rows tab))) rows)"

definition table_consistent :: "database \<Rightarrow> table \<Rightarrow> bool" where
  "table_consistent db t \<longleftrightarrow>
     list_all (\<lambda>r. list_all2 cell_fits (tb_columns t) r) (tb_rows t)
     \<and> list_all (\<lambda>(i, unique, cols). unique \<longrightarrow> unique_rows cols (tb_rows t)) (tb_indexes t)
     \<and> list_all (refs_met db (tb_rows t)) (tb_refs t)"

definition consistent :: "database \<Rightarrow> bool" where
  "consistent db \<longleftrightarrow> list_all (\<lambda>(n, t). table_consistent db t) db"

section \<open>The migrated schema\<close>

definition migrated :: database where
  "migrated =
    [(''users'',
      \<lparr>tb_columns =
         [\<lparr>tc_name = ''id'', tc_type = UUID, tc_not_null = True, tc_default = Some ''uuidv7()''\<rparr>,
          \<lparr>tc_name = ''username'', tc_type = TEXT, tc_not_null = True, tc_default = None\<rparr>,
          \<lparr>tc_name = ''password_hash'', tc_type = TEXT, tc_not_null = True, tc_default = None\<rparr>,
          \<lparr>tc_name = ''created_at'', tc_type = TIMESTAMPTZ, tc_not_null = True, tc_default = Some ''now()''\<rparr>,
          \<lparr>tc_name = ''kdf_salt'', tc_type = BYTEA, tc_not_null = True, tc_default = None\<rparr>],
       tb_primary = [''id''],
       tb_indexes = [(''users_pkey'', True, [''id'']), (''users_username_key'', True, [''username''])],
       tb_refs = [], tb_rows = []\<rparr>),
     (''steam_accounts'',
      \<lparr>tb_columns =
         [\<lparr>tc_name = ''id'', tc_type = UUID, tc_not_null = True, tc_default = Some ''uuidv7()''\<rparr>,
          \<lparr>tc_name = ''user_id'', tc_type = UUID, tc_not_null = True, tc_default = None\<rparr>,
          \<lparr>tc_name = ''steam_id'', tc_type = TEXT, tc_not_null = False, tc_default = None\<rparr>,
          \<lparr>tc_name = ''steam_username'', tc_type = TEXT, tc_not_null = False, tc_default = None\<rparr>,
          \<lparr>tc_name = ''created_at'', tc_type = TIMESTAMPTZ, tc_not_null = True, tc_default = Some ''now()''\<rparr>,
          \<lparr>tc_name = ''enc_refresh_token'', tc_type = BYTEA, tc_not_null = False, tc_default = None\<rparr>,
          \<lparr>tc_name = ''enc_refresh_nonce'', tc_type = BYTEA, tc_not_null = False, tc_default = None\<rparr>,
          \<lparr>tc_name = ''refresh_token_expires'', tc_type = TIMESTAMPTZ, tc_not_null = False, tc_default = None\<rparr>],
       tb_primary = [''id''],
       tb_indexes = [(''steam_accounts_pkey'', True, [''id'']), (''steam_accounts_user_id_key'', True, [''user_id''])],
       tb_refs = [(''user_id'', ''users'', ''id'', True)], tb_rows = []\<rparr>),
     (''workers'', make_table ''workers'' [id_column, (''state'', TEXT, [NOT_NULL, DEFAULT ''STOPPED'']),
        (''last_seen'', TIMESTAMPTZ, []), created_at_column]),
     (''sessions'', make_table ''sessions''
       [id_column, (''user_id'', UUID, [NOT_NULL, REFERENCES ''users'' ''id'' False]),
        (''worker_id'', UUID, [REFERENCES ''workers'' ''id'' False]),
        (''steam_account_id'', UUID, [REFERENCES ''steam_accounts'' ''id'' False]),
        (''target_steam_id'', TEXT, [NOT_NULL]), (''match_id'', BIGINT, []),
        (''state'', TEXT, [NOT_NULL, DEFAULT ''OFF'']), (''webrtc_url'', TEXT, []),
        (''started_at'', TIMESTAMPTZ, []), (''ended_at'', TIMESTAMPTZ, []), created_at_column]
       \<lparr>tb_indexes := [(''sessions_pkey'', True, [''id'']), (''sessions_user_id_idx'', False, [''user_id'']),
          (''sessions_worker_id_idx'', False, [''worker_id''])]\<rparr>)]"

definition migrations :: "(string \<times> ddl list) list" where
  "migrations = [(''001_init.sql'', init_001), (''002_user_kdf_salt.sql'', user_kdf_salt_002),
     (''003_steam_id_nullable.sql'', steam_id_nullable_003), (''004_refresh_token.sql'', refresh_token_004)]"

lemmas run_ddl_defs = create_table_def make_table_def make_column_def relation_names_def column_names_def
  ref_error_def on_table_def create_index_def unique_rows_def id_column_def created_at_column_def
  List.map_filter_simps

lemma migrate_all: "exec_script (concat (map snd migrations)) [] = Inr migrated"
  by (simp add: migrations_def init_001_def user_kdf_salt_002_def steam_id_nullable_003_def refresh_token_004_def
      migrated_def run_ddl_defs)

section \<open>The tables of the stores\<close>

definition user_row :: "User \<Rightarrow> row" where
  "user_row u = [(''id'', Some (V_uuid (u_ID u))), (''username'', Some (V_text (u_Username u))),
     (''password_hash'', Some (V_text (u_PasswordHash u))), (''created_at'', Some (V_timestamptz (u_CreatedAt u))),
     (''kdf_salt'', Some (V_bytea (u_KDFSalt u)))]"

definition account_values :: "account_row \<Rightarrow> row" where
  "account_values a = [(''id'', Some (V_uuid (r_id a))), (''user_id'', Some (V_uuid (r_user_id a))),
     (''steam_id'', map_option V_text (r_steam_id a)), (''steam_username'', map_option V_text (r_steam_username a)),
     (''created_at'', Some (V_timestamptz (r_created_at a))),
     (''enc_refresh_token'', map_option V_bytea (r_enc_refresh_token a)),
     (''enc_refresh_nonce'', map_option V_bytea (r_enc_refresh_nonce a)),
     (''refresh_token_expires'', map_option V_timestamptz (r_refresh_token_expires a))]"

definition put_rows :: "string \<Rightarrow> row list \<Rightarrow> database \<Rightarrow> database" where
  "put_rows n rows db = map (\<lambda>(m, t). (m, if m = n then t\<lparr>tb_rows := rows\<rparr> else t)) db"

text \<open>A database with the tables of the store in it.\<close>

definition holding :: "Db \<Rightarrow> database \<Rightarrow> database" where
  "holding d db = put_rows ''users'' (map user_row (users d))
     (put_rows ''steam_accounts'' (map account_values (steam_accounts d)) db)"

lemma cell_user: "cell (user_row u) ''id'' = Some (V_uuid (u_ID u))" "cell (user_row u) ''username'' = Some (V_text (u_Username u))"
  by (simp_all add: cell_def user_row_def)

lemma cell_account: "cell (account_values a) ''id'' = Some (V_uuid (r_id a))"
  "cell (account_values a) ''user_id'' = Some (V_uuid (r_user_id a))"
  by (simp_all add: cell_def account_values_def)

lemma unique_single:
  assumes "\<And>x. cell (f x) c = Some (V (g x))" "inj V"
  shows "unique_rows [c] (map f xs) = distinct (map g xs)"
proof -
  have "filter (\<lambda>k. None \<notin> set k) (map (\<lambda>r. map (cell r) [c]) (map f xs)) = map (\<lambda>y. [Some (V y)]) (map g xs)"
    by (simp add: assms(1))
  moreover have "inj (\<lambda>y. [Some (V y)])" using assms(2) by (auto simp: inj_def)
  ultimately show ?thesis unfolding unique_rows_def by (metis distinct_map inj_on_subset subset_UNIV)
qed



lemma unique_user: "unique_rows [''id''] (map user_row us) = distinct (map u_ID us)"
  "unique_rows [''username''] (map user_row us) = distinct (map u_Username us)"
  by (rule unique_single [where V = V_uuid], simp_all add: cell_user inj_def)
     (rule unique_single [where V = V_text], simp_all add: cell_user inj_def)

lemma unique_account: "unique_rows [''id''] (map account_values as) = distinct (map r_id as)"
  "unique_rows [''user_id''] (map account_values as) = distinct (map r_user_id as)"
  by (rule unique_single [where V = V_uuid], simp_all add: cell_account inj_def)+

lemma rows_typed: "list_all2 cell_fits (tb_columns (the (map_of migrated ''users''))) (user_row u)"
  "list_all2 cell_fits (tb_columns (the (map_of migrated ''steam_accounts''))) (account_values a)"
  by (simp_all add: migrated_def user_row_def account_values_def cell_fits_def split: option.split)

lemma refs_met_account:
  assumes "map_of db ''users'' = Some t" "tb_rows t = map user_row us"
  shows "refs_met db (map account_values as) (''user_id'', ''users'', ''id'', cc) \<longleftrightarrow> (\<forall>a \<in> set as. r_user_id a \<in> u_ID ` set us)"
  using assms by (auto simp: refs_met_def list_all_iff list_ex_iff cell_user cell_account) (metis imageI, metis imageE)

text \<open>The constraints of the schema on the tables of the store, in terms of the store.\<close>

lemma consistent_holding:
  "consistent (holding d migrated) \<longleftrightarrow>
     distinct (map u_ID (users d)) \<and> distinct (map u_Username (users d))
     \<and> distinct (map r_id (steam_accounts d)) \<and> distinct (map r_user_id (steam_accounts d))
     \<and> (\<forall>a \<in> set (steam_accounts d). r_user_id a \<in> u_ID ` set (users d))"
proof -
  let ?db = "holding d migrated"
  let ?u = "(the (map_of migrated ''users''))\<lparr>tb_rows := map user_row (users d)\<rparr>"
  let ?a = "(the (map_of migrated ''steam_accounts''))\<lparr>tb_rows := map account_values (steam_accounts d)\<rparr>"
  have db: "?db = [(''users'', ?u), (''steam_accounts'', ?a), (''workers'', the (map_of migrated ''workers'')),
      (''sessions'', the (map_of migrated ''sessions''))]"
    by (simp add: holding_def put_rows_def migrated_def)
  have rest: "table_consistent ?db (the (map_of migrated ''workers''))" "table_consistent ?db (the (map_of migrated ''sessions''))"
    by (simp_all add: table_consistent_def migrated_def make_table_def unique_rows_def refs_met_def list_all_iff id_column_def
        created_at_column_def List.map_filter_simps)
  have cu: "tb_rows ?u = map user_row (users d)" "tb_columns ?u = tb_columns (the (map_of migrated ''users''))"
    "tb_indexes ?u = [(''users_pkey'', True, [''id'']), (''users_username_key'', True, [''username''])]" "tb_refs ?u = []"
    and ca: "tb_rows ?a = map account_values (steam_accounts d)" "tb_columns ?a = tb_columns (the (map_of migrated ''steam_accounts''))"
    "tb_indexes ?a = [(''steam_accounts_pkey'', True, [''id'']), (''steam_accounts_user_id_key'', True, [''user_id''])]"
    "tb_refs ?a = [(''user_id'', ''users'', ''id'', True)]"
    by (simp_all add: migrated_def)
  have u: "table_consistent ?db ?u \<longleftrightarrow> distinct (map u_ID (users d)) \<and> distinct (map u_Username (users d))"
    unfolding table_consistent_def cu by (simp add: unique_user rows_typed list_all_iff)
  have m: "map_of ?db ''users'' = Some ?u" unfolding db by simp
  have "refs_met ?db (map account_values (steam_accounts d)) (''user_id'', ''users'', ''id'', True)
      \<longleftrightarrow> (\<forall>a \<in> set (steam_accounts d). r_user_id a \<in> u_ID ` set (users d))"
    by (rule refs_met_account [OF m cu(1)])
  then have a: "table_consistent ?db ?a \<longleftrightarrow> distinct (map r_id (steam_accounts d)) \<and> distinct (map r_user_id (steam_accounts d))
      \<and> (\<forall>a \<in> set (steam_accounts d). r_user_id a \<in> u_ID ` set (users d))"
    unfolding table_consistent_def ca by (simp add: unique_account rows_typed list_all_iff)
  have "consistent ?db \<longleftrightarrow> table_consistent ?db ?u \<and> table_consistent ?db ?a"
    unfolding consistent_def using rest by (subst (2) db) simp
  then show ?thesis unfolding u a by blast
qed

section \<open>Properties\<close>

lemma inv_consistent: "db_inv pg d \<Longrightarrow> consistent (holding d migrated)"
  by (simp add: consistent_holding db_inv_def)

lemma holding_queries [simp]: "holding (d\<lparr>queries := n\<rparr>) db = holding d db"
  by (simp add: holding_def)




end
