(* ===== verification/Test_Database.thy ===== *)
theory Test_Database
  imports Db_Schema Control_Wiring "HOL-Library.Sublist" "HOL-Library.List_Lexorder" "HOL-Library.Char_ord"
begin

text \<open>
  The throwaway databases of the tests (\<open>internal/testdb/testdb.go\<close>): \<open>New\<close> makes a database on a
  PostgreSQL instance, applies every migration to it and opens a store on it; the clean-up it registers drops it.
  The instance is the databases it has and the connections that are open; any call on it may fail.
\<close>

section \<open>Paths\<close>

text \<open>\<open>filepath.Clean\<close> on the segments of a path, the ones kept so far in reverse; \<open>Dir\<close> and \<open>Join\<close>.\<close>

fun clean_segments :: "bool \<Rightarrow> string list \<Rightarrow> string list \<Rightarrow> string list" where
  "clean_segments rooted acc [] = rev acc"
| "clean_segments rooted acc (seg # segs) =
     (if seg = '''' \<or> seg = ''.'' then clean_segments rooted acc segs
      else if seg = ''..'' then
        (case acc of
           [] \<Rightarrow> clean_segments rooted (if rooted then [] else [''..'']) segs
         | a # as \<Rightarrow> clean_segments rooted (if a = ''..'' then ''..'' # acc else as) segs)
      else clean_segments rooted (seg # acc) segs)"

definition filepath_Clean :: "string \<Rightarrow> string" where
  "filepath_Clean path =
     (let rooted = path \<noteq> '''' \<and> hd path = CHR ''/'';
          out = join_with CHR ''/'' (clean_segments rooted [] (split_on CHR ''/'' path)) in
      if rooted then CHR ''/'' # out else if out = '''' then ''.'' else out)"

definition filepath_Dir :: "string \<Rightarrow> string" where
  "filepath_Dir path = filepath_Clean (rev (dropWhile (\<lambda>c. c \<noteq> CHR ''/'') (rev path)))"

definition filepath_Join :: "string list \<Rightarrow> string" where
  "filepath_Join elems = (case dropWhile (\<lambda>e. e = '''') elems of
     [] \<Rightarrow> '''' | es \<Rightarrow> filepath_Clean (join_with CHR ''/'' es))"

definition migrationsDir :: "string \<Rightarrow> string" where
  "migrationsDir file = filepath_Join [filepath_Dir file, ''..'', ''..'', ''db'', ''migrations'']"

section \<open>The surroundings of a test\<close>

text \<open>
  What \<open>net/url\<close> makes of a connection URL: its path, and the rest of its fields together. \<open>m_names\<close> is the
  database pgx connects to for a URL, \<open>m_fault\<close> the error of the \<open>n\<close>-th call on the instance, \<open>m_file\<close>
  the source file \<open>runtime.Caller\<close> reports.
\<close>

record URL =
  url_Path :: string
  url_rest :: string

record Machine =
  m_getenv :: "string \<Rightarrow> string"
  m_url_Parse :: "string \<Rightarrow> goerror + URL"
  m_url_String :: "URL \<Rightarrow> string"
  m_names :: "string \<Rightarrow> string option"
  m_fault :: "nat \<Rightarrow> goerror option"
  m_file :: string
  m_ReadDir :: "string \<Rightarrow> goerror + string list"
  m_ReadFile :: "string \<Rightarrow> goerror + ddl list"
  m_open_pool :: "string \<Rightarrow> unit outcome"

record Instance =
  i_databases :: "(string \<times> database) list"
  i_open :: "string list"        \<comment> \<open>the database of each open connection or pool\<close>
  i_calls :: nat
  i_log :: "string list"

text \<open>\<open>t.Fatalf\<close> ends the test at once; what was deferred still runs.\<close>

datatype 'a testing = Value 'a | Fatal string

definition fatal :: "string \<Rightarrow> goerror \<Rightarrow> 'a testing" where
  "fatal what e = Fatal (''testdb: '' @ what @ '': '' @ error_text e)"

definition duplicateDatabase :: string where "duplicateDatabase = ''42P04''"
definition invalidCatalogName :: string where "invalidCatalogName = ''3D000''"

text \<open>A call on the instance: it fails, or it runs.\<close>

definition call :: "Machine \<Rightarrow> (Instance \<Rightarrow> (goerror + 'a) \<times> Instance) \<Rightarrow> Instance \<Rightarrow> (goerror + 'a) \<times> Instance" where
  "call M f s = (let s' = s\<lparr>i_calls := Suc (i_calls s)\<rparr> in
     case m_fault M (i_calls s) of Some e \<Rightarrow> (Inl e, s') | None \<Rightarrow> f s')"

definition connect :: "Machine \<Rightarrow> string \<Rightarrow> Instance \<Rightarrow> (goerror + string) \<times> Instance" where
  "connect M url = call M (\<lambda>s. case m_names M url of
     None \<Rightarrow> (Inl (ExternalError ''cannot parse connection string''), s)
   | Some n \<Rightarrow> if map_of (i_databases s) n = None then (Inl (ExternalError invalidCatalogName), s)
       else (Inr n, s\<lparr>i_open := n # i_open s\<rparr>))"

definition disconnect :: "string \<Rightarrow> Instance \<Rightarrow> Instance" where
  "disconnect n s = s\<lparr>i_open := remove1 n (i_open s)\<rparr>"

definition create_database :: "Machine \<Rightarrow> string \<Rightarrow> Instance \<Rightarrow> (goerror + unit) \<times> Instance" where
  "create_database M n = call M (\<lambda>s. if map_of (i_databases s) n \<noteq> None then (Inl (ExternalError duplicateDatabase), s)
     else (Inr (), s\<lparr>i_databases := i_databases s @ [(n, [])]\<rparr>))"

text \<open>\<open>DROP DATABASE IF EXISTS ... WITH (FORCE)\<close> ends the connections to it.\<close>

definition drop_database :: "Machine \<Rightarrow> string \<Rightarrow> Instance \<Rightarrow> (goerror + unit) \<times> Instance" where
  "drop_database M n = call M (\<lambda>s. (Inr (), s\<lparr>i_databases := filter (\<lambda>(m, d). m \<noteq> n) (i_databases s),
     i_open := filter (\<lambda>m. m \<noteq> n) (i_open s)\<rparr>))"

definition exec_on :: "Machine \<Rightarrow> string \<Rightarrow> ddl list \<Rightarrow> Instance \<Rightarrow> (goerror + unit) \<times> Instance" where
  "exec_on M n script = call M (\<lambda>s. case map_of (i_databases s) n of
     None \<Rightarrow> (Inl (ExternalError invalidCatalogName), s)
   | Some db \<Rightarrow> (case exec_script script db of
       Inl e \<Rightarrow> (Inl (sql_goerror e), s)
     | Inr db' \<Rightarrow> (Inr (), s\<lparr>i_databases := map (\<lambda>(m, d). (m, if m = n then db' else d)) (i_databases s)\<rparr>)))"

section \<open>The functions of the package\<close>

definition withDatabase :: "Machine \<Rightarrow> string \<Rightarrow> string \<Rightarrow> string testing" where
  "withDatabase M rawURL dbName = (case m_url_Parse M rawURL of
     Inl e \<Rightarrow> fatal ''parse POSTGRESQL_URL'' e
   | Inr u \<Rightarrow> Value (m_url_String M (u\<lparr>url_Path := ''/'' @ dbName\<rparr>)))"

fun apply_files :: "Machine \<Rightarrow> string \<Rightarrow> string \<Rightarrow> string list \<Rightarrow> Instance \<Rightarrow> unit testing \<times> Instance" where
  "apply_files M n dir [] s = (Value (), s)"
| "apply_files M n dir (name # names) s =
     (case m_ReadFile M (filepath_Join [dir, name]) of
        Inl e \<Rightarrow> (fatal (''read migration '' @ name) e, s)
      | Inr sqlBytes \<Rightarrow>
          (case exec_on M n sqlBytes s of
             (Inl e, s') \<Rightarrow> (fatal (''apply migration '' @ name) e, s')
           | (Inr u, s') \<Rightarrow> apply_files M n dir names s'))"

definition applyMigrations :: "Machine \<Rightarrow> string \<Rightarrow> Instance \<Rightarrow> unit testing \<times> Instance" where
  "applyMigrations M dbURL s =
     (case connect M dbURL s of
        (Inl e, s1) \<Rightarrow> (fatal ''connect for migrations'' e, s1)
      | (Inr n, s1) \<Rightarrow>
          (let dir = migrationsDir (m_file M);
               (r, s2) = (case m_ReadDir M dir of
                 Inl e \<Rightarrow> (fatal (''read migrations dir '' @ dir) e, s1)
               | Inr listed \<Rightarrow> apply_files M n dir (sort (filter (suffix ''.sql'') listed)) s1) in
           (r, disconnect n s2)))"

text \<open>\<open>store.New\<close> on the instance: the ping makes the first connection of the pool.\<close>

definition open_store :: "Machine \<Rightarrow> string \<Rightarrow> Instance \<Rightarrow> unit outcome \<times> Instance" where
  "open_store M url s =
     (if is_Ok (m_open_pool M url) then
        (case connect M url s of
           (Inl e, s1) \<Rightarrow> (fst (store_New (m_open_pool M) (\<lambda>u. Fail e) url), s1)
         | (Inr n, s1) \<Rightarrow> (fst (store_New (m_open_pool M) (\<lambda>u. Ok ()) url), s1))
      else (fst (store_New (m_open_pool M) (\<lambda>u. Ok ()) url), s))"

text \<open>\<open>New\<close> with the value of the clock; its value is the name of the database, which the clean-up has.\<close>

definition dbName_at :: "int \<Rightarrow> string" where
  "dbName_at now = ''dota_test_'' @ show_int now"

definition New_on :: "Machine \<Rightarrow> string \<Rightarrow> string \<Rightarrow> Instance \<Rightarrow> string testing \<times> Instance" where
  "New_on M adminURL dbName s =
     (case create_database M dbName s of
        (Inl e, s1) \<Rightarrow> (fatal ''create database'' e, s1)
      | (Inr u, s1) \<Rightarrow>
          (case withDatabase M adminURL dbName of
             Fatal m \<Rightarrow> (Fatal m, s1)
           | Value testURL \<Rightarrow>
               (case applyMigrations M testURL s1 of
                  (Fatal m, s2) \<Rightarrow> (Fatal m, s2)
                | (Value v, s2) \<Rightarrow>
                    (case open_store M testURL s2 of
                       (Ok w, s3) \<Rightarrow> (Value dbName, s3)
                     | (Fail e, s3) \<Rightarrow> (fatal ''open store'' e, s3)
                     | (Panic, s3) \<Rightarrow> (Fatal ''panic'', s3)))))"

definition testdb_New :: "Machine \<Rightarrow> int \<Rightarrow> Instance \<Rightarrow> string testing \<times> Instance" where
  "testdb_New M now s =
     (let adminURL = m_getenv M ''POSTGRESQL_URL'' in
      if adminURL = '''' then
        (Fatal ''POSTGRESQL_URL is not set; run DB tests via `make test` (spins up a test cluster)'', s)
      else
        (case connect M adminURL s of
           (Inl e, s1) \<Rightarrow> (fatal ''connect admin'' e, s1)
         | (Inr a, s1) \<Rightarrow> (let (r, s2) = New_on M adminURL (dbName_at now) s1 in (r, disconnect a s2))))"

definition logf :: "string \<Rightarrow> Instance \<Rightarrow> Instance" where
  "logf m s = s\<lparr>i_log := i_log s @ [m]\<rparr>"

definition cleanup :: "Machine \<Rightarrow> string \<Rightarrow> Instance \<Rightarrow> Instance" where
  "cleanup M dbName s =
     (case connect M (m_getenv M ''POSTGRESQL_URL'') (disconnect dbName s) of
        (Inl e, s1) \<Rightarrow> logf (''testdb: cleanup connect: '' @ error_text e) s1
      | (Inr a, s1) \<Rightarrow>
          (case drop_database M dbName s1 of
             (Inl e, s2) \<Rightarrow> disconnect a (logf (''testdb: drop database '' @ dbName @ '': '' @ error_text e) s2)
           | (Inr u, s2) \<Rightarrow> disconnect a s2))"

text \<open>A test that calls \<open>New\<close> once and then does \<open>body\<close>: its failure, if \<open>New\<close> ended it.\<close>

definition run_test :: "Machine \<Rightarrow> int \<Rightarrow> (string \<Rightarrow> Instance \<Rightarrow> Instance) \<Rightarrow> Instance \<Rightarrow> string option \<times> Instance" where
  "run_test M now body s = (case testdb_New M now s of
     (Fatal m, s1) \<Rightarrow> (Some m, s1)
   | (Value n, s1) \<Rightarrow> (None, cleanup M n (body n s1)))"

section \<open>Frames\<close>

text \<open>A change of one database in its place.\<close>

definition at_database :: "string \<Rightarrow> (database \<Rightarrow> database) \<Rightarrow> (string \<times> database) list \<Rightarrow> (string \<times> database) list" where
  "at_database n f ds = map (\<lambda>(m, d). (m, if m = n then f d else d)) ds"

lemma at_database_id: "at_database n (\<lambda>d. d) ds = ds"
  by (induction ds) (auto simp: at_database_def)

lemma at_database_same [simp]: "\<exists>f. ds = at_database n f ds"
  using at_database_id by metis

lemma at_database_twice: "at_database n f (at_database n g ds) = at_database n (\<lambda>d. f (g d)) ds"
  by (auto simp: at_database_def)

lemma at_database_new: "map_of ds n = None \<Longrightarrow> at_database n f (ds @ [(n, d)]) = ds @ [(n, f d)]"
  by (induction ds) (auto simp: at_database_def split: if_splits)

lemma map_of_at_database: "m \<noteq> n \<Longrightarrow> map_of (at_database n f ds) m = map_of ds m"
  by (induction ds) (auto simp: at_database_def)

lemma map_of_at_database_same: "map_of (at_database n f ds) n = map_option f (map_of ds n)"
  by (induction ds) (auto simp: at_database_def)

lemma drop_new: "map_of ds n = None \<Longrightarrow> filter (\<lambda>(m, d). m \<noteq> n) (ds @ [(n, d)]) = ds"
  by (induction ds) (auto split: if_splits)

lemma call_cases:
  assumes "call M f s = (r, s')"
  obtains e where "r = Inl e" "s' = s\<lparr>i_calls := Suc (i_calls s)\<rparr>" "m_fault M (i_calls s) = Some e"
  | "f (s\<lparr>i_calls := Suc (i_calls s)\<rparr>) = (r, s')" "m_fault M (i_calls s) = None"
  using assms by (auto simp: call_def Let_def split: option.splits)

lemma connect_frame:
  assumes "connect M url s = (r, s')"
  shows "i_databases s' = i_databases s" "i_log s' = i_log s" "r = Inl e \<Longrightarrow> i_open s' = i_open s"
    "r = Inr n \<Longrightarrow> m_names M url = Some n \<and> map_of (i_databases s) n \<noteq> None \<and> i_open s' = n # i_open s"
  using assms unfolding connect_def
  by (elim call_cases; auto split: option.splits if_splits)+

lemma exec_on_frame:
  assumes "exec_on M n script s = (r, s')"
  shows "i_open s' = i_open s" "i_log s' = i_log s" "\<exists>f. i_databases s' = at_database n f (i_databases s)"
proof -
  have "i_open s' = i_open s \<and> i_log s' = i_log s \<and>
      (i_databases s' = i_databases s \<or> (\<exists>db'. i_databases s' = at_database n (\<lambda>d. db') (i_databases s)))"
    using assms unfolding exec_on_def
    by (elim call_cases) (auto simp: at_database_def split: option.splits sum.splits)
  then show "i_open s' = i_open s" "i_log s' = i_log s" "\<exists>f. i_databases s' = at_database n f (i_databases s)"
    using at_database_id by metis+
qed

lemma apply_files_frame:
  "apply_files M n dir fs s = (r, s') \<Longrightarrow> i_open s' = i_open s \<and> i_log s' = i_log s \<and>
    (\<exists>f. i_databases s' = at_database n f (i_databases s))"
proof (induction M n dir fs s rule: apply_files.induct)
  case (1 M n dir s)
  then show ?case by simp
next
  case (2 M n dir name names s)
  show ?case
  proof (cases "m_ReadFile M (filepath_Join [dir, name])")
    case (Inl e)
    then show ?thesis using 2(2) by simp
  next
    case (Inr script)
    obtain x s1 where x: "exec_on M n script s = (x, s1)" by (rule prod.exhaust)
    note fr = exec_on_frame [OF x]
    show ?thesis
    proof (cases x)
      case (Inl e)
      then show ?thesis using 2(2) Inr x fr by simp
    next
      case r: (Inr u)
      have "apply_files M n dir names s1 = (r, s')" using 2(2) Inr x r by simp
      from 2(1) [OF Inr x [symmetric] r this] show ?thesis using fr at_database_twice by metis
    qed
  qed
qed

text \<open>What pgx makes of the URL with the replaced path: it names the database of the path.\<close>

definition url_ok :: "Machine \<Rightarrow> string \<Rightarrow> bool" where
  "url_ok M raw \<longleftrightarrow> (\<forall>u n. m_url_Parse M raw = Inr u \<longrightarrow> m_names M (m_url_String M (u\<lparr>url_Path := ''/'' @ n\<rparr>)) = Some n)"

lemma withDatabase_names: "url_ok M raw \<Longrightarrow> withDatabase M raw n = Value url \<Longrightarrow> m_names M url = Some n"
  by (auto simp: url_ok_def withDatabase_def fatal_def split: sum.splits)

lemma applyMigrations_frame:
  assumes "applyMigrations M url s = (r, s')" "m_names M url = Some n"
  shows "i_open s' = i_open s \<and> i_log s' = i_log s \<and> (\<exists>f. i_databases s' = at_database n f (i_databases s))"
proof -
  obtain c s1 where c: "connect M url s = (c, s1)" by (rule prod.exhaust)
  note fr = connect_frame [OF c]
  show ?thesis
  proof (cases c)
    case (Inl e)
    then show ?thesis using assms(1) c fr by (auto simp: applyMigrations_def)
  next
    case (Inr m)
    then have m: "m = n" "i_open s1 = n # i_open s" using fr assms(2) by auto
    obtain x s2 where x: "(case m_ReadDir M (migrationsDir (m_file M)) of
         Inl e \<Rightarrow> (fatal (''read migrations dir '' @ migrationsDir (m_file M)) e, s1)
       | Inr listed \<Rightarrow> apply_files M n (migrationsDir (m_file M)) (sort (filter (suffix ''.sql'') listed)) s1) = (x, s2)"
      by (rule prod.exhaust)
    have s2: "i_open s2 = i_open s1 \<and> i_log s2 = i_log s1 \<and> (\<exists>f. i_databases s2 = at_database n f (i_databases s1))"
      using x by (cases "m_ReadDir M (migrationsDir (m_file M))") (auto dest: apply_files_frame)
    have "s' = disconnect n s2" using assms(1) c Inr m(1) x by (auto simp: applyMigrations_def Let_def split: prod.splits)
    then show ?thesis using s2 m fr by (simp add: disconnect_def)
  qed
qed

lemma open_store_frame:
  assumes "open_store M url s = (r, s')" "m_names M url = Some n"
  shows "i_databases s' = i_databases s" "i_log s' = i_log s" "i_open s' = (if r = Ok () then n # i_open s else i_open s)"
proof -
  have "i_databases s' = i_databases s \<and> i_log s' = i_log s \<and> i_open s' = (if r = Ok () then n # i_open s else i_open s)"
  proof (cases "is_Ok (m_open_pool M url)")
    case True
    obtain c s1 where c: "connect M url s = (c, s1)" by (rule prod.exhaust)
    have o: "m_open_pool M url = Ok ()" using True by (cases "m_open_pool M url") auto
    show ?thesis
      using assms connect_frame [OF c] c o by (cases c) (auto simp: open_store_def store_New_def)
  next
    case False
    then show ?thesis using assms by (cases "m_open_pool M url") (auto simp: open_store_def store_New_def)
  qed
  then show "i_databases s' = i_databases s" "i_log s' = i_log s" "i_open s' = (if r = Ok () then n # i_open s else i_open s)"
    by simp_all
qed

text \<open>What \<open>New\<close> may have done when it returns, and when it ends the test.\<close>

fun ended :: "'a testing \<Rightarrow> bool" where
  "ended (Fatal m) = True"
| "ended (Value v) = False"

lemma ended_fatal [simp]: "ended (fatal w e)" "fatal w e \<noteq> Value v"
  by (simp_all add: fatal_def)

definition made :: "string \<Rightarrow> string testing \<Rightarrow> Instance \<Rightarrow> Instance \<Rightarrow> bool" where
  "made n r s s' \<longleftrightarrow> i_log s' = i_log s \<and>
     (ended r \<and> i_databases s' = i_databases s \<and> i_open s' = i_open s
      \<or> map_of (i_databases s) n = None \<and> (\<exists>d. i_databases s' = i_databases s @ [(n, d)])
        \<and> i_open s' = (if ended r then i_open s else n # i_open s) \<and> (ended r \<or> r = Value n))"

lemma create_database_frame:
  assumes "create_database M n s = (r, s')"
  shows "i_open s' = i_open s" "i_log s' = i_log s" "r = Inl e \<Longrightarrow> i_databases s' = i_databases s"
    "r = Inr () \<Longrightarrow> map_of (i_databases s) n = None \<and> i_databases s' = i_databases s @ [(n, [])]"
  using assms unfolding create_database_def by (elim call_cases; auto split: if_splits)+

lemma New_on_made:
  assumes "New_on M url n s = (r, s')" "url_ok M url"
  shows "made n r s s'"
proof -
  obtain c s1 where c: "create_database M n s = (c, s1)" by (rule prod.exhaust)
  note cf = create_database_frame [OF c]
  show ?thesis
  proof (cases c)
    case (Inl e)
    then show ?thesis using assms(1) c cf by (auto simp: New_on_def made_def)
  next
    case (Inr u)
    then have d1: "map_of (i_databases s) n = None" "i_databases s1 = i_databases s @ [(n, [])]" using cf by simp_all
    show ?thesis
    proof (cases "withDatabase M url n")
      case (Fatal m)
      then show ?thesis using assms(1) c Inr cf(1,2) d1 by (cases r) (auto simp: New_on_def made_def)
    next
      case (Value testURL)
      have nm: "m_names M testURL = Some n" by (rule withDatabase_names [OF assms(2) Value])
      obtain x s2 where x: "applyMigrations M testURL s1 = (x, s2)" by (rule prod.exhaust)
      obtain f where s2: "i_open s2 = i_open s1" "i_log s2 = i_log s1" "i_databases s2 = i_databases s @ [(n, f [])]"
        using applyMigrations_frame [OF x nm] at_database_new [OF d1(1)] by (auto simp: d1(2))
      obtain y s3 where y: "open_store M testURL s2 = (y, s3)" by (rule prod.exhaust)
      note yf = open_store_frame [OF y nm]
      show ?thesis
        using assms(1) c Inr Value x y cf(1,2) d1(1) s2 yf
        by (cases x; cases y) (auto simp: New_on_def made_def)
    qed
  qed
qed

lemma testdb_New_made:
  assumes "testdb_New M now s = (r, s')" "url_ok M (m_getenv M ''POSTGRESQL_URL'')"
  shows "made (dbName_at now) r s s'"
    "r = Value n \<Longrightarrow> \<exists>a. m_names M (m_getenv M ''POSTGRESQL_URL'') = Some a \<and> map_of (i_databases s) a \<noteq> None"
proof -
  let ?url = "m_getenv M ''POSTGRESQL_URL''"
  obtain c s1 where c: "connect M ?url s = (c, s1)" by (rule prod.exhaust)
  obtain x s2 where x: "New_on M ?url (dbName_at now) s1 = (x, s2)" by (rule prod.exhaust)
  note cf = connect_frame [OF c] and xm = New_on_made [OF x assms(2)]
  have open2: "made (dbName_at now) x s (disconnect a s2)" if "map_of (i_databases s) a \<noteq> None" "i_open s1 = a # i_open s" for a
    using xm cf(1,2) that by (cases "ended x") (auto simp: made_def disconnect_def)
  show "made (dbName_at now) r s s'"
  proof (cases "?url = ''''")
    case True
    then show ?thesis using assms(1) by (auto simp: testdb_New_def Let_def made_def)
  next
    case False
    show ?thesis
    proof (cases c)
      case (Inl e)
      then show ?thesis using assms(1) c cf False by (auto simp: testdb_New_def Let_def made_def)
    next
      case (Inr a)
      then have "r = x" "s' = disconnect a s2" using assms(1) c x False by (simp_all add: testdb_New_def Let_def)
      then show ?thesis using open2 cf(4) [OF Inr] by simp
    qed
  qed
  show "\<exists>a. m_names M ?url = Some a \<and> map_of (i_databases s) a \<noteq> None" if "r = Value n"
    using assms(1) that c cf by (cases c) (auto simp: testdb_New_def Let_def split: if_splits)
qed

text \<open>The clean-up of a database that \<open>New\<close> made last.\<close>

lemma drop_database_frame:
  assumes "drop_database M n s = (r, s')"
  shows "r = Inl e \<Longrightarrow> i_databases s' = i_databases s \<and> i_open s' = i_open s \<and> m_fault M (i_calls s) \<noteq> None"
    "r = Inr u \<Longrightarrow> i_databases s' = filter (\<lambda>(m, d). m \<noteq> n) (i_databases s) \<and> i_open s' = filter (\<lambda>m. m \<noteq> n) (i_open s)"
  using assms unfolding drop_database_def by (elim call_cases; auto)+

lemma cleanup_frame:
  assumes s: "i_databases s = ds @ [(n, d)]" "i_open s = n # os" "map_of ds n = None" "n \<notin> set os"
    and a: "m_names M (m_getenv M ''POSTGRESQL_URL'') = Some a" "map_of ds a \<noteq> None"
  shows "i_open (cleanup M n s) = os"
    "i_databases (cleanup M n s) = ds \<or> i_databases (cleanup M n s) = ds @ [(n, d)]"
    "\<forall>k. m_fault M k = None \<Longrightarrow> i_databases (cleanup M n s) = ds"
proof -
  obtain c s1 where c: "connect M (m_getenv M ''POSTGRESQL_URL'') (disconnect n s) = (c, s1)" by (rule prod.exhaust)
  note cf = connect_frame [OF c]
  obtain x s2 where x: "drop_database M n s1 = (x, s2)" by (rule prod.exhaust)
  note xf = drop_database_frame [OF x]
  have an: "a \<noteq> n" using a(2) s(3) by auto
  have live: "c = Inr a" if "\<forall>k. m_fault M k = None"
    using c that a an s(1,3) by (auto simp: connect_def call_def Let_def disconnect_def map_add_def split: option.splits)
  have no: "filter (\<lambda>m. m \<noteq> n) os = os" using s(4) by (induction os) auto
  have "i_open (cleanup M n s) = os \<and> (i_databases (cleanup M n s) = ds \<or> i_databases (cleanup M n s) = ds @ [(n, d)])
      \<and> ((\<forall>k. m_fault M k = None) \<longrightarrow> i_databases (cleanup M n s) = ds)"
  proof (cases c)
    case (Inl e)
    then have "\<not> (\<forall>k. m_fault M k = None)" using live by blast
    then show ?thesis using Inl cf c s by (simp add: cleanup_def logf_def disconnect_def)
  next
    case (Inr b)
    then have b: "b = a" "i_open s1 = a # os" "i_databases s1 = ds @ [(n, d)]"
      using cf a(1) s(1,2) by (auto simp: disconnect_def)
    show ?thesis
    proof (cases x)
      case (Inl e)
      then show ?thesis using c Inr x xf(1) b by (auto simp: cleanup_def logf_def disconnect_def)
    next
      case r: (Inr u)
      then have "i_databases s2 = ds" "i_open s2 = a # os" using xf(2) b an no drop_new [OF s(3)] by simp_all
      then show ?thesis using c Inr x r b(1) by (simp add: cleanup_def disconnect_def)
    qed
  qed
  then show "i_open (cleanup M n s) = os"
    "i_databases (cleanup M n s) = ds \<or> i_databases (cleanup M n s) = ds @ [(n, d)]"
    "\<forall>k. m_fault M k = None \<Longrightarrow> i_databases (cleanup M n s) = ds" by simp_all
qed

section \<open>Properties\<close>

text \<open>A test body that uses nothing but its own database.\<close>

definition confined :: "(string \<Rightarrow> Instance \<Rightarrow> Instance) \<Rightarrow> bool" where
  "confined body \<longleftrightarrow> (\<forall>n s. i_open (body n s) = i_open s \<and> (\<exists>f. i_databases (body n s) = at_database n f (i_databases s)))"

text \<open>
  C22: Tests do not touch each other's databases, whatever fails. A test that calls \<open>New\<close> leaves no
  connection behind and every other database as it was; its own is gone when no call failed and \<open>New\<close>
  returned, and otherwise is the only thing that can be left over.
\<close>

theorem throwaway_databases_isolated:
  assumes "url_ok M (m_getenv M ''POSTGRESQL_URL'')" "confined body" "set (i_open s) \<subseteq> fst ` set (i_databases s)"
    "run_test M now body s = (r, s')"
  shows "i_open s' = i_open s
    \<and> (i_databases s' = i_databases s
       \<or> map_of (i_databases s) (dbName_at now) = None \<and> (\<exists>d. i_databases s' = i_databases s @ [(dbName_at now, d)]))
    \<and> (r = None \<and> (\<forall>k. m_fault M k = None) \<longrightarrow> i_databases s' = i_databases s)"
proof -
  let ?n = "dbName_at now"
  obtain x s1 where x: "testdb_New M now s = (x, s1)" by (rule prod.exhaust)
  note m = testdb_New_made [OF x assms(1)]
  show ?thesis
  proof (cases x)
    case (Fatal e)
    then show ?thesis using m(1) x assms(4) by (auto simp: run_test_def made_def)
  next
    case (Value v)
    then obtain d a where v: "v = ?n" "map_of (i_databases s) ?n = None" "i_databases s1 = i_databases s @ [(?n, d)]"
      "i_open s1 = ?n # i_open s" "m_names M (m_getenv M ''POSTGRESQL_URL'') = Some a" "map_of (i_databases s) a \<noteq> None"
      using m(1) m(2) [OF Value] by (auto simp: made_def)
    let ?b = "body ?n s1"
    obtain f where b: "i_open ?b = ?n # i_open s" "i_databases ?b = i_databases s @ [(?n, f d)]"
      using assms(2) v(3,4) at_database_new [OF v(2)] unfolding confined_def by metis
    have "?n \<notin> set (i_open s)" using assms(3) v(2) by (auto simp: map_of_eq_None_iff)
    note c = cleanup_frame [OF b(2,1) v(2) this v(5,6)]
    have "r = None" "s' = cleanup M ?n ?b" using assms(4) x Value v(1) by (simp_all add: run_test_def)
    then show ?thesis using c v(2) by auto
  qed
qed

lemma name_at_7 [simp]: "dbName_at 7 = ''dota_test_7''"
proof -
  have "show_nat 7 = ''7''" by code_simp
  then show ?thesis by (simp add: dbName_at_def show_int_def)
qed

text \<open>The machine of the examples: a URL is a host and a path, the repository is in \<open>/r\<close>.\<close>

definition ref_machine :: Machine where
  "ref_machine = \<lparr>m_getenv = (\<lambda>k. ''pg/postgres''),
     m_url_Parse = (\<lambda>raw. Inr \<lparr>url_Path = dropWhile (\<lambda>c. c \<noteq> CHR ''/'') raw, url_rest = takeWhile (\<lambda>c. c \<noteq> CHR ''/'') raw\<rparr>),
     m_url_String = (\<lambda>u. url_rest u @ url_Path u),
     m_names = (\<lambda>s. Some (drop 1 (dropWhile (\<lambda>c. c \<noteq> CHR ''/'') s))),
     m_fault = (\<lambda>k. None), m_file = ''/r/control-plane/internal/testdb/testdb.go'',
     m_ReadDir = (\<lambda>dir. Inr (''README.md'' # rev (map fst migrations))),
     m_ReadFile = (\<lambda>path. case map_of (map (\<lambda>(n, c). (''/r/control-plane/db/migrations/'' @ n, c)) migrations) path of
        None \<Rightarrow> Inl (ExternalError ''file does not exist'') | Some c \<Rightarrow> Inr c),
     m_open_pool = (\<lambda>u. Ok ())\<rparr>"

definition ref_instance :: Instance where
  "ref_instance = \<lparr>i_databases = [(''postgres'', [])], i_open = [], i_calls = 0, i_log = []\<rparr>"

lemma ref_url_ok: "url_ok ref_machine raw"
proof -
  have "dropWhile (\<lambda>c. c \<noteq> CHR ''/'') (takeWhile (\<lambda>c. c \<noteq> CHR ''/'') raw @ CHR ''/'' # n) = CHR ''/'' # n" for n
    by (induction raw) auto
  then show ?thesis by (simp add: url_ok_def ref_machine_def)
qed

lemma ref_migrationsDir: "migrationsDir ''/r/control-plane/internal/testdb/testdb.go'' = ''/r/control-plane/db/migrations''"
  by (simp add: migrationsDir_def filepath_Join_def filepath_Dir_def filepath_Clean_def)

theorem throwaway_databases_isolated_witness:
  "i_databases (snd (run_test ref_machine 7 (\<lambda>n s. s) ref_instance)) = [(''postgres'', [])]
   \<or> (\<exists>d. i_databases (snd (run_test ref_machine 7 (\<lambda>n s. s) ref_instance)) = [(''postgres'', []), (dbName_at 7, d)])"
proof -
  have "confined (\<lambda>n s. s)" by (simp add: confined_def)
  from throwaway_databases_isolated [OF ref_url_ok this _ prod.collapse [symmetric], of ref_instance 7]
  show ?thesis by (auto simp: ref_instance_def)
qed

lemma exec_script_append:
  "exec_script (ss @ ts) db = (case exec_script ss db of Inl e \<Rightarrow> Inl e | Inr d \<Rightarrow> exec_script ts d)"
  by (induction ss arbitrary: db) (auto split: sum.split)

lemma apply_files_ok:
  assumes "\<forall>k. m_fault M k = None"
  shows "\<forall>(name, c) \<in> set ms. m_ReadFile M (filepath_Join [dir, name]) = Inr c \<Longrightarrow> map_of (i_databases s) n = Some db \<Longrightarrow>
    exec_script (concat (map snd ms)) db = Inr db' \<Longrightarrow> ms \<noteq> [] \<Longrightarrow>
    \<exists>k. apply_files M n dir (map fst ms) s = (Value (), s\<lparr>i_databases := at_database n (\<lambda>d. db') (i_databases s), i_calls := k\<rparr>)"
proof (induction ms arbitrary: s db)
  case (Cons x ms)
  obtain name c where x: "x = (name, c)" by (rule prod.exhaust)
  obtain d where d: "exec_script c db = Inr d" "exec_script (concat (map snd ms)) d = Inr db'"
    using Cons.prems(3) by (auto simp: x exec_script_append split: sum.splits)
  let ?s = "s\<lparr>i_databases := at_database n (\<lambda>e. d) (i_databases s), i_calls := Suc (i_calls s)\<rparr>"
  have e: "exec_on M n c s = (Inr (), ?s)"
    using assms Cons.prems(2) d(1) by (simp add: exec_on_def call_def Let_def at_database_def)
  have "map_of (i_databases ?s) n = Some d"
    using Cons.prems(2) by (simp add: map_of_at_database_same)
  show ?case
  proof (cases "ms = []")
    case True
    then show ?thesis using Cons.prems(1) e d(2) by (simp add: x) (rule exI, rule refl)
  next
    case False
    with Cons.IH [OF _ \<open>map_of (i_databases ?s) n = Some d\<close> d(2)] Cons.prems(1)
    show ?thesis using e by (auto simp: x at_database_twice)
  qed
qed simp

lemma sorted_migrations: "sort (map fst migrations) = map fst migrations"
  by (simp add: migrations_def)

text \<open>
  C23: When nothing fails, \<open>New\<close> returns a store on a fresh database with the schema of the migrations and no
  rows, whatever the order in which the directory lists them and whatever else is in it: the
  migrations run in their numbering; the other databases stay and the only connection left is the store's.
\<close>

theorem new_database_is_migrated:
  assumes "\<forall>k. m_fault M k = None" "\<forall>u. m_open_pool M u = Ok ()"
    "m_getenv M ''POSTGRESQL_URL'' = raw" "raw \<noteq> ''''" "m_url_Parse M raw = Inr u" "url_ok M raw"
    "m_names M raw = Some a" "map_of (i_databases s) a \<noteq> None" "map_of (i_databases s) (dbName_at now) = None"
    "m_ReadDir M (migrationsDir (m_file M)) = Inr listed" "mset (filter (suffix ''.sql'') listed) = mset (map fst migrations)"
    "\<forall>(name, c) \<in> set migrations. m_ReadFile M (filepath_Join [migrationsDir (m_file M), name]) = Inr c"
  shows "\<exists>s'. testdb_New M now s = (Value (dbName_at now), s') \<and> i_log s' = i_log s
    \<and> i_databases s' = i_databases s @ [(dbName_at now, migrated)] \<and> i_open s' = dbName_at now # i_open s"
proof -
  let ?n = "dbName_at now" and ?dir = "migrationsDir (m_file M)"

  have an: "a \<noteq> ?n" using assms(8,9) by auto
  have names: "m_names M (m_url_String M (u\<lparr>url_Path := ''/'' @ n\<rparr>)) = Some n" for n using assms(5,6) by (simp add: url_ok_def)
  have conn: "connect M url t = (Inr m, t\<lparr>i_open := m # i_open t, i_calls := Suc (i_calls t)\<rparr>)"
    if "m_names M url = Some m" "map_of (i_databases t) m \<noteq> None" for url t m
    using that assms(1) by (auto simp: connect_def call_def Let_def)
  have files: "sort (filter (suffix ''.sql'') listed) = map fst migrations"
    using properties_for_sort [OF assms(11) [symmetric]] sorted_migrations by (metis sorted_sort)
  let ?s1 = "s\<lparr>i_databases := i_databases s @ [(?n, [])], i_open := a # i_open s, i_calls := Suc (Suc (i_calls s))\<rparr>"
  let ?url = "m_url_String M (u\<lparr>url_Path := ''/'' @ ?n\<rparr>)"
  have m1: "map_of (i_databases ?s1) ?n = Some []" using assms(9) by (simp add: map_add_def)
  let ?s2 = "?s1\<lparr>i_open := ?n # a # i_open s, i_calls := Suc (Suc (Suc (i_calls s)))\<rparr>"
  obtain k where af: "apply_files M ?n ?dir (map fst migrations) ?s2 =
      (Value (), ?s2\<lparr>i_databases := i_databases s @ [(?n, migrated)], i_calls := k\<rparr>)"
    using apply_files_ok [OF assms(1,12), of ?s2 ?n "[]" migrated] m1 migrate_all at_database_new [OF assms(9), of "\<lambda>d. migrated"]
    by (auto simp: migrations_def)
  let ?s3 = "?s1\<lparr>i_databases := i_databases s @ [(?n, migrated)], i_calls := k\<rparr>"
  have mig: "applyMigrations M ?url ?s1 = (Value (), ?s3)"
    using conn [OF names, of ?s1] m1 af assms(10) files
    by (simp add: applyMigrations_def Let_def disconnect_def)
  have op: "open_store M ?url ?s3 = (Ok (), ?s3\<lparr>i_open := ?n # a # i_open s, i_calls := Suc k\<rparr>)"
    using conn [OF names, of ?s3] assms(2,9) by (simp add: open_store_def store_New_def map_add_def)
  have cr: "create_database M ?n (s\<lparr>i_open := a # i_open s, i_calls := Suc (i_calls s)\<rparr>) = (Inr (), ?s1)"
    using assms(1,9) by (simp add: create_database_def call_def Let_def)
  have "testdb_New M now s = (Value ?n, disconnect a (?s3\<lparr>i_open := ?n # a # i_open s, i_calls := Suc k\<rparr>))"
    using assms(3-5) conn [OF assms(7,8)] cr mig op
    by (simp add: testdb_New_def Let_def New_on_def withDatabase_def)
  then show ?thesis using an by (simp add: disconnect_def)
qed

theorem new_database_is_migrated_witness:
  "\<exists>s'. testdb_New ref_machine 7 ref_instance = (Value ''dota_test_7'', s')
     \<and> i_databases s' = [(''postgres'', []), (''dota_test_7'', migrated)] \<and> i_open s' = [''dota_test_7'']"
proof -
  have d: "migrationsDir (m_file ref_machine) = ''/r/control-plane/db/migrations''"
    by (simp add: ref_machine_def ref_migrationsDir)
  have j: "filepath_Join [''/r/control-plane/db/migrations'', name] = ''/r/control-plane/db/migrations/'' @ name"
    if "name \<in> set (map fst migrations)" for name
    using that by (auto simp: migrations_def filepath_Join_def filepath_Clean_def)
  have pre: "map_of (map (\<lambda>(n, c). (p @ n, c)) ms) (p @ name) = map_of ms name" for p name :: string and ms :: "(string \<times> ddl list) list"
    by (induction ms) auto
  have rf: "m_ReadFile ref_machine (''/r/control-plane/db/migrations/'' @ name) =
      (case map_of migrations name of None \<Rightarrow> Inl (ExternalError ''file does not exist'') | Some c \<Rightarrow> Inr c)" for name
    unfolding ref_machine_def Machine.select_convs pre ..
  have dist: "distinct (map fst migrations)" by (simp add: migrations_def)
  have "m_ReadFile ref_machine (filepath_Join [migrationsDir (m_file ref_machine), name]) = Inr c" if m: "(name, c) \<in> set migrations" for name c
  proof -
    have "name \<in> set (map fst migrations)" using m by force
    then show ?thesis unfolding d j [OF \<open>name \<in> _\<close>] rf using map_of_is_SomeI [OF dist m] by simp
  qed
  then have files: "\<forall>(name, c) \<in> set migrations. m_ReadFile ref_machine (filepath_Join [migrationsDir (m_file ref_machine), name]) = Inr c"
    by blast
  have "mset (filter (suffix ''.sql'') (''README.md'' # rev (map fst migrations))) = mset (map fst migrations)"
    by (simp add: migrations_def suffix_to_prefix)
  moreover note new_database_is_migrated [where M = ref_machine and raw = "''pg/postgres''" and now = 7 and s = ref_instance
      and listed = "''README.md'' # rev (map fst migrations)" and a = "''postgres''", OF _ _ _ _ _ ref_url_ok _ _ _ _ _ files]
  moreover have "\<forall>k. m_fault ref_machine k = None" "\<forall>u. m_open_pool ref_machine u = Ok ()" "m_getenv ref_machine ''POSTGRESQL_URL'' = ''pg/postgres''"
    "m_url_Parse ref_machine ''pg/postgres'' = Inr \<lparr>url_Path = ''/postgres'', url_rest = ''pg''\<rparr>" "m_names ref_machine ''pg/postgres'' = Some ''postgres''"
    "m_ReadDir ref_machine x = Inr (''README.md'' # rev (map fst migrations))" for x
    by (simp_all add: ref_machine_def)
  moreover have "i_databases ref_instance = [(''postgres'', [])]" "i_open ref_instance = []" by (simp_all add: ref_instance_def)
  ultimately show ?thesis by auto
qed

text \<open>
  The clean-up is registered after the migrations: when one of them fails, the test ends and the
  database it made stays on the instance.
\<close>

theorem failing_migration_leaks:
  "\<exists>M m s'. url_ok M ''pg/postgres'' \<and> (\<forall>k. m_fault M k = None) \<and> run_test M 7 body ref_instance = (Some m, s')
     \<and> i_databases s' = i_databases ref_instance @ [(''dota_test_7'', [])]"
proof -
  let ?M = "ref_machine\<lparr>m_ReadDir := (\<lambda>dir. Inr [''001_init.sql'']), m_ReadFile := (\<lambda>p. Inr [ALTER_TABLE ''users'' [DROP_COLUMN ''id'']])\<rparr>"
  have "url_ok ?M ''pg/postgres''" using ref_url_ok [of "''pg/postgres''"] by (simp add: url_ok_def)
  moreover have "\<forall>k. m_fault ?M k = None" by (simp add: ref_machine_def)
  moreover have "\<exists>m s'. run_test ?M 7 body ref_instance = (Some m, s') \<and> i_databases s' = i_databases ref_instance @ [(''dota_test_7'', [])]"
    by (simp add: run_test_def testdb_New_def Let_def connect_def call_def ref_machine_def ref_instance_def New_on_def
        create_database_def withDatabase_def applyMigrations_def suffix_to_prefix
        exec_on_def on_table_def fatal_def disconnect_def)
  ultimately show ?thesis by blast
qed

end
