(* ===== verification/Control_Restart.thy ===== *)
theory Control_Restart
  imports Api_Concurrent Control_Process
begin

text \<open>
  The first part of \<open>main\<close> as a whole, from the environment to the wired server, and the process over
  several lives: it may end at any access to shared state, with any number of requests and
  links under way, and start again on the same database with the same environment. What is in memory is lost: the
  cached keys, the guard prompts, the WebSocket connections and the goroutines.
\<close>

declare One_nat_def [simp del]

section \<open>The start of main\<close>

text \<open>
  Up to the store: the exit status or the configuration, and the calls made on the pool. The runtime ends a
  process that panics with status 2.
\<close>

definition main_open :: "environ \<Rightarrow> (string \<Rightarrow> unit outcome) \<Rightarrow> (string \<Rightarrow> unit outcome) \<Rightarrow> (nat + Config) \<times> pool_call list" where
  "main_open os open_pool ping =
     (case configure os of
        Inl status \<Rightarrow> (Inl status, [])
      | Inr cfg \<Rightarrow>
          (case store_New open_pool ping (cfg_databaseURL cfg) of
             (Ok db, pcs) \<Rightarrow> (Inr cfg, pcs)
           | (Fail err, pcs) \<Rightarrow> (Inl 1, pcs)
           | (Panic, pcs) \<Rightarrow> (Inl 2, pcs)))"

text \<open>The server that \<open>main\<close> then wires, on the tables of the database.\<close>

definition main_deps :: "Config \<Rightarrow> Deps \<Rightarrow> Deps" where
  "main_deps cfg D = D\<lparr>d_hasher := cfg_hasher cfg, d_tokens := cfg_tokens cfg, d_links := True\<rparr>"

definition main_api :: "Config \<Rightarrow> Db \<Rightarrow> rng \<Rightarrow> Api" where
  "main_api cfg db r = NewApiServer db (cfg_keys cfg) r NewHub"

text \<open>What the libraries and the engine promise; the rest of \<open>deps_ok\<close> is the work of \<open>main\<close>.\<close>

definition libs_ok :: "Deps \<Rightarrow> bool" where
  "libs_ok D \<longleftrightarrow> pg_ok (d_pg D) \<and> argon2_ok (d_crypto D) \<and> gcm_ok (d_crypto D) \<and> jwt_ok (d_jwt D)"

lemma main_open_configured: "main_open os open_pool ping = (Inr cfg, pcs) \<Longrightarrow> configure os = Inr cfg"
  by (auto simp: main_open_def split: sum.splits prod.splits outcome.splits)

lemma configured:
  assumes "configure os = Inr cfg"
  shows "cfg_hasher cfg = \<lparr>pepper = bytes_of_string (Getenv os ''CREDENTIAL_PEPPER''), hparams = DefaultPasswordParams\<rparr>"
    "cfg_keys cfg = NewKeyCache sessionTTL"
  using assms
  by (auto simp: configure_def mustEnv_def Let_def NewHasher_def NewTokenManager_def split: sum.splits outcome.splits if_splits)

lemma main_deps_simps [simp]: "d_pg (main_deps cfg D) = d_pg D" "d_crypto (main_deps cfg D) = d_crypto D"
  "d_jwt (main_deps cfg D) = d_jwt D" "d_links (main_deps cfg D)" "d_friends (main_deps cfg D) = d_friends D"
  "d_sort (main_deps cfg D) = d_sort D" "d_hasher (main_deps cfg D) = cfg_hasher cfg" "d_tokens (main_deps cfg D) = cfg_tokens cfg"
  by (simp_all add: main_deps_def)

lemma main_deps_ok: "libs_ok D \<Longrightarrow> configure os = Inr cfg \<Longrightarrow> deps_ok (main_deps cfg D)"
  by (simp add: libs_ok_def deps_ok_def configured)

section \<open>Lives\<close>

text \<open>
  A new life: the tables stay. The last three fields are the history of the model (links started, codes
  submitted, tokens asked with), which goes on.
\<close>

definition restarted :: "Config \<Rightarrow> rng \<Rightarrow> Api \<Rightarrow> Api" where
  "restarted cfg r s = (main_api cfg (s_db s) r)
     \<lparr>s_started := s_started s, s_submitted := s_submitted s, s_asked := s_asked s\<rparr>"

inductive life_reachable :: "Config \<Rightarrow> Deps \<Rightarrow> Platform \<Rightarrow> Threads \<Rightarrow> bool" for cfg D P where
  first_life: "rand_ok r \<Longrightarrow> life_reachable cfg D P \<lparr>t_api = main_api cfg empty_db r, t_requests = [], t_callbacks = []\<rparr>"
| life_step: "life_reachable cfg D P t \<Longrightarrow> thread_step (main_deps cfg D) P t t' \<Longrightarrow> life_reachable cfg D P t'"
| next_life: "life_reachable cfg D P t \<Longrightarrow> rand_ok r \<Longrightarrow>
     life_reachable cfg D P \<lparr>t_api = restarted cfg r (t_api t), t_requests = [], t_callbacks = []\<rparr>"

lemma restarted_simps [simp]: "s_db (restarted cfg r s) = s_db s" "s_rand (restarted cfg r s) = r"
  "s_linkReqs (restarted cfg r s) = Map.empty" "s_asked (restarted cfg r s) = s_asked s" "s_started (restarted cfg r s) = s_started s"
  "s_keys (restarted cfg r s) = cfg_keys cfg" "s_hub (restarted cfg r s) = NewHub"
  by (simp_all add: restarted_def main_api_def NewApiServer_def)

lemma no_keys [simp]: "entries (NewKeyCache t) uid = None"
  by (simp add: NewKeyCache_def)

lemma core_inv_restarted:
  assumes "core_inv (main_deps cfg D) s" "rand_ok r" "configure os = Inr cfg"
  shows "core_inv (main_deps cfg D) (restarted cfg r s)"
  using assms(1,2) by (simp add: core_inv_def api_inv_def keys_ok_def reqs_ok_def configured(2) [OF assms(3)])

lemma threads_inv_life:
  assumes "libs_ok D" "configure os = Inr cfg" "life_reachable cfg D P t"
  shows "threads_inv (main_deps cfg D) t"
  using assms(3)
proof induction
  case (first_life r)
  have "threads_reachable (main_deps cfg D) P \<lparr>t_api = main_api cfg empty_db r, t_requests = [], t_callbacks = []\<rparr>"
    unfolding main_api_def configured(2) [OF assms(2)] by (rule threads_init [OF first_life])
  then show ?case by (rule threads_inv_reachable [OF main_deps_ok [OF assms(1,2)]])
next
  case (life_step t t')
  then show ?case using threads_inv_step [OF main_deps_ok [OF assms(1,2)]] by blast
next
  case (next_life t r)
  then show ?case using core_inv_restarted [OF _ _ assms(2)] by (simp add: threads_inv_def)
qed

section \<open>A stored token over the lives\<close>

lemma stored_opens:
  assumes "libs_ok D" "configure os = Inr cfg" "life_reachable cfg D P t"
    and "a \<in> set (steam_accounts (s_db (t_api t)))" "r_enc_refresh_token a = Some ct"
  obtains u pw key non tok where "u \<in> set (users (s_db (t_api t)))" "u_ID u = r_user_id a"
    "Verify (d_crypto D) (cfg_hasher cfg) pw (u_PasswordHash u) = Ok True" "DeriveKey (d_crypto D) pw (u_KDFSalt u) = Ok key"
    "length key = 32" "r_enc_refresh_nonce a = Some non" "Decrypt (d_crypto D) key ct non = Ok (bytes_of_string tok)"
    "\<exists>l \<in> set (s_started (t_api t)). ls_accountID l = r_id a \<and> ls_key l = key"
proof -
  have "cred_ok (main_deps cfg D) (s_db (t_api t)) (s_started (t_api t)) a"
    using threads_inv_life [OF assms(1-3)] assms(4) by (simp add: threads_inv_def core_inv_def api_inv_def)
  then obtain u key non tok where "u \<in> set (users (s_db (t_api t)))" "u_ID u = r_user_id a" "r_enc_refresh_nonce a = Some non"
    "user_key (main_deps cfg D) u key" "Decrypt (d_crypto D) key ct non = Ok tok"
    "\<exists>l \<in> set (s_started (t_api t)). ls_accountID l = r_id a \<and> ls_key l = key"
    using assms(5) unfolding cred_ok_def main_deps_simps by blast
  then show ?thesis using that [of u _ key non "string_of_bytes tok"] by (auto simp: user_key_def)
qed

lemma life_db: "libs_ok D \<Longrightarrow> configure os = Inr cfg \<Longrightarrow> life_reachable cfg D P t \<Longrightarrow> db_inv (d_pg D) (s_db (t_api t))"
  using threads_inv_life [of D os cfg P t] by (simp add: threads_inv_def core_inv_def api_inv_def)

text \<open>A login, from the facts about its password.\<close>

lemma Login_with:
  assumes D: "deps_ok D" "healthy (d_pg D)"
    and req: "decodeJSON LoginRequest r = Some req" "users_of (s_db s) (req ''username'') = Some u"
    and u: "Verify (d_crypto D) (d_hasher D) (req ''password'') (u_PasswordHash u) = Ok True"
      "DeriveKey (d_crypto D) (req ''password'') (u_KDFSalt u) = Ok key"
  obtains tok where "Login D r s = (writeJSON 200 (LoginResponse tok),
      s\<lparr>s_db := (s_db s)\<lparr>queries := Suc (queries (s_db s))\<rparr>, s_keys := Put (rq_clock r 1) (u_ID u) key (s_keys s)\<rparr>)"
    "Issue (d_jwt D) (d_tokens D) (rq_clock r 2) (u_ID u) = Ok tok"
proof -
  have "jwt_ok (d_jwt D)" using D(1) by (simp add: deps_ok_def)
  then obtain tok where "Issue (d_jwt D) (d_tokens D) (rq_clock r 2) (u_ID u) = Ok tok" using Issue_Ok by blast
  then show ?thesis
    using req u that [of tok] GetByUsername_healthy [OF D(2)] by (simp add: Login_def cacheKeyAndIssue_def issueToken_def)
qed

text \<open>The owner of an account in a new life.\<close>

lemma restarted_owner:
  assumes "libs_ok D" "configure os = Inr cfg" "life_reachable cfg D P t" "a \<in> set (steam_accounts (s_db (t_api t)))"
  shows "account_of (s_db (t_api t)) (r_user_id a) = Some a" "uuid_in (d_pg D) (r_user_id a) = Some (r_user_id a)"
    "uuid_in (d_pg D) (r_id a) = Some (r_id a)"
proof -
  have db: "db_inv (d_pg D) (s_db (t_api t))" by (rule life_db [OF assms(1-3)])
  show "account_of (s_db (t_api t)) (r_user_id a) = Some a" by (rule account_of_mem [OF db assms(4)])
  have "used_uuid (d_pg D) (s_db (t_api t)) (r_user_id a)" "used_uuid (d_pg D) (s_db (t_api t)) (r_id a)"
    using db assms(4) unfolding db_inv_def by auto
  then show "uuid_in (d_pg D) (r_user_id a) = Some (r_user_id a)" "uuid_in (d_pg D) (r_id a) = Some (r_id a)"
    using used_uuid_canonical [OF db_inv_pg_ok [OF db]] by blast+
qed

section \<open>What a crash leaves of a link\<close>

text \<open>
  The process dies while a link is under way: the account has no token and no goroutine works
  for it any more. Codes and the friends list are refused, and the account is listed as if it were linked; only
  deleting it makes room for a new link.
\<close>

theorem interrupted_link:
  assumes "libs_ok D" "healthy (d_pg D)" "main_open os open_pool ping = (Inr cfg, pcs)" "life_reachable cfg D P t"
    and "a \<in> set (steam_accounts (s_db (t_api t)))" "r_enc_refresh_token a = None"
    and "decodeJSON SteamGuardRequest r1 = Some req" "req ''code'' \<noteq> ''''"
  shows "let E = main_deps cfg D; s = restarted cfg r (t_api t); uid = r_user_id a in
    fst (SubmitAccountSteamGuard E (r_id a) (Some uid) r1 s) = writeError 409 ''no steam guard prompt in progress''
    \<and> fst (ListFriends E (Some uid) r2 s) = writeError 409 ''steam account link not complete''
    \<and> fst (ListSteamAccounts E (Some uid) r3 s) = writeJSON 200 (JArr [SteamAccountDTO_json (toSteamAccountDTO E (scan_account a))])
    \<and> (\<exists>s'. DeleteSteamAccount E (r_id a) (Some uid) r4 s = (writeHeader 204, s') \<and> account_of (s_db s') = (account_of (s_db s))(uid := None)
        \<and> fst (ListSteamAccounts E (Some uid) r5 s') = writeJSON 200 (JArr []))"
proof -
  have cf: "configure os = Inr cfg" by (rule main_open_configured [OF assms(3)])
  let ?E = "main_deps cfg D" and ?s = "restarted cfg r (t_api t)"
  have db: "db_inv (d_pg D) (s_db (t_api t))" by (rule life_db [OF assms(1) cf assms(4)])
  note own = restarted_owner [OF assms(1) cf assms(4,5)]
  note get = get_on_healthy [OF assms(2) own(2,1)]
  have tok: "sa_EncRefreshToken (scan_account a) = []" "sa_ID (scan_account a) = r_id a"
    by (simp_all add: assms(6))
  obtain x d where d: "SteamAccountStore_Delete (d_pg D) (r_user_id a) (r_id a) (s_db (t_api t)) = (x, d)" by (rule prod.exhaust)
  have x: "x = Ok ()"
    using Delete_account_healthy [OF db assms(2) own(2,3)] own(1) d by simp
  have gone: "account_of d = (account_of (s_db (t_api t)))(r_user_id a := None)"
    using Delete_account_table [OF db d [unfolded x]] own(2) by auto
  note none = get_none_on_healthy [OF assms(2) own(2), of d]
  have isnf: "errors_Is ErrSteamAccountNotFound ErrSteamAccountNotFound" by (simp add: ErrSteamAccountNotFound_def)
  show ?thesis
    unfolding Let_def
    using get tok assms(7,8) d x gone none isnf
    by (simp add: SubmitAccountSteamGuard_def getLinkReq_def ListFriends_def ListSteamAccounts_def DeleteSteamAccount_def)
qed

text \<open>A start that fails ends with status 1 and leaves no pool open, unless a library panics.\<close>

theorem failed_start_leaves_no_pool:
  assumes "main_open os open_pool ping = (Inl n, pcs)" "\<forall>url. open_pool url \<noteq> Panic \<and> ping url \<noteq> Panic"
  shows "n = 1 \<and> (pcs = [] \<or> last pcs = PoolClosed)"
  using assms
  by (auto simp: main_open_def configure_def mustEnv_def Let_def store_New_def split: sum.splits prod.splits outcome.splits if_splits)

section \<open>Properties\<close>


section \<open>A run\<close>

text \<open>The environment of the reference dependencies, and the life in which the first user links an account.\<close>

definition ref_environ :: environ where
  "ref_environ = [''DATABASE_URL'' \<mapsto> ''db'', ''JWT_SECRET'' \<mapsto> [CHR 0x01], ''CREDENTIAL_PEPPER'' \<mapsto> [CHR 0x07]]"

definition ref_config :: Config where
  "ref_config = \<lparr>cfg_grpcAddr = '':42010'', cfg_httpAddr = '':42000'', cfg_databaseURL = ''db'', cfg_hasher = ref_hasher,
     cfg_tokens = ref_tokens, cfg_keys = NewKeyCache sessionTTL\<rparr>"

lemma ref_configured: "configure ref_environ = Inr ref_config"
  by (simp add: configure_def mustEnv_def env_def Getenv_def ref_environ_def ref_config_def NewHasher_def NewTokenManager_def
      bytes_of_string_def ref_hasher_def ref_tokens_def sessionTTL_def Hour_def Minute_def Second_def)

lemma ref_opened: "main_open ref_environ (\<lambda>u. Ok ()) (\<lambda>u. Ok ()) = (Inr ref_config, [PoolOpened, PoolPinged])"
  by (simp add: main_open_def ref_configured store_New_def)

lemma ref_main_deps [simp]: "main_deps ref_config ref_deps = ref_deps"
  by (simp add: main_deps_def ref_config_def ref_deps_def)

lemma ref_libs_ok: "libs_ok ref_deps"
  using ref_deps_ok by (simp add: libs_ok_def deps_ok_def)

lemma life_steps:
  "(thread_step (main_deps cfg D) P)\<^sup>*\<^sup>* t u \<Longrightarrow> life_reachable cfg D P t \<Longrightarrow> life_reachable cfg D P u"
  by (induction rule: rtranclp_induct) (auto intro: life_step)

lemma ref_life:
  obtains t a ct where "life_reachable ref_config ref_deps ref_platform t" "idle t" "a \<in> set (steam_accounts (s_db (t_api t)))"
    "r_enc_refresh_token a = Some ct"
proof -
  let ?st = "thread_step (main_deps ref_config ref_deps) ref_platform"
  let ?t0 = "\<lparr>t_api = ref_api, t_requests = [], t_callbacks = []\<rparr>"
  have t0: "life_reachable ref_config ref_deps ref_platform ?t0" "idle ?t0"
    using first_life [of ref_rng ref_config ref_deps ref_platform]
    by (simp_all add: main_api_def ref_config_def ref_api_def sessionTTL_def idle_def)
  obtain s tok s1 l where s: "serve ref_deps ref_platform (post ''/api/auth/register'' [] ann_body) ref_api = (writeJSON 201 (LoginResponse tok), s)"
    "snd (serve ref_deps ref_platform (post ''/api/steam/accounts'' (''Bearer '' @ tok) qr_body) s) = s1" "s_started s1 = [l]"
    "api_reachable ref_deps ref_platform s1" "rand_live (s_rand s1)" "length (ls_key l) = 32"
    "account_of (s_db s1) ''u'' = Some (fresh_row 5 ''u'' [] (ls_accountID l))" "uuid_in (d_pg ref_deps) (ls_accountID l) = Some (ls_accountID l)"
    using ann_linking by metis
  obtain s2 a ct where s2: "link_callback ref_deps l (OnLinked ''7'' ''tok'') s1 = Some s2" "a \<in> set (steam_accounts (s_db s2))"
    "r_enc_refresh_token a = Some ct"
    using ann_token_stored [OF s(4-8)] by metis
  have st: "api_step ref_deps ref_platform ref_api s" by (rule http [OF s(1)])
  have st1: "api_step ref_deps ref_platform s s1"
    by (rule http [OF prod_eqI [of _ "(x, s1)" for x, unfolded fst_conv snd_conv, OF refl s(2)]])
  have st2: "api_step ref_deps ref_platform s1 s2" by (rule api_step.callback [OF _ s2(1)]) (simp add: s(3))
  have "\<exists>v. life_reachable ref_config ref_deps ref_platform v \<and> idle v \<and> t_api v = s'"
    if "\<exists>u. life_reachable ref_config ref_deps ref_platform u \<and> idle u \<and> t_api u = s" "api_step ref_deps ref_platform s s'" for s s'
    using that sequential_step [of ref_deps ref_platform _ s'] life_steps [of ref_config ref_deps ref_platform] unfolding ref_main_deps by metis
  note run = this
  have "\<exists>v. life_reachable ref_config ref_deps ref_platform v \<and> idle v \<and> t_api v = s2"
    by (rule run [OF run [OF run [OF _ st] st1] st2]) (use t0 in auto)
  then show ?thesis using that s2(2,3) by blast
qed


end
