(* ===== verification/Spec2Isabelle.thy ===== *)
theory Spec2Isabelle
  imports Session_Machine Control_Demo Control_Process Api_Contract Api_Expiry Api_Concurrent
    Worker_Agent_Properties Worker_Joined Db_Schema Test_Database Control_Restart
begin

text \<open>
  A verification development for a Dota 2 spectating service: its control plane (Go, under
  \<open>src/control-plane\<close>) and its worker (Python, under \<open>src/worker\<close>). Users register and log in over
  HTTP, link a Steam account through a worker that is connected over gRPC, and list their Steam
  friends. The secrets that pass
  through it are the password, the credential key derived from it, the Steam refresh token and
  the Steam password; most theorems say where these can and cannot go.

  The parts and their theories, in the order they build on each other:

  \<^item> \<open>Control_Prelude\<close>: bytes, time, Go errors (\<open>goerror\<close>, with wrapping and \<open>errors.Is\<close>), the
    \<open>outcome\<close> of a Go function (\<open>Ok\<close>, \<open>Fail\<close> with an error, \<open>Panic\<close>) and the random source
    \<open>rng\<close>, a stream of reads each of which may fail.
  \<^item> \<open>Go_Text\<close>, \<open>Go_Base64\<close>, \<open>Go_Json\<close>: what the source uses of \<open>strings\<close>, \<open>fmt\<close>,
    \<open>encoding/hex\<close>, \<open>encoding/base64\<close> and \<open>encoding/json\<close>, as executable functions.
  \<^item> \<open>Session_Machine\<close>: \<open>internal/sessions/state.go\<close>, the transition table and \<open>Next\<close>, refined
    from the lifecycle diagram (\<open>edge\<close>).
  \<^item> \<open>Key_Cache\<close>, \<open>Auth_Crypto\<close>, \<open>Password_Hash\<close>, \<open>Token_Manager\<close>: the four files of
    \<open>internal/auth\<close>. The specification of the cache is \<open>last_key\<close>, a function of the history of
    calls; the locale \<open>credential_cache\<close> proves the refinement from three laws.
  \<^item> \<open>Pg_Store\<close>, \<open>Steam_Account_Store\<close>: \<open>internal/store\<close>. A \<open>Db\<close> is the two tables; a statement
    may fail at any query (\<open>pg\<close> says which), and otherwise keeps the constraints of the
    migrations. \<open>users_of\<close> and \<open>account_of\<close> are the abstract maps; the locales \<open>user_store\<close> and
    \<open>steam_account_store\<close> are the interfaces of \<open>api/router.go\<close>, interpreted on the stores.
  \<^item> \<open>Db_Schema\<close>: the four files of \<open>db/migrations\<close> as data (\<open>init_001\<close> and so on), the DDL they use as a
    function on a database of tables (\<open>exec_ddl\<close>), and the constraints of a table as a check of its rows
    (\<open>consistent\<close>). The theorems hold the two tables of \<open>Pg_Store\<close> and its inserts against that schema.
  \<^item> \<open>Test_Database\<close>: \<open>internal/testdb\<close>, which gives each test a migrated database of its own. An
    \<open>Instance\<close> is the databases of a server and the connections that are open; any call on it may fail.
  \<^item> \<open>Db_Schema\<close>: the four files of \<open>db/migrations\<close> as data (\<open>init_001\<close> and so on), the DDL they use as a
    function on a database of tables (\<open>exec_ddl\<close>), and the constraints of a table as a check of its rows
    (\<open>consistent\<close>). The theorems hold the two tables of \<open>Pg_Store\<close> and its inserts against that schema.
  \<^item> \<open>Test_Database\<close>: \<open>internal/testdb\<close>, which gives each test a migrated database of its own. An
    \<open>Instance\<close> is the databases of a server and the connections that are open; any call on it may fail.
  \<^item> \<open>Worker_Protocol\<close>, \<open>Worker_Server\<close>, \<open>Worker_Runs\<close>: the messages, the registry and the two
    correlation tables with \<open>Server.handle\<close>, and the goroutines of \<open>internal/workers\<close> as the
    step relation \<open>pool_step\<close> (one atomic action of a stream loop, a pump or a call). The locale
    \<open>correlation\<close> is the contract of a table, interpreted on all four.
  \<^item> \<open>Api_Types\<close>, \<open>Api_Auth\<close>, \<open>Api_Steam\<close>, \<open>Api_Router\<close>: \<open>internal/api\<close>. \<open>Api\<close> is the state
    behind the handlers, \<open>Deps\<close> the collaborators; every handler is one function of the request
    and the state, with every branch, status and message of the source. \<open>serve\<close> routes a
    request; \<open>api_step\<close> also runs the callbacks of links and closes WebSocket connections.
  \<^item> \<open>Api_Invariant\<close>: what holds in every run (\<open>api_inv\<close>); \<open>Api_Properties\<close>, \<open>Api_Links\<close>: the
    theorems about the API, with a reference server (\<open>ref_deps\<close>) on which they are applied.
  \<^item> \<open>Goroutines\<close>, \<open>Api_Threads\<close>, \<open>Api_Interleaving\<close>, \<open>Api_Concurrent\<close>: the same handlers and callbacks
    at the grain of their accesses to shared state (\<open>Register_steps\<close>, \<open>serve_steps\<close>, \<open>callback_steps\<close>, one
    action for a map access under its mutex, an SQL statement, a read of the random source, a call on the
    worker) and any number of them interleaved (\<open>thread_step\<close>). Alone they are the handlers above
    (\<open>alone_serve\<close>). The locale \<open>shared_state\<close> is the proof rule: an invariant that each action keeps and
    a relation \<open>grows\<close> that each stays within; it is interpreted on \<open>core_inv\<close>.
  \<^item> \<open>Api_Expiry\<close>: what the expiry stored with a refresh token is; \<open>Api_Docs\<close>: the OpenAPI document
    of \<open>docs/docs.go\<close> as data, equal to the route table (\<open>documented_route\<close>); \<open>Api_Contract\<close>: every
    answer of the server against that document, and that no handler panics.
  \<^item> \<open>Control_Wiring\<close>: \<open>cmd/server/main.go\<close> up to the database (\<open>configure\<close>), \<open>store.New\<close>, and the
    two adapters between the API and the worker pool. \<open>Control_Process\<close>: the rest of \<open>main\<close>, the two
    serving goroutines, the select and the shutdown, as a step function on events. \<open>Control_Restart\<close>: the start
    of \<open>main\<close> as one function and the process over several lives, each ended at any access to shared state
    and started again on the same tables (\<open>life_reachable\<close>); what is in memory is lost. \<open>Control_Restart\<close>: the start
    of \<open>main\<close> as one function and the process over several lives, each ended at any access to shared state
    and started again on the same tables (\<open>life_reachable\<close>); what is in memory is lost.
  \<^item> \<open>Control_System\<close>: the API and the worker pool joined by the adapters (\<open>sys_step\<close>). The handlers
    that wait for the worker are cut in two at their call (\<open>ListFriends_ask\<close> and
    \<open>friends_response\<close>, \<open>SubmitGuard_ask\<close> and \<open>code_response\<close>, with lemmas that the parts compose to
    the handlers of \<open>Api_Steam\<close>), each link is a goroutine, and every order of all of them is a
    run; \<open>sys_inv\<close> is what holds in every run. \<open>Control_Demo\<close>: concrete runs for the witnesses. The
    properties that need both sides are in this file.
  \<^item> \<open>Worker_Machine\<close>: \<open>state_machine.py\<close> of the worker, driven by the same events as the session
    machine of the control plane (\<open>session_of\<close>). \<open>Steam_Client\<close>: the pure functions of
    \<open>steam_client.py\<close>, with the base64 decoding of Python, which skips foreign characters.
  \<^item> \<open>Worker_Agent\<close>: \<open>agent.py\<close>, \<open>grpc_client.py\<close> and the class \<open>SteamSession\<close>. An \<open>Agent\<close> is the state
    of the process: the machine, the Steam session with its guard-code handoff, the outbox, the clock and
    one \<open>Thread\<close> for each \<open>LinkAccount\<close> and \<open>ListFriends\<close>; \<open>thread_step\<close> is one access of a thread to what
    is shared or one library call, \<open>agent_step\<close> any order of these with commands and the drawing of
    events. \<open>Worker_Agent_Invariants\<close>: what holds in every run; the locale \<open>answering_worker\<close> is the contract
    that each command that asks is answered once, from the balance of its commands and events.
    \<open>Worker_Agent_Properties\<close>: the theorems about it, with a run of two crossing logins.
  \<^item> \<open>Worker_Joined\<close>: the worker pool with these agents at the other end of its streams
    (\<open>joint_step\<close>): the reply of a call is one token that is queued, at work, on its way or taken.

  Parameters. Code that is not in the repository is a parameter with documented laws as named
  hypotheses: Argon2id and AES-GCM (\<open>crypto\<close>: \<open>argon2_ok\<close>, \<open>gcm_ok\<close>), the JWT library (\<open>jwt_lib\<close>:
  \<open>jwt_ok\<close>), PostgreSQL (\<open>pg\<close>: \<open>pg_ok\<close>, and \<open>healthy\<close> for an engine that accepts every statement),
  \<open>crypto/rand\<close> (\<open>rng\<close>: \<open>rand_ok\<close>, and \<open>rand_live\<close> for one that never fails), the graceful stop of the
  gRPC server (\<open>graceful_ok\<close>: it waits for the open calls). Each has a
  concrete instance (\<open>ref_crypto\<close>, \<open>ref_jwt\<close>, \<open>ref_pg\<close>, \<open>ref_rng\<close>) that satisfies its laws. For the
  worker, \<open>json.loads\<close>, the \<open>str\<close> of a value that is not a string and the RSA of Cryptodome are the record
  \<open>Py\<close> (instance \<open>ref_py\<close>), of which nothing is assumed; what Steam, python-steam and the clock answer is a
  free choice of a step. For the test databases, \<open>net/url\<close>, the naming of pgx, the file system, the pool and the faults of
  the server are the record \<open>Machine\<close> (instance \<open>ref_machine\<close>); \<open>url_ok\<close> says that pgx connects to the database of
  the path of a URL.

  Bounds. Integers with a width are words (costs of Argon2id, protobuf enums and ids); times are
  unbounded nanosecond counts, in the worker rational seconds. The JSON reader carries the nesting depth of the library
  (\<open>maxNestingDepth\<close>, 10000), which bounds its recursion, and \<open>json_plain\<close> asks the encoder's
  argument to stay below it. The send queue of a worker holds 8 commands and a reply channel 1.

  Granularity. In \<open>api_step\<close> a handler is one step; \<open>thread_step\<close> cuts it at every access to shared
  state. In \<open>sys_step\<close>, where the API meets the worker pool, a handler runs atomically between its
  calls on the worker, and the goroutines of the pool interleave with it and with the two parts of a
  handler that waits.

  Not modelled: logging, the deadlines of contexts as times (a call may give up at any moment
  instead), the wire format of gRPC, the text of SQL scripts (\<open>Db_Schema\<close> starts from their statements),
  \<open>close\<close> and \<open>logout\<close> of the worker, which nothing
  calls, its stubs \<open>dota_client.py\<close> and \<open>ffmpeg.py\<close>, and the browser client, which is the environment of
  the API.
\<close>

section \<open>Properties of the whole system\<close>

text \<open>
  C1: in every interleaving of requests, links and worker streams, a stored refresh token is one
  that the worker reported for exactly this account: some link was started for the account, its
  command went out under the link's own request id, its call returned with a result that carries
  this id and no error, and the stored ciphertext opens, under the key the link was started with,
  to the token of that result.
\<close>

theorem stored_token_was_reported:
  assumes "deps_ok D" "sys_reachable D P y" "a \<in> set (steam_accounts (s_db (y_api y)))" "r_enc_refresh_token a = Some ct"
  shows "\<exists>l c k res non. l \<in> set (s_started (y_api y)) \<and> ls_accountID l = r_id a
    \<and> calls (y_pool y) c = Some k \<and> command_of k = Cmd_LinkAccount \<lparr>la_RequestId = ls_reqID l,
        la_SteamUsername = ls_username l, la_SteamPassword = ls_password l\<rparr>
    \<and> c_pc k = Returned (Answered (LinkReply res)) \<and> lres_RequestId res = ls_reqID l \<and> lres_Error res = None
    \<and> r_enc_refresh_nonce a = Some non \<and> Decrypt (d_crypto D) (ls_key l) ct non = Ok (bytes_of_string (lres_RefreshToken res))"
proof -
  have inv: "sys_inv D y" by (rule sys_inv_reachable [OF assms(1,2)])
  obtain n cb where n: "n < length (s_started (y_api y))" "(n, cb) \<in> set (y_ended y)" "token_written D (link_at y n) cb a"
    using inv assms(3,4) unfolding sys_inv_def tokens_ok_def by blast
  then obtain sid tok non where cb: "cb = OnLinked sid tok" "r_enc_refresh_nonce a = Some non" "ls_accountID (link_at y n) = r_id a"
    "Decrypt (d_crypto D) (ls_key (link_at y n)) ct non = Ok (bytes_of_string tok)"
    using assms(4) unfolding token_written_def by auto
  obtain c k ans res where c: "y_links y c = Some n" "calls (y_pool y) c = Some k" "c_pc k = Returned ans"
    "link_result ans = Some res" "cb = StartLink_end res"
    using inv n(2) unfolding sys_inv_def ends_wired_def ended_by_def by blast
  obtain r where r: "ans = Answered (LinkReply r)" "lres_Error r = None" "lres_RefreshToken r = tok"
    using c(4,5) cb(1) by (cases ans rule: link_result.cases) (auto simp: StartLink_end_def split: option.splits)
  have k: "c_id k = ls_reqID (link_at y n)" "c_req k = StartLink_request (link_at y n)"
    using inv c(1,2) unfolding sys_inv_def links_wired_def by fastforce+
  have "fits k (LinkReply r)" using inv c(2,3) r(1) returned_fits [of "y_pool y" c k "LinkReply r"] by (simp add: sys_inv_def)
  then have "lres_RequestId r = ls_reqID (link_at y n)" using k by simp
  moreover have "link_at y n \<in> set (s_started (y_api y))" using n(1) by simp
  moreover have "command_of k = Cmd_LinkAccount \<lparr>la_RequestId = ls_reqID (link_at y n),
      la_SteamUsername = ls_username (link_at y n), la_SteamPassword = ls_password (link_at y n)\<rparr>"
    using k by (simp add: StartLink_request_def)
  ultimately show ?thesis using c(2,3) r cb by blast
qed

theorem stored_token_was_reported_witness:
  "\<exists>(y :: Sys) l c k. s_started (y_api y) = [l] \<and> calls (y_pool y) c = Some k
     \<and> command_of k = Cmd_LinkAccount \<lparr>la_RequestId = ls_reqID l, la_SteamUsername = ls_username l, la_SteamPassword = ls_password l\<rparr>"
proof -
  obtain y tok l a ct non wk where y: "sys_reachable ref_deps ref_platform y" "ann_token tok" "s_started (y_api y) = [l]"
    "y_ended y = [(0, OnLinked ''7'' ''tok'')]"
    "a \<in> set (steam_accounts (s_db (y_api y)))" "r_user_id a = ''u''" "r_enc_refresh_token a = Some ct"
    "account_of (s_db (y_api y)) ''u'' = Some a" "r_enc_refresh_nonce a = Some non"
    "Decrypt (d_crypto ref_deps) (ls_key l) ct non = Ok (bytes_of_string ''tok'')" "has_key (y_api y) 5 ''u'' (ls_key l)"
    "calls (y_pool y) = [0 \<mapsto> demo_link_call l (Returned (Answered (LinkReply (demo_result l))))]"
    "current (reg (server (y_pool y))) = Some 0" "handles (y_pool y) 0 = Some wk" "length (w_send wk) < send_cap"
    "rand_live (s_rand (y_api y))" "y_answers y = []"
    by (rule demo_sys_linked)
  obtain l' c k where "l' \<in> set (s_started (y_api y))" "calls (y_pool y) c = Some k"
    "command_of k = Cmd_LinkAccount \<lparr>la_RequestId = ls_reqID l', la_SteamUsername = ls_username l', la_SteamPassword = ls_password l'\<rparr>"
    using stored_token_was_reported [OF ref_deps_ok y(1,5,7)] by blast
  then show ?thesis using y(3) by (intro exI [of _ y] exI [of _ l] exI [of _ c] exI [of _ k]) simp
qed

text \<open>
  C2: in every interleaving, each request that waited for the worker is answered from its own
  call. A friends request went out with a token that a key of the asking user opens where a token
  reported for one of this user's links was sealed, and its 200 shows the friends of the reply
  with its own request id; a guard code went out under the request id of one of the user's links.
  Any other end is a 502.
\<close>

theorem answers_come_from_own_call:
  assumes "deps_ok D" "sys_reachable D P y" "(c, uid, resp) \<in> set (y_answers y)"
  shows "\<exists>k q. calls (y_pool y) c = Some k \<and>
    ((\<exists>tok. command_of k = Cmd_ListFriends \<lparr>lf_RequestId = q, lf_RefreshToken = tok\<rparr>
        \<and> reported D (s_db (y_api y)) (s_started (y_api y)) (y_ended y) uid tok
        \<and> (resp = writeError 502 ''could not fetch friends''
           \<or> (\<exists>res. c_pc k = Returned (Answered (FriendsReply res)) \<and> fres_RequestId res = q \<and> fres_Error res = None
                \<and> resp = writeJSON 200 (JArr (map FriendDTO_json
                    (d_sort D (map (toFriendDTO \<circ> toFriendStatus) (fres_Friends res))))))))
     \<or> (\<exists>cd u n. command_of k = Cmd_SteamGuard \<lparr>sc_Code = cd, sc_RequestId = q\<rparr> \<and> uuid_in (d_pg D) uid = Some u
        \<and> own_link D (s_db (y_api y)) (s_started (y_api y)) u n \<and> ls_reqID (link_at y n) = q
        \<and> (resp = writeError 502 ''could not submit steam guard code''
           \<or> c_pc k = Returned Submitted \<and> resp = writeHeader 204)))"
proof -
  have inv: "sys_inv D y" by (rule sys_inv_reachable [OF assms(1,2)])
  then have "answered D y c uid resp" using assms(3) unfolding sys_inv_def by blast
  then obtain k a where k: "calls (y_pool y) c = Some k" "c_pc k = Returned a"
    and r: "(\<exists>res. friends_call D y uid k \<and> friends_result a = Some res \<and> resp = friends_response D (friendsProvider_ListFriends res))
      \<or> (\<exists>res. code_call D y uid k \<and> submit_result a = Some res \<and> resp = code_response res)"
    unfolding answered_def by blast
  have fit: "fits k x" if "a = Answered x" for x
    using inv k that returned_fits [of "y_pool y" c k x] by (simp add: sys_inv_def)
  from r show ?thesis
  proof
    assume "\<exists>res. friends_call D y uid k \<and> friends_result a = Some res \<and> resp = friends_response D (friendsProvider_ListFriends res)"
    then obtain tok res where t: "c_req k = AskFriends tok" "reported D (s_db (y_api y)) (s_started (y_api y)) (y_ended y) uid tok"
      "friends_result a = Some res" "resp = friends_response D (friendsProvider_ListFriends res)"
      unfolding friends_call_def by blast
    have "resp = writeError 502 ''could not fetch friends'' \<or> (\<exists>res. a = Answered (FriendsReply res) \<and> fres_RequestId res = c_id k
        \<and> fres_Error res = None \<and> resp = writeJSON 200 (JArr (map FriendDTO_json
            (d_sort D (map (toFriendDTO \<circ> toFriendStatus) (fres_Friends res))))))"
      using t(3) fit by (cases a rule: friends_result.cases)
        (auto simp: t(4) friends_response_def friendsProvider_ListFriends_def split: option.splits)
    then show ?thesis using k t(1,2) by (intro exI [of _ k] exI [of _ "c_id k"]) auto
  next
    assume "\<exists>res. code_call D y uid k \<and> submit_result a = Some res \<and> resp = code_response res"
    then obtain cd u n res where t: "c_req k = AskGuard cd" "uuid_in (d_pg D) uid = Some u"
      "own_link D (s_db (y_api y)) (s_started (y_api y)) u n" "c_id k = ls_reqID (link_at y n)"
      "submit_result a = Some res" "resp = code_response res"
      unfolding code_call_def by blast
    have "resp = writeError 502 ''could not submit steam guard code'' \<or> a = Submitted \<and> resp = writeHeader 204"
      using t(5) by (cases a rule: submit_result.cases) (auto simp: t(6) code_response_def)
    then show ?thesis using k t(1-4) by (intro exI [of _ k] exI [of _ "c_id k"]) auto
  qed
qed

theorem answers_come_from_own_call_witness:
  "\<exists>(y :: Sys) k q. calls (y_pool y) 1 = Some k \<and> y_answers y = [(1, ''u'', writeError 502 ''could not fetch friends'')]
     \<and> (\<exists>tok. command_of k = Cmd_ListFriends \<lparr>lf_RequestId = q, lf_RefreshToken = tok\<rparr>)"
proof -
  obtain y where y: "sys_reachable ref_deps ref_platform y"
    "y_answers y = [(1, ''u'', friends_response ref_deps (Fail (ExternalError ''context deadline exceeded'')))]"
    by (rule demo_sys_asked)
  have r: "friends_response ref_deps (Fail (ExternalError ''context deadline exceeded'')) = writeError 502 ''could not fetch friends''"
    by (simp add: friends_response_def)
  have m: "(1, ''u'', writeError 502 ''could not fetch friends'') \<in> set (y_answers y)" using y(2) r by simp
  have ne: "writeError 502 ''could not fetch friends'' \<noteq> writeError 502 ''could not submit steam guard code''"
    "writeError 502 ''could not fetch friends'' \<noteq> writeHeader 204"
    by (simp_all add: writeError_def writeJSON_def ErrorResponse_def writeHeader_def)
  obtain k q where "calls (y_pool y) 1 = Some k" "\<exists>tok. command_of k = Cmd_ListFriends \<lparr>lf_RequestId = q, lf_RefreshToken = tok\<rparr>"
    using answers_come_from_own_call [OF ref_deps_ok y(1) m] ne by blast
  then show ?thesis using y(2) r by (intro exI [of _ y] exI [of _ k] exI [of _ q]) simp
qed



end
